(* ===== verification/Web4_Base.thy ===== *)
theory Web4_Base
  imports "HOL-Library.Word" "HOL-Library.AList" "HOL-Library.List_Lexorder"
    "HOL-Library.Char_ord" "HOL-Library.Product_Lexorder" "HOL-Library.Multiset"
begin

text \<open>
  Shared vocabulary of the development: bytes, machine integers, hashes, the error values that
  stand for every error return and every run-time panic of the Go sources, a bind for functions
  that may fail, and Go maps as association lists with one entry per key.

  Go runs here on a 64-bit platform: \<open>int\<close> and \<open>int64\<close> are 64-bit words read by \<open>sint\<close>,
  \<open>uint64\<close> and \<open>uint32\<close> are words read by \<open>unat\<close>. A fixed array \<open>[32]byte\<close> or \<open>[16]byte\<close> is a byte
  list; where its length matters the lemmas say so.
\<close>

unbundle bit_operations_syntax

section \<open>Types and errors\<close>

type_synonym byte = "8 word"
type_synonym bytes = "8 word list"
type_synonym uint32 = "32 word"
type_synonym uint64 = "64 word"
type_synonym int64 = "64 word"
type_synonym hash = "8 word list"
type_synonym message_id = "8 word list"
type_synonym peer_id = string

datatype error =
  \<comment> \<open>run-time panics of Go\<close>
    PanicSliceBounds
  | PanicNilDeref
  \<comment> \<open>crypto/decode.go\<close>
  | ShortUint32 nat
  | ShortUint64 nat
  | ShortInputHash nat
  | ShortByteSlice nat nat
  | ValueDepthOutOfRange int
  | TrailingValueBytes nat
  | TrailingTransferBytes nat
  \<comment> \<open>protocol\<close>
  | InvalidMessageLength nat
  | InvalidMessageType nat
  | InvalidPayloadLength nat nat
  | InvalidBoolean nat
  | InvalidDistance int
  | ShortLengthPrefix nat
  | ShortLengthPrefixedData nat
  | ErrInputConsumed
  \<comment> \<open>node\<close>
  | ErrUnknownPeer
  | UnsupportedMessageType int
  | NoInputs
  | NoOutputs
  | OutputExpired nat
  | UnknownInput hash
  | DifferentOwners
  | InvalidOwnerKeyLength nat
  | InvalidSignature
  \<comment> \<open>transport\<close>
  | ReadEOF
  | ReadUnexpectedEOF
  | FrameTooLarge nat
  | EmptyPeerAddress
  | PeerAddressTooLong nat
  | SendFailed string
  | NilHandler
  | TransportClosed
  | TransportNotStarted
  | TransportAlreadyStarted
  | NetClosed
  | NetError string
  \<comment> \<open>internal/cli\<close>
  | HexInvalidByte byte
  | HexOddLength
  | InvalidHashLength nat
  | InvalidRecipientLength nat
  | UnknownInputID string
  | AmountExceedsInput
  | InputUnitMismatch string string
  | NoLocalSigningKey string
  | UnknownTransferID string
  | AlreadyRunning string
  | NotASocket string
  | NodeUnreachable string
  | MissingNodeConfig
  | NodeAlreadyStarted
  | UsageError string
  | UnknownCommand string
  | DemoError string

text \<open>The named collections that carry the component proofs.\<close>

named_theorems codec_simps \<open>unfolding the encoders and decoders\<close>
named_theorems frame_simps \<open>fields of the node that an operation leaves alone\<close>

section \<open>Results that may be errors\<close>

text \<open>\<open>r \<then> f\<close> of the Go idiom \<open>x, err := ...; if err != nil { return err }\<close>.\<close>

fun bindE :: "error + 'a \<Rightarrow> ('a \<Rightarrow> error + 'b) \<Rightarrow> error + 'b" where
  "bindE (Inl e) f = Inl e"
| "bindE (Inr x) f = f x"

lemma bindE_Inr_iff: "bindE r f = Inr y \<longleftrightarrow> (\<exists>x. r = Inr x \<and> f x = Inr y)"
  by (cases r) auto

lemma bindE_Inl_iff: "bindE r f = Inl e \<longleftrightarrow> r = Inl e \<or> (\<exists>x. r = Inr x \<and> f x = Inl e)"
  by (cases r) auto

text \<open>The same for a decoder's pair of a result and the next offset.\<close>

lemma bindE_pairE:
  assumes "bindE r (\<lambda>(x, n). f x n) = Inr y"
  obtains x n where "r = Inr (x, n)" and "f x n = Inr y"
  using assms by (cases r) auto

lemma bindE_pair_neq:
  assumes "r \<noteq> Inl e" and "\<And>x n. r = Inr (x, n) \<Longrightarrow> f x n \<noteq> Inl e"
  shows "bindE r (\<lambda>(x, n). f x n) \<noteq> Inl e"
  using assms by (cases r) auto

lemma bindE_cong [fundef_cong]:
  "r = r' \<Longrightarrow> (\<And>x. r' = Inr x \<Longrightarrow> f x = g x) \<Longrightarrow> bindE r f = bindE r' g"
  by (cases r') auto

lemma bindE_assoc: "bindE (bindE r f) g = bindE r (\<lambda>x. bindE (f x) g)"
  by (cases r) auto

lemma Inr_unit_cases: "(r :: error + unit) = Inr () \<or> (\<exists>e. r = Inl e)"
  by (cases r) auto

section \<open>Strings as bytes\<close>

text \<open>A Go string is a byte sequence; \<open>[]byte(s)\<close> and \<open>string(b)\<close> copy it.\<close>

definition string_bytes :: "string \<Rightarrow> bytes" where
  "string_bytes s = map of_char s"

definition bytes_string :: "bytes \<Rightarrow> string" where
  "bytes_string b = map (\<lambda>x. char_of (unat x)) b"

lemma of_char_char_of_byte [simp]: "of_char (char_of (unat b)) = (b :: byte)"
proof -
  have "unat b < 2 ^ LENGTH(8)" by (rule unsigned_less)
  then have "unat b mod 256 = unat b" by simp
  then have "(of_char (char_of (unat b)) :: nat) = unat b" by simp
  then have "(of_nat (of_char (char_of (unat b))) :: byte) = of_nat (unat b)" by (simp only:)
  then have "of_char (char_of (unat b)) = (of_nat (unat b) :: byte)" by (simp only: of_nat_of_char)
  then show ?thesis by simp
qed

lemma char_of_unat_of_char [simp]: "char_of (unat (of_char c :: byte)) = c"
proof -
  have "unat (of_nat (of_char c) :: byte) = of_char c"
    by (simp add: unat_of_nat take_bit_eq_mod)
  then have "unat (of_char c :: byte) = of_char c" by (simp only: of_nat_of_char)
  then show ?thesis by (simp only: char_of_char)
qed

lemma bytes_string_bytes [simp]: "bytes_string (string_bytes s) = s"
  by (induction s) (simp_all add: bytes_string_def string_bytes_def)

lemma string_bytes_string [simp]: "string_bytes (bytes_string b) = b"
  by (induction b) (simp_all add: bytes_string_def string_bytes_def)

lemma length_string_bytes [simp]: "length (string_bytes s) = length s"
  by (simp add: string_bytes_def)

lemma length_bytes_string [simp]: "length (bytes_string b) = length b"
  by (simp add: bytes_string_def)

section \<open>Slices\<close>

text \<open>
  \<open>len(data[offset:])\<close>: slicing past the end panics. The decoders below only slice through this
  function, so that a panic would be a value of the model.
\<close>

definition avail :: "bytes \<Rightarrow> nat \<Rightarrow> error + nat" where
  "avail data offset =
     (if offset \<le> length data then Inr (length data - offset) else Inl PanicSliceBounds)"

definition subslice :: "bytes \<Rightarrow> nat \<Rightarrow> nat \<Rightarrow> bytes" where
  "subslice data lo hi = take (hi - lo) (drop lo data)"

lemma avail_in [simp]: "off \<le> length data \<Longrightarrow> avail data off = Inr (length data - off)"
  by (simp add: avail_def)

lemma subslice_append:
  "subslice (pre @ mid @ suf) (length pre) (length pre + length mid) = mid"
  by (simp add: subslice_def)

lemma subslice_append_at:
  "n = length pre \<Longrightarrow> m = length pre + length mid \<Longrightarrow> subslice (pre @ mid @ suf) n m = mid"
  by (simp add: subslice_append)

lemma length_subslice: "hi \<le> length data \<Longrightarrow> lo \<le> hi \<Longrightarrow> length (subslice data lo hi) = hi - lo"
  by (simp add: subslice_def)

lemma subslice_join:
  "lo \<le> mid \<Longrightarrow> mid \<le> hi \<Longrightarrow> subslice data lo mid @ subslice data mid hi = subslice data lo hi"
proof -
  assume a: "lo \<le> mid" "mid \<le> hi"
  then obtain i j where "mid = lo + i" and "hi = lo + i + j"
    by (metis add.assoc le_Suc_ex)
  then show ?thesis by (simp add: subslice_def take_add add.assoc drop_drop add.commute)
qed

lemma subslice_full: "subslice data 0 (length data) = data"
  by (simp add: subslice_def)

lemma data_split: "off \<le> off' \<Longrightarrow> off' \<le> length data \<Longrightarrow>
   data = take off data @ subslice data off off' @ drop off' data"
  by (simp add: subslice_def)
     (metis append_take_drop_id drop_drop le_add_diff_inverse2)

section \<open>Go maps\<close>

text \<open>
  A Go map is an association list with one entry per key. \<open>AList.update\<close> keeps the position of a
  key it overwrites and appends a new one, so the list also carries the order of first insertion;
  the code never observes it (a \<open>range\<close> over a map has an unspecified order).
\<close>

type_synonym ('k, 'v) go_map = "('k \<times> 'v) list"

abbreviation mput :: "'k \<Rightarrow> 'v \<Rightarrow> ('k, 'v) go_map \<Rightarrow> ('k, 'v) go_map" where
  "mput \<equiv> AList.update"

abbreviation mdel :: "'k \<Rightarrow> ('k, 'v) go_map \<Rightarrow> ('k, 'v) go_map" where
  "mdel \<equiv> AList.delete"

abbreviation mkeys :: "('k, 'v) go_map \<Rightarrow> 'k set" where
  "mkeys m \<equiv> fst ` set m"

abbreviation mwf :: "('k, 'v) go_map \<Rightarrow> bool" where
  "mwf m \<equiv> distinct (map fst m)"

text \<open>\<open>m[k]\<close> with the zero value for a missing key, as Go reads a map of slices or maps.\<close>

definition mget0 :: "('k, 'v list) go_map \<Rightarrow> 'k \<Rightarrow> 'v list" where
  "mget0 m k = (case map_of m k of None \<Rightarrow> [] | Some v \<Rightarrow> v)"

locale map_interface =
  fixes put :: "'k \<Rightarrow> 'v \<Rightarrow> 'm \<Rightarrow> 'm"
    and del :: "'k \<Rightarrow> 'm \<Rightarrow> 'm"
    and get :: "'m \<Rightarrow> 'k \<Rightarrow> 'v option"
    and size_of :: "'m \<Rightarrow> nat"
    and wf :: "'m \<Rightarrow> bool"
  assumes get_put: "get (put k v m) = (get m)(k \<mapsto> v)"
    and get_del: "get (del k m) = (get m)(k := None)"
    and wf_put: "wf m \<Longrightarrow> wf (put k v m)"
    and wf_del: "wf m \<Longrightarrow> wf (del k m)"
    and size_card: "wf m \<Longrightarrow> size_of m = card (dom (get m))"
    and finite_dom: "finite (dom (get m))"
begin

lemma get_put_same: "get (put k v m) k = Some v"
  by (simp add: get_put)

lemma get_put_other: "k' \<noteq> k \<Longrightarrow> get (put k v m) k' = get m k'"
  by (simp add: get_put)

lemma dom_put: "dom (get (put k v m)) = insert k (dom (get m))"
  by (simp add: get_put)

lemma size_put: "wf m \<Longrightarrow> size_of (put k v m) = (if get m k = None then Suc (size_of m) else size_of m)"
  by (auto simp: size_card wf_put dom_put finite_dom card_insert_if domIff)

lemma size_del_le: "wf m \<Longrightarrow> size_of (del k m) \<le> size_of m"
  by (auto simp: size_card wf_del get_del finite_dom intro: card_mono)

end

interpretation gm: map_interface AList.update AList.delete map_of length "\<lambda>m. distinct (map fst m)"
proof unfold_locales
  fix m :: "('a \<times> 'b) list"
  assume wf: "distinct (map fst m)"
  then have "card (mkeys m) = length (map fst m)"
    by (metis distinct_card list.set_map)
  then show "length m = card (dom (map_of m))"
    by (simp add: dom_map_of_conv_image_fst)
qed (auto simp: update_conv' delete_conv' distinct_update distinct_delete finite_dom_map_of)

lemmas gm_simps = gm.get_put gm.get_del gm.wf_put gm.wf_del

lemma mget0_put: "mget0 (mput k v m) k' = (if k' = k then v else mget0 m k')"
  by (simp add: mget0_def gm.get_put)

lemma mget0_del: "mget0 (mdel k m) k' = (if k' = k then [] else mget0 m k')"
  by (simp add: mget0_def gm.get_del)

lemma mget0_empty [simp]: "mget0 [] k = []"
  by (simp add: mget0_def)

section \<open>Duplicate checks with a local set\<close>

text \<open>
  \<open>seen := map[Hash]struct\<close>, then a loop that stops at the first element that is already in it:
  both \<open>ConsumeInputs\<close> and \<open>validateTransfer\<close> do this.
\<close>

fun seen_before :: "'a list \<Rightarrow> 'a list \<Rightarrow> bool" where
  "seen_before seen [] = False"
| "seen_before seen (x # xs) = (if x \<in> set seen then True else seen_before (x # seen) xs)"

lemma seen_before_iff: "seen_before seen xs \<longleftrightarrow> \<not> (distinct xs \<and> set xs \<inter> set seen = {})"
  by (induction xs arbitrary: seen) auto

lemma seen_before_distinct: "seen_before [] xs \<longleftrightarrow> \<not> distinct xs"
  by (simp add: seen_before_iff)

end
