(* ===== verification/Codec.thy ===== *)
theory Codec
  imports Web4_Base
begin

text \<open>
  The big-endian integers of \<open>encoding/binary\<close> and the two contracts every encoder and decoder of
  the program shares: \<open>codec\<close>, for decoders that read at an offset of a larger buffer and return the
  next offset, and \<open>payload_codec\<close>, for decoders that must consume a whole buffer. A codec's laws
  say that the decoder inverts the encoder inside any context, that it accepts nothing but the
  encoder's output (so an encoding is canonical), and that it never slices out of bounds.
\<close>

section \<open>Big-endian integers\<close>

definition put_u32 :: "uint32 \<Rightarrow> bytes" where
  "put_u32 v = [ucast (drop_bit 24 v), ucast (drop_bit 16 v), ucast (drop_bit 8 v), ucast v]"

definition get_u32 :: "bytes \<Rightarrow> uint32" where
  "get_u32 b = push_bit 24 (ucast (b ! 0)) OR push_bit 16 (ucast (b ! 1))
     OR push_bit 8 (ucast (b ! 2)) OR ucast (b ! 3)"

definition put_u64 :: "uint64 \<Rightarrow> bytes" where
  "put_u64 v = [ucast (drop_bit 56 v), ucast (drop_bit 48 v), ucast (drop_bit 40 v),
     ucast (drop_bit 32 v), ucast (drop_bit 24 v), ucast (drop_bit 16 v), ucast (drop_bit 8 v),
     ucast v]"

definition get_u64 :: "bytes \<Rightarrow> uint64" where
  "get_u64 b = push_bit 56 (ucast (b ! 0)) OR push_bit 48 (ucast (b ! 1))
     OR push_bit 40 (ucast (b ! 2)) OR push_bit 32 (ucast (b ! 3))
     OR push_bit 24 (ucast (b ! 4)) OR push_bit 16 (ucast (b ! 5))
     OR push_bit 8 (ucast (b ! 6)) OR ucast (b ! 7)"

definition put_u16 :: "16 word \<Rightarrow> bytes" where
  "put_u16 v = [ucast (drop_bit 8 v), ucast v]"

definition get_u16 :: "bytes \<Rightarrow> 16 word" where
  "get_u16 b = push_bit 8 (ucast (b ! 0)) OR ucast (b ! 1)"

lemma length_put [simp]:
  shows "length (put_u16 h) = 2" and "length (put_u32 v) = 4" and "length (put_u64 w) = 8"
  by (simp_all add: put_u16_def put_u32_def put_u64_def)

lemma byte_bit_high [simp]: "8 \<le> n \<Longrightarrow> \<not> bit (b :: byte) n"
  using bit_imp_le_length[of b n] by auto

text \<open>Bit \<open>8 q + r\<close> of the integer is bit \<open>r\<close> of the byte that is \<open>q\<close> places from the end.\<close>

lemma bit_get_u16:
  assumes "q < 2" and "r < 8"
  shows "bit (get_u16 b) (8 * q + r) \<longleftrightarrow> bit (b ! (1 - q)) r"
proof -
  from assms(1) consider "q = 0" | "q = 1"
    by linarith
  then show ?thesis by cases (use assms(2) in \<open>simp_all add: get_u16_def bit_simps\<close>)
qed

lemma bit_put_u16:
  assumes "q < 2" and "r < 8"
  shows "bit (put_u16 v ! (1 - q)) r \<longleftrightarrow> bit v (8 * q + r)"
proof -
  from assms(1) consider "q = 0" | "q = 1"
    by linarith
  then show ?thesis by cases (use assms(2) in \<open>simp_all add: put_u16_def bit_simps\<close>)
qed

lemma get_put_u16 [simp]: "get_u16 (put_u16 v) = v"
proof (rule bit_word_eqI)
  fix n
  assume "n < LENGTH(16)"
  then have q: "n div 8 < 2" by simp
  show "bit (get_u16 (put_u16 v)) n \<longleftrightarrow> bit v n"
    using bit_get_u16[OF q, of "n mod 8" "put_u16 v"] bit_put_u16[OF q, of "n mod 8" v] by simp
qed

lemma put_get_u16:
  assumes "length b = 2"
  shows "put_u16 (get_u16 b) = b"
proof (rule nth_equalityI)
  fix i
  assume "i < length (put_u16 (get_u16 b))"
  then have i: "i < 2" by simp
  show "put_u16 (get_u16 b) ! i = b ! i"
  proof (rule bit_word_eqI)
    fix n
    assume "n < LENGTH(8)"
    then have n: "n < 8" by simp
    have q: "1 - i < 2" and i': "1 - (1 - i) = i" using i by simp_all
    show "bit (put_u16 (get_u16 b) ! i) n \<longleftrightarrow> bit (b ! i) n"
      using bit_put_u16[OF q n, of "get_u16 b"] bit_get_u16[OF q n, of b] i' by simp
  qed
qed (simp add: assms)

lemma bit_get_u32:
  assumes "q < 4" and "r < 8"
  shows "bit (get_u32 b) (8 * q + r) \<longleftrightarrow> bit (b ! (3 - q)) r"
proof -
  from assms(1) consider "q = 0" | "q = 1" | "q = 2" | "q = 3"
    by linarith
  then show ?thesis by cases (use assms(2) in \<open>simp_all add: get_u32_def bit_simps\<close>)
qed

lemma bit_put_u32:
  assumes "q < 4" and "r < 8"
  shows "bit (put_u32 v ! (3 - q)) r \<longleftrightarrow> bit v (8 * q + r)"
proof -
  from assms(1) consider "q = 0" | "q = 1" | "q = 2" | "q = 3"
    by linarith
  then show ?thesis by cases (use assms(2) in \<open>simp_all add: put_u32_def bit_simps\<close>)
qed

lemma get_put_u32 [simp]: "get_u32 (put_u32 v) = v"
proof (rule bit_word_eqI)
  fix n
  assume "n < LENGTH(32)"
  then have q: "n div 8 < 4" by simp
  show "bit (get_u32 (put_u32 v)) n \<longleftrightarrow> bit v n"
    using bit_get_u32[OF q, of "n mod 8" "put_u32 v"] bit_put_u32[OF q, of "n mod 8" v] by simp
qed

lemma put_get_u32:
  assumes "length b = 4"
  shows "put_u32 (get_u32 b) = b"
proof (rule nth_equalityI)
  fix i
  assume "i < length (put_u32 (get_u32 b))"
  then have i: "i < 4" by simp
  show "put_u32 (get_u32 b) ! i = b ! i"
  proof (rule bit_word_eqI)
    fix n
    assume "n < LENGTH(8)"
    then have n: "n < 8" by simp
    have q: "3 - i < 4" and i': "3 - (3 - i) = i" using i by simp_all
    show "bit (put_u32 (get_u32 b) ! i) n \<longleftrightarrow> bit (b ! i) n"
      using bit_put_u32[OF q n, of "get_u32 b"] bit_get_u32[OF q n, of b] i' by simp
  qed
qed (simp add: assms)

lemma bit_get_u64:
  assumes "q < 8" and "r < 8"
  shows "bit (get_u64 b) (8 * q + r) \<longleftrightarrow> bit (b ! (7 - q)) r"
proof -
  from assms(1) consider "q = 0" | "q = 1" | "q = 2" | "q = 3" | "q = 4" | "q = 5" | "q = 6" | "q = 7"
    by linarith
  then show ?thesis by cases (use assms(2) in \<open>simp_all add: get_u64_def bit_simps\<close>)
qed

lemma bit_put_u64:
  assumes "q < 8" and "r < 8"
  shows "bit (put_u64 v ! (7 - q)) r \<longleftrightarrow> bit v (8 * q + r)"
proof -
  from assms(1) consider "q = 0" | "q = 1" | "q = 2" | "q = 3" | "q = 4" | "q = 5" | "q = 6" | "q = 7"
    by linarith
  then show ?thesis by cases (use assms(2) in \<open>simp_all add: put_u64_def bit_simps\<close>)
qed

lemma get_put_u64 [simp]: "get_u64 (put_u64 v) = v"
proof (rule bit_word_eqI)
  fix n
  assume "n < LENGTH(64)"
  then have q: "n div 8 < 8" by simp
  show "bit (get_u64 (put_u64 v)) n \<longleftrightarrow> bit v n"
    using bit_get_u64[OF q, of "n mod 8" "put_u64 v"] bit_put_u64[OF q, of "n mod 8" v] by simp
qed

lemma put_get_u64:
  assumes "length b = 8"
  shows "put_u64 (get_u64 b) = b"
proof (rule nth_equalityI)
  fix i
  assume "i < length (put_u64 (get_u64 b))"
  then have i: "i < 8" by simp
  show "put_u64 (get_u64 b) ! i = b ! i"
  proof (rule bit_word_eqI)
    fix n
    assume "n < LENGTH(8)"
    then have n: "n < 8" by simp
    have q: "7 - i < 8" and i': "7 - (7 - i) = i" using i by simp_all
    show "bit (put_u64 (get_u64 b) ! i) n \<longleftrightarrow> bit (b ! i) n"
      using bit_put_u64[OF q n, of "get_u64 b"] bit_get_u64[OF q n, of b] i' by simp
  qed
qed (simp add: assms)

section \<open>Decoders at an offset\<close>

locale codec =
  fixes enc :: "'a \<Rightarrow> bytes"
    and dec :: "bytes \<Rightarrow> nat \<Rightarrow> error + ('a \<times> nat)"
    and ok :: "'a \<Rightarrow> bool"
  assumes dec_enc: "ok x \<Longrightarrow> dec (pre @ enc x @ suf) (length pre) = Inr (x, length pre + length (enc x))"
    and dec_ok: "off \<le> length data \<Longrightarrow> dec data off = Inr (x, nxt) \<Longrightarrow>
       ok x \<and> off \<le> nxt \<and> nxt \<le> length data \<and> subslice data off nxt = enc x"
    and no_panic: "off \<le> length data \<Longrightarrow> dec data off \<noteq> Inl PanicSliceBounds"
begin

lemma dec_enc_at:
  assumes "ok x" and "off \<le> length data" and "subslice data off (off + length (enc x)) = enc x"
  shows "dec data off = Inr (x, off + length (enc x))"
proof -
  let ?n = "off + length (enc x)"
  have "length (enc x) \<le> length data - off"
    using arg_cong[OF assms(3), of length] by (simp add: subslice_def)
  then have "?n \<le> length data" using assms(2) by simp
  then have "data = take off data @ subslice data off ?n @ drop ?n data"
    by (intro data_split) simp_all
  then have "data = take off data @ enc x @ drop ?n data" by (simp only: assms(3))
  then show ?thesis
    using dec_enc[OF assms(1), of "take off data" "drop ?n data"] assms(2) by simp
qed

text \<open>Encodings are self-delimiting: no encoding is a proper prefix of another.\<close>

lemma prefix_free:
  assumes "ok x" and "ok y" and "enc x @ s = enc y @ t"
  shows "x = y" and "s = t"
proof -
  have "dec (enc x @ s) 0 = Inr (x, length (enc x))" and "dec (enc y @ t) 0 = Inr (y, length (enc y))"
    using dec_enc[OF assms(1), of "[]" s] dec_enc[OF assms(2), of "[]" t] by simp_all
  then show "x = y" using assms(3) by simp
  then show "s = t" using assms(3) by simp
qed

lemma enc_inj: "ok x \<Longrightarrow> ok y \<Longrightarrow> enc x = enc y \<Longrightarrow> x = y"
  using prefix_free(1)[of x y "[]" "[]"] by simp

lemma then_no_panic:
  assumes "off \<le> length data"
    and "\<And>x n. n \<le> length data \<Longrightarrow> f x n \<noteq> Inl PanicSliceBounds"
  shows "bindE (dec data off) (\<lambda>(x, n). f x n) \<noteq> Inl PanicSliceBounds"
  using no_panic[OF assms(1)] dec_ok[OF assms(1)] assms(2) by (intro bindE_pair_neq) blast+

lemma dec_bounds: "off \<le> length data \<Longrightarrow> dec data off = Inr (x, nxt) \<Longrightarrow> nxt \<le> length data"
  using dec_ok by blast

end

text \<open>
  The decoder of \<open>n\<close> elements in a row; the element decoder gets the index, which the error messages
  of \<open>decodeTransfer\<close> mention.
\<close>

fun decode_many ::
  "(nat \<Rightarrow> bytes \<Rightarrow> nat \<Rightarrow> error + ('a \<times> nat)) \<Rightarrow> nat \<Rightarrow> nat \<Rightarrow> bytes \<Rightarrow> nat \<Rightarrow> error + ('a list \<times> nat)"
where
  "decode_many dec i 0 data offset = Inr ([], offset)"
| "decode_many dec i (Suc n) data offset =
     bindE (dec i data offset) (\<lambda>(x, nxt).
     bindE (decode_many dec (Suc i) n data nxt) (\<lambda>(xs, end).
     Inr (x # xs, end)))"

locale indexed_codec =
  fixes enc :: "'a \<Rightarrow> bytes"
    and idec :: "nat \<Rightarrow> bytes \<Rightarrow> nat \<Rightarrow> error + ('a \<times> nat)"
    and ok :: "'a \<Rightarrow> bool"
  assumes each: "codec enc (idec i) ok"
begin

lemma many_dec_enc:
  assumes "\<forall>x \<in> set xs. ok x"
  shows "decode_many idec i (length xs) (pre @ concat (map enc xs) @ suf) (length pre)
           = Inr (xs, length pre + length (concat (map enc xs)))"
  using assms
proof (induction xs arbitrary: i pre)
  case Nil
  then show ?case by simp
next
  case (Cons x xs)
  have "idec i (pre @ enc x @ concat (map enc xs) @ suf) (length pre)
          = Inr (x, length pre + length (enc x))"
    using Cons.prems codec.dec_enc[OF each] by simp
  moreover have "decode_many idec (Suc i) (length xs) (pre @ enc x @ concat (map enc xs) @ suf)
      (length pre + length (enc x))
    = Inr (xs, length pre + length (enc x) + length (concat (map enc xs)))"
    using Cons.IH[of "Suc i" "pre @ enc x"] Cons.prems by simp
  ultimately show ?case by simp
qed

lemma many_dec_ok:
  assumes "off \<le> length data" and "decode_many idec i n data off = Inr (xs, nxt)"
  shows "length xs = n \<and> (\<forall>x \<in> set xs. ok x) \<and> off \<le> nxt \<and> nxt \<le> length data
    \<and> subslice data off nxt = concat (map enc xs)"
  using assms
proof (induction n arbitrary: i off xs)
  case 0
  then show ?case by (auto simp: subslice_def)
next
  case (Suc n)
  from Suc.prems(2) obtain x mid ys where
    x: "idec i data off = Inr (x, mid)" and ys: "decode_many idec (Suc i) n data mid = Inr (ys, nxt)"
    and xs: "xs = x # ys"
    by (auto simp: bindE_Inr_iff)
  have 1: "ok x \<and> off \<le> mid \<and> mid \<le> length data \<and> subslice data off mid = enc x"
    using codec.dec_ok[OF each Suc.prems(1) x] .
  with Suc.IH[OF _ ys] have 2: "length ys = n \<and> (\<forall>x \<in> set ys. ok x) \<and> mid \<le> nxt
    \<and> nxt \<le> length data \<and> subslice data mid nxt = concat (map enc ys)" by simp
  have "subslice data off nxt = subslice data off mid @ subslice data mid nxt"
    using 1 2 by (intro subslice_join [symmetric]) simp_all
  with 1 2 show ?case by (simp add: xs)
qed

lemma many_no_panic:
  "off \<le> length data \<Longrightarrow> decode_many idec i n data off \<noteq> Inl PanicSliceBounds"
proof (induction n arbitrary: i off)
  case (Suc n)
  show ?case
  proof
    assume "decode_many idec i (Suc n) data off = Inl PanicSliceBounds"
    then obtain x mid where x: "idec i data off = Inr (x, mid)"
      and p: "decode_many idec (Suc i) n data mid = Inl PanicSliceBounds"
      using codec.no_panic[OF each Suc.prems] by (auto simp: bindE_Inl_iff)
    with codec.dec_bounds[OF each Suc.prems x] Suc.IH show False by simp
  qed
qed simp

end

sublocale indexed_codec \<subseteq> many:
  codec "\<lambda>xs. concat (map enc xs)" "decode_many idec i n" "\<lambda>xs. length xs = n \<and> (\<forall>x \<in> set xs. ok x)"
  for i n
proof unfold_locales
  fix xs pre suf
  assume "length xs = n \<and> (\<forall>x \<in> set xs. ok x)"
  then show "decode_many idec i n (pre @ concat (map enc xs) @ suf) (length pre)
      = Inr (xs, length pre + length (concat (map enc xs)))"
    using many_dec_enc[of xs i pre suf] by blast
next
  fix off data xs nxt
  assume "off \<le> length data" and "decode_many idec i n data off = Inr (xs, nxt)"
  from many_dec_ok[OF this] show "(length xs = n \<and> (\<forall>x \<in> set xs. ok x)) \<and> off \<le> nxt
    \<and> nxt \<le> length data \<and> subslice data off nxt = concat (map enc xs)" by blast
qed (rule many_no_panic)

section \<open>Decoders of a whole buffer\<close>

locale payload_codec =
  fixes encode :: "'a \<Rightarrow> bytes"
    and decode :: "bytes \<Rightarrow> error + 'a"
    and ok :: "'a \<Rightarrow> bool"
  assumes decode_encode: "ok x \<Longrightarrow> decode (encode x) = Inr x"
    and decode_ok: "decode data = Inr x \<Longrightarrow> ok x \<and> encode x = data"
    and payload_no_panic: "decode data \<noteq> Inl PanicSliceBounds"
begin

lemma encode_inj: "ok x \<Longrightarrow> ok y \<Longrightarrow> encode x = encode y \<Longrightarrow> x = y"
  using decode_encode by (metis sum.inject(2))

lemma decode_inj: "decode a = Inr x \<Longrightarrow> decode b = Inr x \<Longrightarrow> a = b"
  using decode_ok by blast

lemma decode_success_iff: "(\<exists>x. decode data = Inr x) \<longleftrightarrow> (\<exists>x. ok x \<and> data = encode x)"
  using decode_encode decode_ok by blast

lemma decode_Inr_iff: "decode data = Inr x \<longleftrightarrow> ok x \<and> data = encode x"
  using decode_encode decode_ok by blast

end

text \<open>
  Reading a whole buffer with an offset decoder and rejecting trailing bytes turns a codec into a
  payload codec; \<open>DecodeValue\<close>, \<open>DecodeTransfer\<close> and \<open>DecodeTXPayload\<close> have this shape.
\<close>

definition whole ::
  "(bytes \<Rightarrow> nat \<Rightarrow> error + ('a \<times> nat)) \<Rightarrow> (nat \<Rightarrow> nat \<Rightarrow> error) \<Rightarrow> bytes \<Rightarrow> error + 'a" where
  "whole dec trailing data =
     bindE (dec data 0) (\<lambda>(x, offset).
       if offset \<noteq> length data then Inl (trailing (length data) offset) else Inr x)"

locale whole_codec = codec enc dec ok
  for enc :: "'a \<Rightarrow> bytes" and dec :: "bytes \<Rightarrow> nat \<Rightarrow> error + ('a \<times> nat)" and ok :: "'a \<Rightarrow> bool" +
  fixes trailing :: "nat \<Rightarrow> nat \<Rightarrow> error"
  assumes trailing_no_panic: "trailing n m \<noteq> PanicSliceBounds"

sublocale whole_codec \<subseteq> payload_codec enc "whole dec trailing" ok
proof unfold_locales
  fix x
  assume "ok x"
  then show "whole dec trailing (enc x) = Inr x"
    using dec_enc[of x "[]" "[]"] by (simp add: whole_def)
next
  fix data x
  assume "whole dec trailing data = Inr x"
  then have "dec data 0 = Inr (x, length data)"
    by (auto simp: whole_def bindE_Inr_iff split: if_splits)
  then show "ok x \<and> enc x = data"
    using dec_ok[of 0 data x "length data"] by (simp add: subslice_full)
next
  fix data
  show "whole dec trailing data \<noteq> Inl PanicSliceBounds"
    using no_panic[of 0 data] trailing_no_panic
    by (auto simp: whole_def bindE_Inl_iff split: if_splits)
qed

end
