(* ===== verification/Crypto.thy ===== *)
theory Crypto
  imports Codec
begin

text \<open>
  The package \<open>crypto\<close>: values and transfers, their canonical binary encoding
  (\<open>encode.go\<close>, \<open>decode.go\<close>), content-based identifiers (\<open>id.go\<close>) and signatures over the canonical
  bytes (\<open>sign.go\<close>). The hash function of identifiers (BLAKE3) and Ed25519 are library code; they enter as the record
  \<open>prims\<close>, about which no definition assumes anything.
\<close>

section \<open>Data and cryptographic primitives\<close>

record prims =
  Sum256 :: "bytes \<Rightarrow> hash"
  ed25519_Sign :: "bytes \<Rightarrow> bytes \<Rightarrow> bytes"
  ed25519_Verify :: "bytes \<Rightarrow> bytes \<Rightarrow> bytes \<Rightarrow> bool"

record web4_value =
  vID :: hash
  Amount :: uint64
  Unit :: string
  Owner :: bytes
  Expiry :: int64
  Depth :: int64

record transfer =
  tID :: hash
  Inputs :: "hash list"
  Outputs :: "web4_value list"
  Sig :: bytes
  Timestamp :: int64

text \<open>The zero hash \<open>Hash{}\<close>.\<close>

definition zero_hash :: hash where
  "zero_hash = replicate 32 0"

section \<open>Encoding (encode.go)\<close>

definition appendUint32 :: "bytes \<Rightarrow> uint32 \<Rightarrow> bytes" where
  "appendUint32 dst v = dst @ put_u32 v"

definition appendUint64 :: "bytes \<Rightarrow> uint64 \<Rightarrow> bytes" where
  "appendUint64 dst v = dst @ put_u64 v"

definition appendInt64 :: "bytes \<Rightarrow> int64 \<Rightarrow> bytes" where
  "appendInt64 dst v = dst @ put_u64 v"

text \<open>\<open>uint32(len(value))\<close> wraps for a slice of 4 GiB or more.\<close>

definition appendBytes :: "bytes \<Rightarrow> bytes \<Rightarrow> bytes" where
  "appendBytes dst v = appendUint32 dst (of_nat (length v)) @ v"

definition appendValueEncoding :: "bytes \<Rightarrow> web4_value \<Rightarrow> bytes" where
  "appendValueEncoding dst v =
     (let dst = appendUint64 dst (Amount v);
          dst = appendBytes dst (string_bytes (Unit v));
          dst = appendBytes dst (Owner v);
          dst = appendInt64 dst (Expiry v)
      in appendInt64 dst (Depth v))"

fun appendInputs :: "bytes \<Rightarrow> hash list \<Rightarrow> bytes" where
  "appendInputs dst [] = dst"
| "appendInputs dst (h # hs) = appendInputs (dst @ h) hs"

fun appendOutputs :: "bytes \<Rightarrow> web4_value list \<Rightarrow> bytes" where
  "appendOutputs dst [] = dst"
| "appendOutputs dst (v # vs) = appendOutputs (appendValueEncoding dst v) vs"

definition appendTransferEncoding :: "bytes \<Rightarrow> transfer \<Rightarrow> bytes" where
  "appendTransferEncoding dst t =
     (let dst = appendUint32 dst (of_nat (length (Inputs t)));
          dst = appendInputs dst (Inputs t);
          dst = appendUint32 dst (of_nat (length (Outputs t)))
      in appendOutputs dst (Outputs t))"

text \<open>\<open>buf\<close> starts with length 0 and the capacity below.\<close>

definition EncodeValue :: "web4_value \<Rightarrow> bytes" where
  "EncodeValue v = appendValueEncoding [] v"

definition EncodeTransfer :: "transfer \<Rightarrow> bytes" where
  "EncodeTransfer t = appendTransferEncoding [] t"

definition encodedValueLen :: "web4_value \<Rightarrow> nat" where
  "encodedValueLen v = 8 + 4 + length (Unit v) + 4 + length (Owner v) + 8 + 8"

fun encodedOutputsLen :: "nat \<Rightarrow> web4_value list \<Rightarrow> nat" where
  "encodedOutputsLen len [] = len"
| "encodedOutputsLen len (v # vs) = encodedOutputsLen (len + encodedValueLen v) vs"

definition encodedTransferLen :: "transfer \<Rightarrow> nat" where
  "encodedTransferLen t = encodedOutputsLen (4 + length (Inputs t) * 32 + 4) (Outputs t)"

section \<open>Identifiers and signatures (id.go, sign.go)\<close>

definition ComputeValueID :: "prims \<Rightarrow> web4_value \<Rightarrow> hash" where
  "ComputeValueID P v = Sum256 P (EncodeValue v)"

definition ComputeTransferID :: "prims \<Rightarrow> transfer \<Rightarrow> hash" where
  "ComputeTransferID P t = Sum256 P (EncodeTransfer t)"

definition SignTransfer :: "prims \<Rightarrow> bytes \<Rightarrow> bytes \<Rightarrow> bytes" where
  "SignTransfer P priv msg = ed25519_Sign P priv msg"

definition VerifyTransfer :: "prims \<Rightarrow> bytes \<Rightarrow> bytes \<Rightarrow> bytes \<Rightarrow> bool" where
  "VerifyTransfer P pub msg sig = ed25519_Verify P pub msg sig"

definition SignCanonicalTransfer :: "prims \<Rightarrow> bytes \<Rightarrow> transfer \<Rightarrow> bytes" where
  "SignCanonicalTransfer P priv t = ed25519_Sign P priv (EncodeTransfer t)"

definition VerifyCanonicalTransfer :: "prims \<Rightarrow> bytes \<Rightarrow> transfer \<Rightarrow> bytes \<Rightarrow> bool" where
  "VerifyCanonicalTransfer P pub t sig = ed25519_Verify P pub (EncodeTransfer t) sig"

section \<open>Decoding (decode.go)\<close>

definition decodeUint32At :: "bytes \<Rightarrow> nat \<Rightarrow> error + (uint32 \<times> nat)" where
  "decodeUint32At data offset =
     bindE (avail data offset) (\<lambda>n.
       if n < 4 then Inl (ShortUint32 offset)
       else Inr (get_u32 (subslice data offset (offset + 4)), offset + 4))"

definition decodeUint64At :: "bytes \<Rightarrow> nat \<Rightarrow> error + (uint64 \<times> nat)" where
  "decodeUint64At data offset =
     bindE (avail data offset) (\<lambda>n.
       if n < 8 then Inl (ShortUint64 offset)
       else Inr (get_u64 (subslice data offset (offset + 8)), offset + 8))"

definition decodeBytesAt :: "bytes \<Rightarrow> nat \<Rightarrow> error + (bytes \<times> nat)" where
  "decodeBytesAt data offset =
     bindE (decodeUint32At data offset) (\<lambda>(len, offset).
     bindE (avail data offset) (\<lambda>n.
       if n < unat len then Inl (ShortByteSlice (unat len) n)
       else Inr (subslice data offset (offset + unat len), offset + unat len)))"

text \<open>\<open>maxInt = int64(^uint(0) >> 1)\<close>: the range check never fails where \<open>int\<close> has 64 bits.\<close>

definition maxInt :: int where
  "maxInt = sint (drop_bit 1 (NOT 0 :: uint64))"

definition decodeValue :: "prims \<Rightarrow> bytes \<Rightarrow> nat \<Rightarrow> error + (web4_value \<times> nat)" where
  "decodeValue P data offset =
     bindE (decodeUint64At data offset) (\<lambda>(amount, offset).
     bindE (decodeBytesAt data offset) (\<lambda>(unit, offset).
     bindE (decodeBytesAt data offset) (\<lambda>(owner, offset).
     bindE (decodeUint64At data offset) (\<lambda>(expiryBits, offset).
     bindE (decodeUint64At data offset) (\<lambda>(depth, offset).
       if sint depth > maxInt \<or> sint depth < - maxInt - 1
       then Inl (ValueDepthOutOfRange (sint depth))
       else
         let v = \<lparr>vID = zero_hash, Amount = amount, Unit = bytes_string unit, Owner = owner,
                  Expiry = expiryBits, Depth = depth\<rparr>
         in Inr (v\<lparr>vID := ComputeValueID P v\<rparr>, offset))))))"

definition decodeInputAt :: "nat \<Rightarrow> bytes \<Rightarrow> nat \<Rightarrow> error + (hash \<times> nat)" where
  "decodeInputAt i data offset =
     bindE (avail data offset) (\<lambda>n.
       if n < 32 then Inl (ShortInputHash i)
       else Inr (subslice data offset (offset + 32), offset + 32))"

definition decodeTransfer :: "prims \<Rightarrow> bytes \<Rightarrow> nat \<Rightarrow> error + (transfer \<times> nat)" where
  "decodeTransfer P data offset =
     bindE (decodeUint32At data offset) (\<lambda>(inputCount, offset).
     bindE (decode_many decodeInputAt 0 (unat inputCount) data offset) (\<lambda>(inputs, offset).
     bindE (decodeUint32At data offset) (\<lambda>(outputCount, offset).
     bindE (decode_many (\<lambda>i. decodeValue P) 0 (unat outputCount) data offset) (\<lambda>(outputs, offset).
       Inr (\<lparr>tID = zero_hash, Inputs = inputs, Outputs = outputs, Sig = [], Timestamp = 0\<rparr>,
            offset)))))"

definition DecodeValue :: "prims \<Rightarrow> bytes \<Rightarrow> error + web4_value" where
  "DecodeValue P data =
     bindE (decodeValue P data 0) (\<lambda>(v, offset).
       if offset \<noteq> length data then Inl (TrailingValueBytes (length data - offset))
       else Inr (v\<lparr>vID := ComputeValueID P v\<rparr>))"

definition DecodeTransfer :: "prims \<Rightarrow> bytes \<Rightarrow> error + transfer" where
  "DecodeTransfer P data =
     bindE (decodeTransfer P data 0) (\<lambda>(t, offset).
       if offset \<noteq> length data then Inl (TrailingTransferBytes (length data - offset))
       else Inr (t\<lparr>tID := ComputeTransferID P t\<rparr>))"

section \<open>Shape of the encodings\<close>

lemma appendBytes_eq: "appendBytes dst v = dst @ put_u32 (of_nat (length v)) @ v"
  by (simp add: appendBytes_def appendUint32_def)

lemma EncodeValue_eq:
  "EncodeValue v = put_u64 (Amount v)
     @ (put_u32 (of_nat (length (Unit v))) @ string_bytes (Unit v))
     @ (put_u32 (of_nat (length (Owner v))) @ Owner v)
     @ put_u64 (Expiry v) @ put_u64 (Depth v)"
  by (simp add: EncodeValue_def appendValueEncoding_def appendBytes_eq appendUint64_def
      appendInt64_def Let_def)

lemma appendValueEncoding_eq: "appendValueEncoding dst v = dst @ EncodeValue v"
  by (simp add: EncodeValue_eq appendValueEncoding_def appendBytes_eq appendUint64_def
      appendInt64_def Let_def)

lemma appendInputs_eq: "appendInputs dst hs = dst @ concat hs"
  by (induction hs arbitrary: dst) simp_all

lemma appendOutputs_eq: "appendOutputs dst vs = dst @ concat (map EncodeValue vs)"
  by (induction vs arbitrary: dst) (simp_all add: appendValueEncoding_eq)

lemma EncodeTransfer_eq:
  "EncodeTransfer t = put_u32 (of_nat (length (Inputs t))) @ concat (Inputs t)
     @ put_u32 (of_nat (length (Outputs t))) @ concat (map EncodeValue (Outputs t))"
  by (simp add: EncodeTransfer_def appendTransferEncoding_def appendUint32_def Let_def
      appendInputs_eq appendOutputs_eq)

lemma length_EncodeValue: "length (EncodeValue v) = encodedValueLen v"
  by (simp add: EncodeValue_eq encodedValueLen_def)

text \<open>Identity excludes the ID, the signature and the timestamp: none of them is encoded.\<close>

lemma EncodeValue_vID [simp]: "EncodeValue (v\<lparr>vID := h\<rparr>) = EncodeValue v"
  by (simp add: EncodeValue_eq)

lemma ComputeValueID_vID [simp]: "ComputeValueID P (v\<lparr>vID := h\<rparr>) = ComputeValueID P v"
  by (simp add: ComputeValueID_def)

lemma EncodeTransfer_meta [simp]:
  shows "EncodeTransfer (t\<lparr>tID := h\<rparr>) = EncodeTransfer t"
    and "EncodeTransfer (t\<lparr>Sig := s\<rparr>) = EncodeTransfer t"
    and "EncodeTransfer (t\<lparr>Timestamp := ts\<rparr>) = EncodeTransfer t"
  by (simp_all add: EncodeTransfer_eq)

lemma ComputeTransferID_meta [simp]:
  shows "ComputeTransferID P (t\<lparr>tID := h\<rparr>) = ComputeTransferID P t"
    and "ComputeTransferID P (t\<lparr>Sig := s\<rparr>) = ComputeTransferID P t"
    and "ComputeTransferID P (t\<lparr>Timestamp := ts\<rparr>) = ComputeTransferID P t"
  by (simp_all add: ComputeTransferID_def)

section \<open>The decoders invert the encoders\<close>

text \<open>What an encoder's length prefixes can express, and what a decoded value carries.\<close>

definition value_ok :: "prims \<Rightarrow> web4_value \<Rightarrow> bool" where
  "value_ok P v \<longleftrightarrow> length (Unit v) < 2 ^ 32 \<and> length (Owner v) < 2 ^ 32 \<and> vID v = ComputeValueID P v"

definition content_ok :: "prims \<Rightarrow> transfer \<Rightarrow> bool" where
  "content_ok P t \<longleftrightarrow> length (Inputs t) < 2 ^ 32 \<and> length (Outputs t) < 2 ^ 32
     \<and> (\<forall>h \<in> set (Inputs t). length h = 32) \<and> (\<forall>v \<in> set (Outputs t). value_ok P v)"

definition transfer_ok :: "prims \<Rightarrow> transfer \<Rightarrow> bool" where
  "transfer_ok P t \<longleftrightarrow> content_ok P t \<and> tID t = ComputeTransferID P t \<and> Sig t = [] \<and> Timestamp t = 0"

definition bare_ok :: "prims \<Rightarrow> transfer \<Rightarrow> bool" where
  "bare_ok P t \<longleftrightarrow> content_ok P t \<and> tID t = zero_hash \<and> Sig t = [] \<and> Timestamp t = 0"

lemma unat_of_nat_u32: "n < 2 ^ 32 \<Longrightarrow> unat (of_nat n :: uint32) = n"
  by (simp add: unat_of_nat take_bit_eq_mod)

interpretation u32: codec put_u32 decodeUint32At "\<lambda>_. True"
proof unfold_locales
  fix x :: uint32 and pre suf
  show "decodeUint32At (pre @ put_u32 x @ suf) (length pre) = Inr (x, length pre + length (put_u32 x))"
    using subslice_append[of pre "put_u32 x" suf] by (simp add: decodeUint32At_def)
next
  fix off data nxt and x :: uint32
  assume "off \<le> length data" and "decodeUint32At data off = Inr (x, nxt)"
  then show "True \<and> off \<le> nxt \<and> nxt \<le> length data \<and> subslice data off nxt = put_u32 x"
    by (auto simp: decodeUint32At_def put_get_u32 length_subslice split: if_splits)
qed (auto simp: decodeUint32At_def)

interpretation u64: codec put_u64 decodeUint64At "\<lambda>_. True"
proof unfold_locales
  fix x :: uint64 and pre suf
  show "decodeUint64At (pre @ put_u64 x @ suf) (length pre) = Inr (x, length pre + length (put_u64 x))"
    using subslice_append[of pre "put_u64 x" suf] by (simp add: decodeUint64At_def)
next
  fix off data nxt and x :: uint64
  assume "off \<le> length data" and "decodeUint64At data off = Inr (x, nxt)"
  then show "True \<and> off \<le> nxt \<and> nxt \<le> length data \<and> subslice data off nxt = put_u64 x"
    by (auto simp: decodeUint64At_def put_get_u64 length_subslice split: if_splits)
qed (auto simp: decodeUint64At_def)

interpretation input: indexed_codec "\<lambda>h. h" decodeInputAt "\<lambda>h. length h = 32"
proof (unfold_locales, goal_cases)
  case (1 i h pre suf)
  then show ?case using subslice_append[of pre h suf] by (simp add: decodeInputAt_def)
next
  case (2 i off data h nxt)
  then show ?case
    by (auto simp: decodeInputAt_def length_subslice split: if_splits)
next
  case (3 i off data)
  then show ?case by (auto simp: decodeInputAt_def)
qed

abbreviation enc_bytes :: "bytes \<Rightarrow> bytes" where
  "enc_bytes b \<equiv> put_u32 (of_nat (length b)) @ b"

interpretation lp: codec enc_bytes decodeBytesAt "\<lambda>b. length b < 2 ^ 32"
proof unfold_locales
  fix b pre suf :: bytes
  assume b: "length b < 2 ^ 32"
  have "decodeUint32At (pre @ enc_bytes b @ suf) (length pre) = Inr (of_nat (length b), length pre + 4)"
    using u32.dec_enc[where x = "of_nat (length b)" and pre = pre and suf = "b @ suf"] by simp
  moreover have "subslice (pre @ enc_bytes b @ suf) (length pre + 4) (length pre + 4 + length b) = b"
    using subslice_append[of "pre @ put_u32 (of_nat (length b))" b suf] by simp
  ultimately show "decodeBytesAt (pre @ enc_bytes b @ suf) (length pre)
      = Inr (b, length pre + length (enc_bytes b))"
    using b by (simp add: decodeBytesAt_def unat_of_nat_u32)
next
  fix off data nxt and b :: bytes
  assume off: "off \<le> length data" and dec: "decodeBytesAt data off = Inr (b, nxt)"
  from dec obtain len mid where len: "decodeUint32At data off = Inr (len, mid)"
    and rest: "bindE (avail data mid) (\<lambda>n. if n < unat len then Inl (ShortByteSlice (unat len) n)
       else Inr (subslice data mid (mid + unat len), mid + unat len)) = Inr (b, nxt)"
    unfolding decodeBytesAt_def by (rule bindE_pairE)
  note h = u32.dec_ok[OF off len]
  then have le: "mid \<le> length data" by simp
  with rest have b: "b = subslice data mid (mid + unat len)" and nxt: "nxt = mid + unat len"
    and le2: "unat len \<le> length data - mid"
    by (auto split: if_splits)
  have "length b = unat len" using le le2 by (simp add: b length_subslice)
  moreover have "unat len < 2 ^ 32" using unsigned_less[of len] by simp
  moreover have "subslice data off nxt = subslice data off mid @ subslice data mid nxt"
    using h by (intro subslice_join [symmetric]) (simp_all add: nxt)
  ultimately show "length b < 2 ^ 32 \<and> off \<le> nxt \<and> nxt \<le> length data \<and> subslice data off nxt = enc_bytes b"
    using h le le2 by (simp add: b nxt)
next
  fix off and data :: bytes
  assume "off \<le> length data"
  then show "decodeBytesAt data off \<noteq> Inl PanicSliceBounds"
    using u32.no_panic[of off data] u32.dec_bounds[of off data]
    by (auto simp: decodeBytesAt_def bindE_Inl_iff split: if_splits)
qed

section \<open>Values and transfers\<close>

lemma sint_bounds: "- (2 ^ 63) \<le> sint (w :: int64)" "sint (w :: int64) < 2 ^ 63"
  using sint_ge[of w] sint_lt[of w] by simp_all

text \<open>The depth check of \<open>decodeValue\<close> never fails on a 64-bit platform.\<close>

lemma maxInt_eq: "maxInt = 2 ^ 63 - 1"
  by (simp add: maxInt_def sint_uint mask_eq_exp_minus_1)

lemma depth_in_range: "\<not> (sint (w :: int64) > maxInt \<or> sint w < - maxInt - 1)"
  using sint_bounds[of w] by (simp add: maxInt_eq)

lemma decodeValue_eq:
  "decodeValue P data offset =
     bindE (decodeUint64At data offset) (\<lambda>(amount, offset).
     bindE (decodeBytesAt data offset) (\<lambda>(unit, offset).
     bindE (decodeBytesAt data offset) (\<lambda>(owner, offset).
     bindE (decodeUint64At data offset) (\<lambda>(expiryBits, offset).
     bindE (decodeUint64At data offset) (\<lambda>(depth, offset).
       let v = \<lparr>vID = zero_hash, Amount = amount, Unit = bytes_string unit, Owner = owner,
                Expiry = expiryBits, Depth = depth\<rparr>
       in Inr (v\<lparr>vID := ComputeValueID P v\<rparr>, offset))))))"
  by (simp only: decodeValue_def depth_in_range if_False)

lemma value_dec_enc:
  assumes "value_ok P v"
  shows "decodeValue P (pre @ EncodeValue v @ suf) (length pre) = Inr (v, length pre + length (EncodeValue v))"
proof -
  let ?a = "put_u64 (Amount v)" and ?u = "enc_bytes (string_bytes (Unit v))"
  let ?o = "enc_bytes (Owner v)" and ?e = "put_u64 (Expiry v)" and ?d = "put_u64 (Depth v)"
  let ?data = "pre @ EncodeValue v @ suf"
  have data: "?data = pre @ ?a @ ?u @ ?o @ ?e @ ?d @ suf" by (simp add: EncodeValue_eq)
  have len: "length (string_bytes (Unit v)) < 2 ^ 32" "length (Owner v) < 2 ^ 32"
    using assms by (simp_all add: value_ok_def)
  have 1: "decodeUint64At ?data (length pre) = Inr (Amount v, length (pre @ ?a))"
    unfolding data by (subst u64.dec_enc) simp_all
  have 2: "decodeBytesAt ?data (length (pre @ ?a)) = Inr (string_bytes (Unit v), length (pre @ ?a @ ?u))"
    using lp.dec_enc[OF len(1), of "pre @ ?a" "?o @ ?e @ ?d @ suf"] unfolding data by simp
  have 3: "decodeBytesAt ?data (length (pre @ ?a @ ?u)) = Inr (Owner v, length (pre @ ?a @ ?u @ ?o))"
    using lp.dec_enc[OF len(2), of "pre @ ?a @ ?u" "?e @ ?d @ suf"] unfolding data by simp
  have 4: "decodeUint64At ?data (length (pre @ ?a @ ?u @ ?o))
      = Inr (Expiry v, length (pre @ ?a @ ?u @ ?o @ ?e))"
    using u64.dec_enc[where x = "Expiry v" and pre = "pre @ ?a @ ?u @ ?o" and suf = "?d @ suf"]
    unfolding data by simp
  have 5: "decodeUint64At ?data (length (pre @ ?a @ ?u @ ?o @ ?e))
      = Inr (Depth v, length (pre @ EncodeValue v))"
    using u64.dec_enc[where x = "Depth v" and pre = "pre @ ?a @ ?u @ ?o @ ?e" and suf = suf]
    unfolding data by (simp add: EncodeValue_eq)
  have "vID v = ComputeValueID P (v\<lparr>vID := zero_hash\<rparr>)"
    using assms by (simp add: value_ok_def)
  then have "\<lparr>vID = zero_hash, Amount = Amount v, Unit = bytes_string (string_bytes (Unit v)),
      Owner = Owner v, Expiry = Expiry v, Depth = Depth v\<rparr>\<lparr>vID := ComputeValueID P
        \<lparr>vID = zero_hash, Amount = Amount v, Unit = bytes_string (string_bytes (Unit v)),
          Owner = Owner v, Expiry = Expiry v, Depth = Depth v\<rparr>\<rparr> = v"
    by (cases v) simp
  then show ?thesis
    unfolding decodeValue_eq by (simp only: 1 2 3 4 5 bindE.simps prod.case Let_def) simp
qed

lemma value_dec_ok:
  assumes "off \<le> length data" and "decodeValue P data off = Inr (v, nxt)"
  shows "value_ok P v \<and> off \<le> nxt \<and> nxt \<le> length data \<and> subslice data off nxt = EncodeValue v"
proof -
  from assms(2) obtain a o1 u o2 w o3 e o4 d where
    a: "decodeUint64At data off = Inr (a, o1)" and u: "decodeBytesAt data o1 = Inr (u, o2)"
    and w: "decodeBytesAt data o2 = Inr (w, o3)" and e: "decodeUint64At data o3 = Inr (e, o4)"
    and d: "decodeUint64At data o4 = Inr (d, nxt)"
    and v: "v = (let v = \<lparr>vID = zero_hash, Amount = a, Unit = bytes_string u, Owner = w,
      Expiry = e, Depth = d\<rparr> in v\<lparr>vID := ComputeValueID P v\<rparr>)"
    unfolding decodeValue_eq Let_def by (elim bindE_pairE) simp
  note ha = u64.dec_ok[OF assms(1) a]
  then have l1: "o1 \<le> length data" by simp
  note hu = lp.dec_ok[OF l1 u]
  then have l2: "o2 \<le> length data" by simp
  note hw = lp.dec_ok[OF l2 w]
  then have l3: "o3 \<le> length data" by simp
  note he = u64.dec_ok[OF l3 e]
  then have l4: "o4 \<le> length data" by simp
  note hd = u64.dec_ok[OF l4 d]
  have "off \<le> o1" "o1 \<le> o2" "o2 \<le> o3" "o3 \<le> o4" "o4 \<le> nxt"
    using ha hu hw he hd by simp_all
  then have join: "subslice data off o1 @ subslice data o1 o2 @ subslice data o2 o3
      @ subslice data o3 o4 @ subslice data o4 nxt = subslice data off nxt"
    by (simp add: subslice_join)
  have "EncodeValue v = subslice data off o1 @ subslice data o1 o2 @ subslice data o2 o3
      @ subslice data o3 o4 @ subslice data o4 nxt"
    using ha hu hw he hd by (simp add: v Let_def EncodeValue_eq)
  also note join
  finally have "subslice data off nxt = EncodeValue v" by simp
  moreover have "length (Unit v) < 2 ^ 32" and "length (Owner v) < 2 ^ 32"
    using hu hw by (simp_all add: v Let_def)
  moreover have "vID v = ComputeValueID P v"
  proof -
    obtain w where "v = w\<lparr>vID := ComputeValueID P w\<rparr>" using v unfolding Let_def by blast
    then show ?thesis by simp
  qed
  ultimately show ?thesis using ha hu hw he hd by (simp add: value_ok_def)
qed

lemma value_no_panic:
  assumes "off \<le> length data"
  shows "decodeValue P data off \<noteq> Inl PanicSliceBounds"
  unfolding decodeValue_eq Let_def
  by (intro u64.then_no_panic lp.then_no_panic assms) simp_all

interpretation val: codec EncodeValue "decodeValue P" "value_ok P" for P
  using value_dec_enc value_dec_ok value_no_panic by unfold_locales blast+

interpretation vals: indexed_codec EncodeValue "\<lambda>i. decodeValue P" "value_ok P" for P
  by unfold_locales

abbreviation enc_inputs :: "hash list \<Rightarrow> bytes" where
  "enc_inputs hs \<equiv> concat (map (\<lambda>h. h) hs)"

abbreviation enc_outputs :: "web4_value list \<Rightarrow> bytes" where
  "enc_outputs vs \<equiv> concat (map EncodeValue vs)"

lemma transfer_dec_enc:
  assumes "bare_ok P t"
  shows "decodeTransfer P (pre @ EncodeTransfer t @ suf) (length pre)
      = Inr (t, length pre + length (EncodeTransfer t))"
proof -
  let ?n = "put_u32 (of_nat (length (Inputs t)))" and ?i = "enc_inputs (Inputs t)"
  let ?m = "put_u32 (of_nat (length (Outputs t)))" and ?o = "enc_outputs (Outputs t)"
  let ?data = "pre @ EncodeTransfer t @ suf"
  have data: "?data = pre @ ?n @ ?i @ ?m @ ?o @ suf" by (simp add: EncodeTransfer_eq)
  have c: "content_ok P t" using assms by (simp add: bare_ok_def)
  then have len: "unat (of_nat (length (Inputs t)) :: uint32) = length (Inputs t)"
    "unat (of_nat (length (Outputs t)) :: uint32) = length (Outputs t)"
    by (simp_all only: content_ok_def unat_of_nat_u32)
  have 1: "decodeUint32At ?data (length pre) = Inr (of_nat (length (Inputs t)), length (pre @ ?n))"
    unfolding data by (subst u32.dec_enc) simp_all
  have 2: "decode_many decodeInputAt 0 (length (Inputs t)) ?data (length (pre @ ?n))
      = Inr (Inputs t, length (pre @ ?n @ ?i))"
    using input.many_dec_enc[of "Inputs t" 0 "pre @ ?n" "?m @ ?o @ suf"] c
    unfolding data content_ok_def by simp
  have 3: "decodeUint32At ?data (length (pre @ ?n @ ?i))
      = Inr (of_nat (length (Outputs t)), length (pre @ ?n @ ?i @ ?m))"
    using u32.dec_enc[where x = "of_nat (length (Outputs t))" and pre = "pre @ ?n @ ?i" and suf = "?o @ suf"]
    unfolding data by simp
  have 4: "decode_many (\<lambda>i. decodeValue P) 0 (length (Outputs t)) ?data (length (pre @ ?n @ ?i @ ?m))
      = Inr (Outputs t, length (pre @ EncodeTransfer t))"
    using vals.many_dec_enc[of "Outputs t" P 0 "pre @ ?n @ ?i @ ?m" suf] c
    unfolding data content_ok_def by (simp add: EncodeTransfer_eq)
  have "\<lparr>tID = zero_hash, Inputs = Inputs t, Outputs = Outputs t, Sig = [], Timestamp = 0\<rparr> = t"
    using assms by (simp add: bare_ok_def)
  then show ?thesis
    unfolding decodeTransfer_def by (simp only: 1 2 3 4 len bindE.simps prod.case) simp
qed

lemma transfer_dec_ok:
  assumes "off \<le> length data" and "decodeTransfer P data off = Inr (t, nxt)"
  shows "bare_ok P t \<and> off \<le> nxt \<and> nxt \<le> length data \<and> subslice data off nxt = EncodeTransfer t"
proof -
  from assms(2) obtain n o1 hs o2 m o3 vs where
    n: "decodeUint32At data off = Inr (n, o1)"
    and hs: "decode_many decodeInputAt 0 (unat n) data o1 = Inr (hs, o2)"
    and m: "decodeUint32At data o2 = Inr (m, o3)"
    and vs: "decode_many (\<lambda>i. decodeValue P) 0 (unat m) data o3 = Inr (vs, nxt)"
    and t: "t = \<lparr>tID = zero_hash, Inputs = hs, Outputs = vs, Sig = [], Timestamp = 0\<rparr>"
    unfolding decodeTransfer_def by (elim bindE_pairE) simp
  note hn = u32.dec_ok[OF assms(1) n]
  then have l1: "o1 \<le> length data" by simp
  note hh = input.many.dec_ok[OF l1 hs]
  then have l2: "o2 \<le> length data" by simp
  note hm = u32.dec_ok[OF l2 m]
  then have l3: "o3 \<le> length data" by simp
  note hv = vals.many.dec_ok[OF l3 vs]
  have lens: "length hs = unat n" "length vs = unat m" using hh hv by simp_all
  have "off \<le> o1" "o1 \<le> o2" "o2 \<le> o3" "o3 \<le> nxt" using hn hh hm hv by simp_all
  then have join: "subslice data off o1 @ subslice data o1 o2 @ subslice data o2 o3
      @ subslice data o3 nxt = subslice data off nxt"
    by (simp add: subslice_join)
  have "EncodeTransfer t = subslice data off o1 @ subslice data o1 o2 @ subslice data o2 o3
      @ subslice data o3 nxt"
    using hn hh hm hv lens by (simp add: t EncodeTransfer_eq)
  also note join
  finally have "subslice data off nxt = EncodeTransfer t" by simp
  moreover have "content_ok P t"
    using hh hv lens unsigned_less[of n] unsigned_less[of m] by (simp add: content_ok_def t)
  ultimately show ?thesis using hn hh hm hv by (simp add: bare_ok_def t)
qed

lemma transfer_no_panic:
  assumes "off \<le> length data"
  shows "decodeTransfer P data off \<noteq> Inl PanicSliceBounds"
  unfolding decodeTransfer_def
  by (intro u32.then_no_panic input.many.then_no_panic vals.many.then_no_panic assms) simp_all

interpretation tr: whole_codec EncodeTransfer "decodeTransfer P" "bare_ok P"
  "\<lambda>n m. TrailingTransferBytes (n - m)" for P
  using transfer_dec_enc transfer_dec_ok transfer_no_panic by unfold_locales (blast | simp)+

interpretation whole_val: whole_codec EncodeValue "decodeValue P" "value_ok P"
  "\<lambda>n m. TrailingValueBytes (n - m)" for P
  by unfold_locales simp

section \<open>DecodeValue and DecodeTransfer\<close>

lemma DecodeValue_whole:
  "DecodeValue P data = whole (decodeValue P) (\<lambda>n m. TrailingValueBytes (n - m)) data"
proof (cases "decodeValue P data 0")
  case (Inr r)
  then obtain v nxt where r: "decodeValue P data 0 = Inr (v, nxt)" by (cases r) auto
  then have "v\<lparr>vID := ComputeValueID P v\<rparr> = v"
    using val.dec_ok[of 0 data P v nxt] by (simp add: value_ok_def)
  then show ?thesis by (simp add: DecodeValue_def whole_def r)
qed (simp add: DecodeValue_def whole_def)

lemma DecodeTransfer_whole:
  "DecodeTransfer P data =
     bindE (whole (decodeTransfer P) (\<lambda>n m. TrailingTransferBytes (n - m)) data)
       (\<lambda>t. Inr (t\<lparr>tID := ComputeTransferID P t\<rparr>))"
  by (cases "decodeTransfer P data 0") (auto simp: DecodeTransfer_def whole_def)

interpretation value_payload: payload_codec EncodeValue "DecodeValue P" "value_ok P" for P
  unfolding DecodeValue_whole [abs_def] by (rule whole_val.payload_codec_axioms)

interpretation transfer_payload: payload_codec EncodeTransfer "DecodeTransfer P" "transfer_ok P" for P
proof unfold_locales
  fix t
  assume t: "transfer_ok P t"
  let ?b = "t\<lparr>tID := zero_hash\<rparr>"
  have "bare_ok P ?b" using t by (simp add: transfer_ok_def bare_ok_def content_ok_def)
  then have "whole (decodeTransfer P) (\<lambda>n m. TrailingTransferBytes (n - m)) (EncodeTransfer t) = Inr ?b"
    using tr.decode_encode[of P ?b] by simp
  moreover have "?b\<lparr>tID := ComputeTransferID P ?b\<rparr> = t"
    using t by (simp add: transfer_ok_def)
  ultimately show "DecodeTransfer P (EncodeTransfer t) = Inr t"
    by (simp add: DecodeTransfer_whole)
next
  fix data t
  assume "DecodeTransfer P data = Inr t"
  then obtain b where b: "whole (decodeTransfer P) (\<lambda>n m. TrailingTransferBytes (n - m)) data = Inr b"
    and t: "t = b\<lparr>tID := ComputeTransferID P b\<rparr>"
    by (auto simp: DecodeTransfer_whole bindE_Inr_iff)
  from tr.decode_ok[OF b] show "transfer_ok P t \<and> EncodeTransfer t = data"
    by (simp add: t bare_ok_def transfer_ok_def content_ok_def)
next
  fix data
  show "DecodeTransfer P data \<noteq> Inl PanicSliceBounds"
    using tr.payload_no_panic by (auto simp: DecodeTransfer_whole bindE_Inl_iff)
qed

section \<open>The buffer capacities are exact\<close>

lemma encodedOutputsLen_eq: "encodedOutputsLen n vs = n + length (enc_outputs vs)"
  by (induction vs arbitrary: n) (simp_all add: length_EncodeValue)

lemma length_concat_32: "\<forall>h \<in> set hs. length h = 32 \<Longrightarrow> length (concat hs) = length hs * 32"
  by (induction hs) simp_all

lemma length_EncodeTransfer:
  "\<forall>h \<in> set (Inputs t). length h = 32 \<Longrightarrow> length (EncodeTransfer t) = encodedTransferLen t"
  by (simp add: EncodeTransfer_eq encodedTransferLen_def encodedOutputsLen_eq length_concat_32)

end
