(* ===== verification/Protocol_Message.thy ===== *)
theory Protocol_Message
  imports Crypto
begin

text \<open>
  The message layer of package \<open>protocol\<close>: the envelope (\<open>message.go\<close>), the payload of each message
  type (\<open>payload_*.go\<close>) and the constructors of messages. Every payload decoder is a
  \<open>payload_codec\<close>: it inverts its encoder and accepts nothing but the encoder's output.
\<close>

section \<open>Envelope and payload types\<close>

definition INV :: int64 where "INV = 0"
definition GET :: int64 where "GET = 1"
definition TX :: int64 where "TX = 2"
definition PROOF_REQ :: int64 where "PROOF_REQ = 3"
definition PROOF_RESP :: int64 where "PROOF_RESP = 4"
definition ACK :: int64 where "ACK = 5"
definition ERROR :: int64 where "ERROR = 6"

lemmas msg_types = INV_def GET_def TX_def PROOF_REQ_def PROOF_RESP_def ACK_def ERROR_def

record message =
  MessageID :: message_id
  mTimestamp :: int64
  TTL :: int64
  mType :: int64
  Payload :: bytes

record proof_response_payload =
  TargetID :: hash
  pSeen :: bool
  pSeenTime :: int64
  pConflict :: bool
  pDistance :: int64

record tx_payload =
  TransferBytes :: bytes
  Signature :: bytes

record error_payload =
  ReferencedMessageID :: message_id
  Code :: string

section \<open>Primitive fields\<close>

definition decodeUint32 :: "bytes \<Rightarrow> uint32" where
  "decodeUint32 p = push_bit 24 (ucast (p ! 0)) OR push_bit 16 (ucast (p ! 1))
     OR push_bit 8 (ucast (p ! 2)) OR ucast (p ! 3)"

definition decodeUint64 :: "bytes \<Rightarrow> uint64" where
  "decodeUint64 p = push_bit 56 (ucast (p ! 0)) OR push_bit 48 (ucast (p ! 1))
     OR push_bit 40 (ucast (p ! 2)) OR push_bit 32 (ucast (p ! 3))
     OR push_bit 24 (ucast (p ! 4)) OR push_bit 16 (ucast (p ! 5))
     OR push_bit 8 (ucast (p ! 6)) OR ucast (p ! 7)"

definition pAppendUint32 :: "bytes \<Rightarrow> uint32 \<Rightarrow> bytes" where
  "pAppendUint32 dst v = dst @ put_u32 v"

definition pAppendInt64 :: "bytes \<Rightarrow> int64 \<Rightarrow> bytes" where
  "pAppendInt64 dst v = dst @ put_u64 v"

definition pAppendBytes :: "bytes \<Rightarrow> bytes \<Rightarrow> bytes" where
  "pAppendBytes dst v = pAppendUint32 dst (of_nat (length v)) @ v"

definition appendBool :: "bytes \<Rightarrow> bool \<Rightarrow> bytes" where
  "appendBool dst v = (if v then dst @ [1] else dst @ [0])"

definition decodeBool :: "byte \<Rightarrow> error + bool" where
  "decodeBool v = (if v = 0 then Inr False else if v = 1 then Inr True else Inl (InvalidBoolean (unat v)))"

definition decodeLengthPrefixedBytes :: "bytes \<Rightarrow> nat \<Rightarrow> error + (bytes \<times> nat)" where
  "decodeLengthPrefixedBytes payload offset =
     bindE (avail payload offset) (\<lambda>n.
       if n < 4 then Inl (ShortLengthPrefix offset)
       else
         let len = unat (decodeUint32 (subslice payload offset (offset + 4))); offset = offset + 4
         in bindE (avail payload offset) (\<lambda>n.
              if n < len then Inl (ShortLengthPrefixedData offset)
              else Inr (subslice payload offset (offset + len), offset + len)))"

section \<open>Envelope (message.go)\<close>

definition EncodeMessage :: "message \<Rightarrow> bytes" where
  "EncodeMessage m =
     (let buf = MessageID m;
          buf = pAppendInt64 buf (mTimestamp m);
          buf = pAppendInt64 buf (TTL m);
          buf = pAppendUint32 buf (ucast (mType m))
      in pAppendBytes buf (Payload m))"

definition encodedMessageLen :: "message \<Rightarrow> nat" where
  "encodedMessageLen m = 16 + 8 + 8 + 4 + 4 + length (Payload m)"

definition DecodeMessage :: "bytes \<Rightarrow> error + message" where
  "DecodeMessage payload =
     (if length payload < 16 + 8 + 8 + 4 + 4 then Inl (InvalidMessageLength (length payload))
      else
        let mid = subslice payload 0 16;
            ts = get_u64 (subslice payload 16 24);
            ttl = get_u64 (subslice payload 24 32);
            typ = decodeUint32 (subslice payload 32 36)
        in if unat typ > unat (ucast ERROR :: uint32) then Inl (InvalidMessageType (unat typ))
           else bindE (decodeLengthPrefixedBytes payload 36) (\<lambda>(decodedPayload, offset).
             if offset \<noteq> length payload then Inl (InvalidMessageLength (length payload))
             else Inr \<lparr>MessageID = mid, mTimestamp = ts, TTL = ttl, mType = ucast typ,
                       Payload = decodedPayload\<rparr>))"

section \<open>Payloads\<close>

text \<open>
  INV, GET and PROOF_REQ carry a transfer ID, ACK a message ID: \<open>copy\<close> into a fresh buffer, and a
  length check on the way back. \<open>InvalidPayloadLength t n\<close> names the message type and the length.
\<close>

definition EncodeINVID :: "hash \<Rightarrow> bytes" where
  "EncodeINVID transferID = transferID"

definition DecodeINVID :: "bytes \<Rightarrow> error + hash" where
  "DecodeINVID payload =
     (if length payload \<noteq> 32 then Inl (InvalidPayloadLength 0 (length payload)) else Inr payload)"

definition EncodeGETID :: "hash \<Rightarrow> bytes" where
  "EncodeGETID transferID = transferID"

definition DecodeGETID :: "bytes \<Rightarrow> error + hash" where
  "DecodeGETID payload =
     (if length payload \<noteq> 32 then Inl (InvalidPayloadLength 1 (length payload)) else Inr payload)"

definition EncodeProofRequestPayload :: "hash \<Rightarrow> bytes" where
  "EncodeProofRequestPayload transferID = transferID"

definition DecodeProofRequestPayload :: "bytes \<Rightarrow> error + hash" where
  "DecodeProofRequestPayload payload =
     (if length payload \<noteq> 32 then Inl (InvalidPayloadLength 3 (length payload)) else Inr payload)"

definition EncodeACKPayload :: "message_id \<Rightarrow> bytes" where
  "EncodeACKPayload referencedMessageID = referencedMessageID"

definition DecodeACKPayload :: "bytes \<Rightarrow> error + message_id" where
  "DecodeACKPayload payload =
     (if length payload \<noteq> 16 then Inl (InvalidPayloadLength 5 (length payload)) else Inr payload)"

definition EncodeTXPayload :: "bytes \<Rightarrow> bytes \<Rightarrow> bytes" where
  "EncodeTXPayload transferBytes signature = pAppendBytes (pAppendBytes [] transferBytes) signature"

definition DecodeTXPayload :: "bytes \<Rightarrow> error + tx_payload" where
  "DecodeTXPayload payload =
     bindE (decodeLengthPrefixedBytes payload 0) (\<lambda>(transferBytes, offset).
     bindE (decodeLengthPrefixedBytes payload offset) (\<lambda>(signature, offset).
       if offset \<noteq> length payload then Inl (InvalidPayloadLength 2 (length payload))
       else Inr \<lparr>TransferBytes = transferBytes, Signature = signature\<rparr>))"

definition EncodeProofResponsePayload :: "proof_response_payload \<Rightarrow> bytes" where
  "EncodeProofResponsePayload p =
     (let buf = TargetID p;
          buf = appendBool buf (pSeen p);
          buf = pAppendInt64 buf (pSeenTime p);
          buf = appendBool buf (pConflict p)
      in pAppendInt64 buf (pDistance p))"

definition DecodeProofResponsePayload :: "bytes \<Rightarrow> error + proof_response_payload" where
  "DecodeProofResponsePayload payload =
     (if length payload \<noteq> 32 + 1 + 8 + 1 + 8 then Inl (InvalidPayloadLength 4 (length payload))
      else
        bindE (decodeBool (payload ! 32)) (\<lambda>seen.
        bindE (decodeBool (payload ! 41)) (\<lambda>conflict.
          let distance = decodeUint64 (subslice payload 42 50)
          in if sint (scast distance :: int64) \<noteq> sint distance then Inl (InvalidDistance (sint distance))
             else Inr \<lparr>TargetID = subslice payload 0 32, pSeen = seen,
                       pSeenTime = decodeUint64 (subslice payload 33 41), pConflict = conflict,
                       pDistance = scast distance\<rparr>)))"

definition EncodeErrorPayload :: "message_id \<Rightarrow> string \<Rightarrow> bytes" where
  "EncodeErrorPayload referencedMessageID code = pAppendBytes referencedMessageID (string_bytes code)"

definition DecodeErrorPayload :: "bytes \<Rightarrow> error + error_payload" where
  "DecodeErrorPayload payload =
     (if length payload < 20 then Inl (InvalidPayloadLength 6 (length payload))
      else
        let textLen = unat (decodeUint32 (subslice payload 16 20))
        in if length payload \<noteq> 20 + textLen then Inl (InvalidPayloadLength 6 (length payload))
           else Inr \<lparr>ReferencedMessageID = subslice payload 0 16, Code = bytes_string (drop 20 payload)\<rparr>)"

section \<open>Constructors\<close>

text \<open>\<open>GenerateMessageID\<close> is random; the identifier it returned is the first argument.\<close>

definition newMessage :: "message_id \<Rightarrow> int64 \<Rightarrow> int64 \<Rightarrow> int64 \<Rightarrow> bytes \<Rightarrow> message" where
  "newMessage mid ts ttl msgType payload =
     \<lparr>MessageID = mid, mTimestamp = ts, TTL = ttl, mType = msgType, Payload = payload\<rparr>"

definition NewINVMessage :: "message_id \<Rightarrow> int64 \<Rightarrow> int64 \<Rightarrow> hash \<Rightarrow> message" where
  "NewINVMessage mid ts ttl transferID = newMessage mid ts ttl INV (EncodeINVID transferID)"

definition NewGETMessage :: "message_id \<Rightarrow> int64 \<Rightarrow> int64 \<Rightarrow> hash \<Rightarrow> message" where
  "NewGETMessage mid ts ttl transferID = newMessage mid ts ttl GET (EncodeGETID transferID)"

definition NewTXMessage :: "message_id \<Rightarrow> int64 \<Rightarrow> int64 \<Rightarrow> transfer \<Rightarrow> message" where
  "NewTXMessage mid ts ttl t = newMessage mid ts ttl TX (EncodeTXPayload (EncodeTransfer t) (Sig t))"

definition NewProofRequestMessage :: "message_id \<Rightarrow> int64 \<Rightarrow> int64 \<Rightarrow> hash \<Rightarrow> message" where
  "NewProofRequestMessage mid ts ttl transferID =
     newMessage mid ts ttl PROOF_REQ (EncodeProofRequestPayload transferID)"

definition NewProofResponseMessage ::
  "message_id \<Rightarrow> int64 \<Rightarrow> int64 \<Rightarrow> proof_response_payload \<Rightarrow> message" where
  "NewProofResponseMessage mid ts ttl p =
     newMessage mid ts ttl PROOF_RESP (EncodeProofResponsePayload p)"

definition NewACKMessage :: "message_id \<Rightarrow> int64 \<Rightarrow> int64 \<Rightarrow> message_id \<Rightarrow> message" where
  "NewACKMessage mid ts ttl ref = newMessage mid ts ttl ACK (EncodeACKPayload ref)"

definition NewErrorMessage :: "message_id \<Rightarrow> int64 \<Rightarrow> int64 \<Rightarrow> message_id \<Rightarrow> string \<Rightarrow> message" where
  "NewErrorMessage mid ts ttl ref code = newMessage mid ts ttl ERROR (EncodeErrorPayload ref code)"

lemmas new_message_defs = newMessage_def NewINVMessage_def NewGETMessage_def NewTXMessage_def
  NewProofRequestMessage_def NewProofResponseMessage_def NewACKMessage_def NewErrorMessage_def

section \<open>Codec laws\<close>

lemma decodeUint32_get [simp]: "decodeUint32 = get_u32"
  by (simp add: fun_eq_iff decodeUint32_def get_u32_def)

lemma decodeUint64_get [simp]: "decodeUint64 = get_u64"
  by (simp add: fun_eq_iff decodeUint64_def get_u64_def)

lemma pAppendBytes_eq: "pAppendBytes dst v = dst @ enc_bytes v"
  by (simp add: pAppendBytes_def pAppendUint32_def)

text \<open>
  \<open>decodeLengthPrefixedBytes\<close> is \<open>crypto\<close>'s \<open>decodeBytesAt\<close> but for its error values: where one
  succeeds the other returns the same.
\<close>

definition same_success :: "error + 'a \<Rightarrow> error + 'a \<Rightarrow> bool" where
  "same_success r s \<longleftrightarrow> (\<forall>x. r = Inr x \<longleftrightarrow> s = Inr x) \<and> (r = Inl PanicSliceBounds \<longleftrightarrow> s = Inl PanicSliceBounds)"

lemma length_prefixed_same:
  "same_success (decodeLengthPrefixedBytes data off) (decodeBytesAt data off)"
  by (auto simp: same_success_def decodeLengthPrefixedBytes_def decodeBytesAt_def
      decodeUint32At_def avail_def Let_def)

interpretation plp: codec enc_bytes decodeLengthPrefixedBytes "\<lambda>b. length b < 2 ^ 32"
  using lp.dec_enc lp.dec_ok lp.no_panic length_prefixed_same
  unfolding same_success_def by unfold_locales blast+

interpretation inv_payload: payload_codec EncodeINVID DecodeINVID "\<lambda>h. length h = 32"
  by unfold_locales (auto simp: EncodeINVID_def DecodeINVID_def split: if_splits)

interpretation get_payload: payload_codec EncodeGETID DecodeGETID "\<lambda>h. length h = 32"
  by unfold_locales (auto simp: EncodeGETID_def DecodeGETID_def split: if_splits)

interpretation proof_req_payload:
  payload_codec EncodeProofRequestPayload DecodeProofRequestPayload "\<lambda>h. length h = 32"
  by unfold_locales
     (auto simp: EncodeProofRequestPayload_def DecodeProofRequestPayload_def split: if_splits)

interpretation ack_payload: payload_codec EncodeACKPayload DecodeACKPayload "\<lambda>h. length h = 16"
  by unfold_locales (auto simp: EncodeACKPayload_def DecodeACKPayload_def split: if_splits)

definition tx_payload_ok :: "tx_payload \<Rightarrow> bool" where
  "tx_payload_ok p \<longleftrightarrow> length (TransferBytes p) < 2 ^ 32 \<and> length (Signature p) < 2 ^ 32"

lemma EncodeTXPayload_eq: "EncodeTXPayload a b = enc_bytes a @ enc_bytes b"
  by (simp add: EncodeTXPayload_def pAppendBytes_eq)

interpretation tx_payload: payload_codec "\<lambda>p. EncodeTXPayload (TransferBytes p) (Signature p)"
  DecodeTXPayload tx_payload_ok
proof unfold_locales
  fix p
  assume "tx_payload_ok p"
  then have ok: "length (TransferBytes p) < 2 ^ 32" "length (Signature p) < 2 ^ 32"
    by (simp_all add: tx_payload_ok_def)
  let ?a = "enc_bytes (TransferBytes p)" and ?b = "enc_bytes (Signature p)"
  have "decodeLengthPrefixedBytes (?a @ ?b) 0 = Inr (TransferBytes p, length ?a)"
    using plp.dec_enc[OF ok(1), of "[]" ?b] by simp
  moreover have "decodeLengthPrefixedBytes (?a @ ?b) (length ?a) = Inr (Signature p, length (?a @ ?b))"
    using plp.dec_enc[OF ok(2), of ?a "[]"] by simp
  ultimately show "DecodeTXPayload (EncodeTXPayload (TransferBytes p) (Signature p)) = Inr p"
    unfolding DecodeTXPayload_def EncodeTXPayload_eq
    by (simp only: bindE.simps prod.case) simp
next
  fix data p
  assume "DecodeTXPayload data = Inr p"
  then obtain a mid b nxt where a: "decodeLengthPrefixedBytes data 0 = Inr (a, mid)"
    and b: "decodeLengthPrefixedBytes data mid = Inr (b, nxt)"
    and e: "nxt = length data" "p = \<lparr>TransferBytes = a, Signature = b\<rparr>"
    unfolding DecodeTXPayload_def by (elim bindE_pairE) (simp split: if_splits)
  note ha = plp.dec_ok[OF le0 a]
  then have "mid \<le> length data" by simp
  note hb = plp.dec_ok[OF this b]
  have "subslice data 0 mid @ subslice data mid nxt = data"
    using ha hb subslice_join[of 0 mid nxt data] by (simp only: e subslice_full)
  then show "tx_payload_ok p \<and> EncodeTXPayload (TransferBytes p) (Signature p) = data"
    using ha hb by (simp add: e EncodeTXPayload_eq tx_payload_ok_def)
next
  fix data
  show "DecodeTXPayload data \<noteq> Inl PanicSliceBounds"
    unfolding DecodeTXPayload_def by (intro plp.then_no_panic) simp_all
qed

text \<open>Fixed layouts: a buffer is the concatenation of its fields, and each field is a sub-slice.\<close>

definition proof_response_ok :: "proof_response_payload \<Rightarrow> bool" where
  "proof_response_ok p \<longleftrightarrow> length (TargetID p) = 32"

abbreviation bool_byte :: "bool \<Rightarrow> byte" where
  "bool_byte b \<equiv> (if b then 1 else 0)"

lemma EncodeProofResponsePayload_eq:
  "EncodeProofResponsePayload p = TargetID p @ [bool_byte (pSeen p)] @ put_u64 (pSeenTime p)
     @ [bool_byte (pConflict p)] @ put_u64 (pDistance p)"
  by (simp add: EncodeProofResponsePayload_def appendBool_def pAppendInt64_def Let_def)

lemma decodeBool_Inr_iff: "decodeBool v = Inr b \<longleftrightarrow> v = bool_byte b"
  by (auto simp: decodeBool_def)

lemma nth_subslice: "i < length data \<Longrightarrow> [data ! i] = subslice data i (i + 1)"
  by (simp add: subslice_def take_Suc_conv_app_nth hd_drop_conv_nth take_Suc)

lemma scast_int64 [simp]: "scast (w :: uint64) = (w :: int64)"
  by simp

interpretation proof_resp_payload:
  payload_codec EncodeProofResponsePayload DecodeProofResponsePayload proof_response_ok
proof unfold_locales
  fix p
  assume "proof_response_ok p"
  then have t: "length (TargetID p) = 32" by (simp add: proof_response_ok_def)
  let ?d = "EncodeProofResponsePayload p"
  note d = EncodeProofResponsePayload_eq[of p]
  have len: "length ?d = 50" using t by (simp add: d)
  have 1: "?d ! 32 = bool_byte (pSeen p)" "?d ! 41 = bool_byte (pConflict p)"
    using t by (simp_all add: d nth_append)
  have 2: "subslice ?d 0 32 = TargetID p" using t by (simp add: d subslice_def)
  have 3: "subslice ?d 33 41 = put_u64 (pSeenTime p)" and 4: "subslice ?d 42 50 = put_u64 (pDistance p)"
    using t by (simp_all add: d subslice_def)
  have 5: "decodeBool (bool_byte b) = Inr b" for b by (simp only: decodeBool_Inr_iff)
  show "DecodeProofResponsePayload ?d = Inr p"
    unfolding DecodeProofResponsePayload_def Let_def 1 2 3 4 5 len by simp
next
  fix data p
  assume a: "DecodeProofResponsePayload data = Inr p"
  then have len: "length data = 50" by (auto simp: DecodeProofResponsePayload_def split: if_splits)
  from a len have b: "data ! 32 = bool_byte (pSeen p)" "data ! 41 = bool_byte (pConflict p)"
    and t: "TargetID p = subslice data 0 32"
    and s: "put_u64 (pSeenTime p) = subslice data 33 41"
    and d: "put_u64 (pDistance p) = subslice data 42 50"
    by (auto simp: DecodeProofResponsePayload_def bindE_Inr_iff decodeBool_Inr_iff Let_def
        put_get_u64 length_subslice)
  have "EncodeProofResponsePayload p = subslice data 0 32 @ subslice data 32 33 @ subslice data 33 41
      @ subslice data 41 42 @ subslice data 42 50"
    using nth_subslice[of 32 data] nth_subslice[of 41 data] len b
    by (simp only: EncodeProofResponsePayload_eq t s d) simp
  also have "\<dots> = subslice data 0 50" by (simp add: subslice_join)
  also have "\<dots> = data" using subslice_full[of data] len by simp
  finally show "proof_response_ok p \<and> EncodeProofResponsePayload p = data"
    using len by (simp add: proof_response_ok_def t length_subslice)
next
  fix data
  show "DecodeProofResponsePayload data \<noteq> Inl PanicSliceBounds"
    by (auto simp: DecodeProofResponsePayload_def bindE_Inl_iff decodeBool_def Let_def split: if_splits)
qed

definition error_payload_ok :: "error_payload \<Rightarrow> bool" where
  "error_payload_ok p \<longleftrightarrow> length (ReferencedMessageID p) = 16 \<and> length (Code p) < 2 ^ 32"

interpretation err_payload: payload_codec "\<lambda>p. EncodeErrorPayload (ReferencedMessageID p) (Code p)"
  DecodeErrorPayload error_payload_ok
proof unfold_locales
  fix p
  assume ok: "error_payload_ok p"
  let ?d = "EncodeErrorPayload (ReferencedMessageID p) (Code p)"
  have d: "?d = ReferencedMessageID p @ put_u32 (of_nat (length (Code p))) @ string_bytes (Code p)"
    by (simp add: EncodeErrorPayload_def pAppendBytes_eq)
  have t: "length (ReferencedMessageID p) = 16" and c: "length (Code p) < 2 ^ 32"
    using ok by (simp_all add: error_payload_ok_def)
  have "subslice ?d 16 20 = put_u32 (of_nat (length (Code p)))"
    and "subslice ?d 0 16 = ReferencedMessageID p" and "drop 20 ?d = string_bytes (Code p)"
    and "length ?d = 20 + length (Code p)"
    using t by (simp_all add: d subslice_def)
  then show "DecodeErrorPayload ?d = Inr p"
    by (simp add: DecodeErrorPayload_def unat_of_nat_u32[OF c])
next
  fix data p
  assume "DecodeErrorPayload data = Inr p"
  then have len: "length data = 20 + unat (get_u32 (subslice data 16 20))"
    and p: "p = \<lparr>ReferencedMessageID = subslice data 0 16, Code = bytes_string (drop 20 data)\<rparr>"
    by (auto simp: DecodeErrorPayload_def Let_def split: if_splits)
  obtain n where n_def: "n = get_u32 (subslice data 16 20)" by blast
  have "put_u32 n = subslice data 16 20"
    using len by (simp add: n_def put_get_u32 length_subslice)
  moreover have "of_nat (length data - 20) = n" using len by (simp add: n_def)
  moreover have "drop 20 data = subslice data 20 (length data)" by (simp add: subslice_def)
  moreover have "length (drop 20 data) = length data - 20" by simp
  ultimately have "EncodeErrorPayload (ReferencedMessageID p) (Code p)
      = subslice data 0 16 @ subslice data 16 20 @ subslice data 20 (length data)"
    by (simp only: EncodeErrorPayload_def pAppendBytes_eq p error_payload.simps string_bytes_string)
  also have "\<dots> = subslice data 0 (length data)"
  proof -
    have "20 \<le> length data" using len by simp
    then show ?thesis by (simp add: subslice_join)
  qed
  also note subslice_full
  finally show "error_payload_ok p \<and> EncodeErrorPayload (ReferencedMessageID p) (Code p) = data"
    using len unsigned_less[of n] by (simp add: error_payload_ok_def p length_subslice n_def)
next
  fix data
  show "DecodeErrorPayload data \<noteq> Inl PanicSliceBounds"
    by (auto simp: DecodeErrorPayload_def Let_def)
qed

text \<open>The envelope: a type the decoder knows, a 16-byte identifier and a payload below 4 GiB.\<close>

definition message_ok :: "message \<Rightarrow> bool" where
  "message_ok m \<longleftrightarrow> length (MessageID m) = 16 \<and> unat (mType m) \<le> 6 \<and> length (Payload m) < 2 ^ 32"

lemma EncodeMessage_eq:
  "EncodeMessage m = MessageID m @ put_u64 (mTimestamp m) @ put_u64 (TTL m)
     @ put_u32 (ucast (mType m)) @ enc_bytes (Payload m)"
  by (simp add: EncodeMessage_def pAppendInt64_def pAppendUint32_def pAppendBytes_eq Let_def)

lemma ucast_type:
  assumes "unat (w :: int64) \<le> 6"
  shows "unat (ucast w :: uint32) = unat w" and "ucast (ucast w :: uint32) = w"
proof -
  have "unat w mod 2 ^ 32 = unat w" using assms by simp
  then show u: "unat (ucast w :: uint32) = unat w"
    unfolding unsigned_ucast_eq take_bit_eq_mod by simp
  have "unat (ucast w :: uint32) mod 2 ^ 64 = unat w" using u assms by simp
  then have "unat (ucast (ucast w :: uint32) :: int64) = unat w"
    unfolding unsigned_ucast_eq[where ?'c = 64 and w = "ucast w :: uint32"] take_bit_eq_mod by simp
  then show "ucast (ucast w :: uint32) = w" by (rule unsigned_word_eqI)
qed

lemma ucast_ucast_u32: "ucast (ucast (w :: uint32) :: int64) = w"
  by (rule bit_word_eqI) (simp add: bit_simps)

lemma ucast_ERROR [simp]: "unat (ucast ERROR :: uint32) = 6"
  by (simp add: ERROR_def)

interpretation message_payload: payload_codec EncodeMessage DecodeMessage message_ok
proof unfold_locales
  fix m
  assume "message_ok m"
  then have i: "length (MessageID m) = 16" and t: "unat (mType m) \<le> 6" and p: "length (Payload m) < 2 ^ 32"
    by (simp_all add: message_ok_def)
  let ?d = "EncodeMessage m"
  note d = EncodeMessage_eq[of m]
  have 1: "subslice ?d 0 16 = MessageID m" and 2: "subslice ?d 16 24 = put_u64 (mTimestamp m)"
    and 3: "subslice ?d 24 32 = put_u64 (TTL m)" and 4: "subslice ?d 32 36 = put_u32 (ucast (mType m))"
    using i by (simp_all add: d subslice_def)
  let ?pre = "MessageID m @ put_u64 (mTimestamp m) @ put_u64 (TTL m) @ put_u32 (ucast (mType m))"
  have pre: "length ?pre = 36" and d': "?d = ?pre @ enc_bytes (Payload m) @ []"
    and len: "length ?d = 40 + length (Payload m)"
    using i by (simp_all add: d)
  have 5: "decodeLengthPrefixedBytes ?d 36 = Inr (Payload m, length ?d)"
    using plp.dec_enc[OF p, of ?pre "[]"] unfolding pre d'[symmetric] len by simp
  show "DecodeMessage ?d = Inr m"
    using t by (simp add: DecodeMessage_def Let_def 1 2 3 4 5 len ucast_type)
next
  fix data m
  assume a: "DecodeMessage data = Inr m"
  then have len: "40 \<le> length data" by (auto simp: DecodeMessage_def split: if_splits)
  obtain ty where typ_def: "ty = get_u32 (subslice data 32 36)" by blast
  from a len have t: "unat ty \<le> 6" and dp: "decodeLengthPrefixedBytes data 36 = Inr (Payload m, length data)"
    and m: "mType m = ucast ty" "MessageID m = subslice data 0 16"
    and ts: "put_u64 (mTimestamp m) = subslice data 16 24" "put_u64 (TTL m) = subslice data 24 32"
    by (auto simp: DecodeMessage_def Let_def bindE_Inr_iff typ_def put_get_u64 length_subslice
        split: if_splits)
  have "put_u32 ty = subslice data 32 36"
    using len by (simp add: typ_def put_get_u32 length_subslice)
  moreover have "ucast (mType m) = ty" by (simp add: m ucast_ucast_u32)
  moreover have pl: "length (Payload m) < 2 ^ 32 \<and> subslice data 36 (length data) = enc_bytes (Payload m)"
    using plp.dec_ok[OF _ dp] len by simp
  ultimately have "EncodeMessage m = subslice data 0 16 @ subslice data 16 24 @ subslice data 24 32
      @ subslice data 32 36 @ subslice data 36 (length data)"
    by (simp add: EncodeMessage_eq m ts)
  also have "\<dots> = data" using len by (simp add: subslice_join subslice_full)
  finally show "message_ok m \<and> EncodeMessage m = data"
    using len t pl m by (simp add: message_ok_def length_subslice unsigned_ucast_eq take_bit_eq_mod)
next
  fix data
  show "DecodeMessage data \<noteq> Inl PanicSliceBounds"
    using plp.no_panic[of 36 data]
    by (auto simp: DecodeMessage_def Let_def bindE_Inl_iff split: if_splits)
qed

lemma length_EncodeMessage: "length (MessageID m) = 16 \<Longrightarrow> length (EncodeMessage m) = encodedMessageLen m"
  by (simp add: EncodeMessage_eq encodedMessageLen_def)

end
