(* ===== verification/Replay.thy ===== *)
theory Replay
  imports Web4_Base
begin

text \<open>
  \<open>protocol/replay.go\<close>: the cache of message identifiers seen, with an expiry time for each, and the
  set of inputs this node has spent itself. The cache has a clock of its own (\<open>now\<close>), which
  \<open>NewReplayCache\<close> sets to the wall clock; its current reading is the field \<open>rcNow\<close>.
\<close>

section \<open>ReplayCache\<close>

record replay_cache =
  defaultTTL :: int64
  rcNow :: int64
  seen :: "(message_id, int64) go_map"

definition newReplayCacheWithClock :: "int64 \<Rightarrow> int64 \<Rightarrow> replay_cache" where
  "newReplayCacheWithClock ttl now = \<lparr>defaultTTL = ttl, rcNow = now, seen = []\<rparr>"

definition NewReplayCache :: "int64 \<Rightarrow> int64 \<Rightarrow> replay_cache" where
  "NewReplayCache ttl wall = \<lparr>defaultTTL = ttl, rcNow = wall, seen = []\<rparr>"

lemma NewReplayCache_eq [simp]: "NewReplayCache ttl wall = newReplayCacheWithClock ttl wall"
  by (simp add: NewReplayCache_def newReplayCacheWithClock_def)

definition MarkSeen :: "replay_cache \<Rightarrow> message_id \<Rightarrow> replay_cache" where
  "MarkSeen c messageID =
     (let expiresAt = (if sint (defaultTTL c) > 0 then rcNow c + defaultTTL c else 0)
      in c\<lparr>seen := mput messageID expiresAt (seen c)\<rparr>)"

definition IsSeen :: "replay_cache \<Rightarrow> message_id \<Rightarrow> bool" where
  "IsSeen c messageID = (map_of (seen c) messageID \<noteq> None)"

text \<open>
  \<open>PruneExpired\<close> ranges over the map and deletes while it ranges; Go visits every entry that is not
  deleted before it is reached, and each entry is judged on its own, so the order does not matter.
\<close>

definition expired :: "int64 \<Rightarrow> int64 \<Rightarrow> bool" where
  "expired now expiresAt \<longleftrightarrow> sint expiresAt > 0 \<and> sint expiresAt \<le> sint now"

fun prune_loop :: "int64 \<Rightarrow> (message_id, int64) go_map \<Rightarrow> (message_id, int64) go_map \<Rightarrow> (message_id, int64) go_map" where
  "prune_loop now [] m = m"
| "prune_loop now ((k, e) # rest) m = prune_loop now rest (if expired now e then mdel k m else m)"

definition PruneExpired :: "replay_cache \<Rightarrow> int64 \<Rightarrow> replay_cache" where
  "PruneExpired c now = c\<lparr>seen := prune_loop now (seen c) (seen c)\<rparr>"

definition cache_wf :: "replay_cache \<Rightarrow> bool" where
  "cache_wf c \<longleftrightarrow> mwf (seen c)"

lemma prune_loop_get:
  assumes "mwf es"
  shows "map_of (prune_loop now es m) k =
     (case map_of es k of Some e \<Rightarrow> if expired now e then None else map_of m k | None \<Rightarrow> map_of m k)"
  using assms
proof (induction es arbitrary: m)
  case (Cons p es)
  obtain k' e where p: "p = (k', e)" by fastforce
  show ?case
  proof (cases "k = k'")
    case True
    then have "map_of es k = None" using Cons.prems p by (simp add: map_of_eq_None_iff)
    then show ?thesis using Cons True p by (simp add: gm.get_del)
  next
    case False
    then show ?thesis using Cons p by (simp add: gm.get_del split: option.splits)
  qed
qed simp

lemma prune_loop_wf: "mwf m \<Longrightarrow> mwf (prune_loop now es m)"
  by (induction es arbitrary: m rule: list.induct) (auto simp: distinct_delete)

text \<open>The specification of pruning: exactly the expired entries go.\<close>

lemma PruneExpired_get:
  assumes "cache_wf c"
  shows "map_of (seen (PruneExpired c now)) k =
     (case map_of (seen c) k of Some e \<Rightarrow> if expired now e then None else Some e | None \<Rightarrow> None)"
  using prune_loop_get[of "seen c" now "seen c" k] assms
  by (auto simp: PruneExpired_def cache_wf_def split: option.splits)

lemma cache_wf_simps [simp]:
  shows "cache_wf (newReplayCacheWithClock ttl now)"
    and "cache_wf c \<Longrightarrow> cache_wf (MarkSeen c i)"
    and "cache_wf c \<Longrightarrow> cache_wf (PruneExpired c t)"
  by (simp_all add: cache_wf_def newReplayCacheWithClock_def MarkSeen_def PruneExpired_def Let_def
      distinct_update prune_loop_wf)

lemma IsSeen_MarkSeen: "IsSeen (MarkSeen c i) j \<longleftrightarrow> j = i \<or> IsSeen c j"
  by (auto simp: IsSeen_def MarkSeen_def gm.get_put Let_def)

lemma IsSeen_PruneExpired:
  assumes "cache_wf c"
  shows "IsSeen (PruneExpired c now) j \<longleftrightarrow> (\<exists>e. map_of (seen c) j = Some e \<and> \<not> expired now e)"
  using PruneExpired_get[OF assms] by (auto simp: IsSeen_def split: option.splits if_splits)

lemma cache_frame [simp]:
  shows "defaultTTL (MarkSeen c i) = defaultTTL c" and "rcNow (MarkSeen c i) = rcNow c"
    and "defaultTTL (PruneExpired c t) = defaultTTL c" and "rcNow (PruneExpired c t) = rcNow c"
  by (simp_all add: MarkSeen_def PruneExpired_def Let_def)

text \<open>
  The cache as an abstract set of identifiers with expiry times: a marked identifier stays seen
  under any sequence of further marks and prunes, until a prune at or after its expiry time.
\<close>

datatype cache_op = Mark message_id | Prune int64 | SetClock int64

fun cache_step :: "replay_cache \<Rightarrow> cache_op \<Rightarrow> replay_cache" where
  "cache_step c (Mark i) = MarkSeen c i"
| "cache_step c (Prune t) = PruneExpired c t"
| "cache_step c (SetClock t) = c\<lparr>rcNow := t\<rparr>"

fun cache_run :: "replay_cache \<Rightarrow> cache_op list \<Rightarrow> replay_cache" where
  "cache_run c [] = c"
| "cache_run c (x # xs) = cache_run (cache_step c x) xs"

definition holds_until :: "replay_cache \<Rightarrow> message_id \<Rightarrow> int \<Rightarrow> bool" where
  "holds_until c i t \<longleftrightarrow> cache_wf c \<and> (\<exists>e. map_of (seen c) i = Some e \<and> (sint e \<le> 0 \<or> t \<le> sint e))"

text \<open>Ops that neither prune at or after \<open>t\<close> nor re-mark \<open>i\<close> with an expiry before \<open>t\<close>.\<close>

fun op_before :: "int \<Rightarrow> message_id \<Rightarrow> cache_op \<Rightarrow> bool" where
  "op_before t i (Mark j) \<longleftrightarrow> j \<noteq> i"
| "op_before t i (Prune u) \<longleftrightarrow> sint u < t"
| "op_before t i (SetClock u) \<longleftrightarrow> True"

lemma holds_until_step:
  "holds_until c i t \<Longrightarrow> op_before t i x \<Longrightarrow> holds_until (cache_step c x) i t"
proof (cases x)
  case (Mark j)
  assume "holds_until c i t" and "op_before t i x"
  with Mark show ?thesis
    by (auto simp: holds_until_def MarkSeen_def gm.get_put Let_def cache_wf_def distinct_update)
next
  case (Prune u)
  assume h: "holds_until c i t" and o: "op_before t i x"
  then obtain e where e: "map_of (seen c) i = Some e" "sint e \<le> 0 \<or> t \<le> sint e" and wf: "cache_wf c"
    unfolding holds_until_def by blast
  have "\<not> expired u e" using e o Prune by (auto simp: expired_def)
  then have "map_of (seen (PruneExpired c u)) i = Some e" by (simp only: PruneExpired_get[OF wf] e) simp
  with e wf Prune show ?thesis by (simp add: holds_until_def)
next
  case (SetClock u)
  assume "holds_until c i t"
  with SetClock show ?thesis by (auto simp: holds_until_def cache_wf_def)
qed

lemma holds_until_run:
  "holds_until c i t \<Longrightarrow> \<forall>x \<in> set xs. op_before t i x \<Longrightarrow> holds_until (cache_run c xs) i t"
  by (induction xs arbitrary: c) (auto intro: holds_until_step)

lemma holds_until_IsSeen: "holds_until c i t \<Longrightarrow> IsSeen c i"
  by (auto simp: holds_until_def IsSeen_def)

section \<open>InputTracker\<close>

record input_tracker =
  consumed :: "(hash, unit) go_map"

definition NewInputTracker :: input_tracker where
  "NewInputTracker = \<lparr>consumed = []\<rparr>"

definition IsConsumed :: "input_tracker \<Rightarrow> hash \<Rightarrow> bool" where
  "IsConsumed t input = (map_of (consumed t) input \<noteq> None)"

definition MarkConsumed :: "input_tracker \<Rightarrow> hash \<Rightarrow> error + input_tracker" where
  "MarkConsumed t input =
     (if IsConsumed t input then Inl ErrInputConsumed
      else Inr (t\<lparr>consumed := mput input () (consumed t)\<rparr>))"

text \<open>\<open>ConsumeInputs\<close>: a loop of checks, with the batch's own duplicates, then a loop of marks.\<close>

fun check_inputs :: "input_tracker \<Rightarrow> hash list \<Rightarrow> hash list \<Rightarrow> bool" where
  "check_inputs t seenInBatch [] = True"
| "check_inputs t seenInBatch (i # is) =
     (if IsConsumed t i then False
      else if i \<in> set seenInBatch then False
      else check_inputs t (i # seenInBatch) is)"

fun mark_inputs :: "input_tracker \<Rightarrow> hash list \<Rightarrow> input_tracker" where
  "mark_inputs t [] = t"
| "mark_inputs t (i # is) = mark_inputs (t\<lparr>consumed := mput i () (consumed t)\<rparr>) is"

definition ConsumeInputs :: "input_tracker \<Rightarrow> hash list \<Rightarrow> error + input_tracker" where
  "ConsumeInputs t inputs =
     (if check_inputs t [] inputs then Inr (mark_inputs t inputs) else Inl ErrInputConsumed)"

text \<open>The abstract tracker is the set of consumed inputs.\<close>

definition consumed_set :: "input_tracker \<Rightarrow> hash set" where
  "consumed_set t = {i. IsConsumed t i}"

lemma consumed_set_new [simp]: "consumed_set NewInputTracker = {}"
  by (simp add: consumed_set_def IsConsumed_def NewInputTracker_def)

lemma consumed_set_put [simp]:
  "consumed_set (t\<lparr>consumed := mput i () (consumed t)\<rparr>) = insert i (consumed_set t)"
  by (auto simp: consumed_set_def IsConsumed_def gm.get_put)

lemma consumed_set_mark_inputs: "consumed_set (mark_inputs t is) = consumed_set t \<union> set is"
  by (induction "is" arbitrary: t) auto

lemma check_inputs_iff:
  "check_inputs t bs is \<longleftrightarrow> distinct is \<and> set is \<inter> set bs = {} \<and> set is \<inter> consumed_set t = {}"
  by (induction "is" arbitrary: bs) (auto simp: consumed_set_def)

lemma ConsumeInputs_cases:
  "ConsumeInputs t is =
     (if distinct is \<and> set is \<inter> consumed_set t = {} then Inr (mark_inputs t is) else Inl ErrInputConsumed)"
  by (simp add: ConsumeInputs_def check_inputs_iff)

lemma ConsumeInputs_set: "ConsumeInputs t is = Inr t' \<Longrightarrow> consumed_set t' = consumed_set t \<union> set is"
  by (auto simp: ConsumeInputs_cases consumed_set_mark_inputs split: if_splits)

lemma MarkConsumed_ConsumeInputs: "MarkConsumed t i = ConsumeInputs t [i]"
  by (simp add: MarkConsumed_def ConsumeInputs_def)

end
