(* ===== verification/Float64.thy ===== *)
theory Float64
  imports Complex_Main "HOL-Library.Log_Nat" Web4_Base
begin

text \<open>
  Go's \<open>float64\<close>: IEEE 754 binary64 with round-to-nearest, ties-to-even, on which the selection
  and finality scores of \<open>node/selection.go\<close> and \<open>node/finality.go\<close> are computed.

  A finite value is the rational it denotes. Every operation rounds its exact result once
  (\<open>f64_round\<close>), as the hardware does for separate instructions; the fused multiply-add that the Go
  compiler may emit on some architectures is not modelled (on amd64 it emits none). The two zeros
  are one value: the code never divides by a zero it computed with a sign, compares them
  as equal, and what it prints is a sum or product of terms that are not negative.
\<close>

section \<open>Values and rounding\<close>

datatype f64 = Fin rat | NaN | PInf | NInf

text \<open>
  \<open>ilog2 a b\<close> is the exponent of the positive rational \<open>a / b\<close>:
  \<open>2 ^ ilog2 a b \<le> a / b < 2 ^ (ilog2 a b + 1)\<close> (lemma \<open>ilog2_bounds\<close>).
\<close>

definition scaled :: "int \<Rightarrow> int \<Rightarrow> int \<Rightarrow> int \<times> int" where
  "scaled a b e = (if 0 \<le> e then (a, b * 2 ^ nat e) else (a * 2 ^ nat (- e), b))"

definition ilog2 :: "int \<Rightarrow> int \<Rightarrow> int" where
  "ilog2 a b =
     (let l = bitlen a - bitlen b; (n, d) = scaled a b l in if d \<le> n then l else l - 1)"

text \<open>Exponent of the unit in the last place: 53 significant bits, subnormals below \<open>2 ^ -1022\<close>.\<close>

definition ulp_exp :: "int \<Rightarrow> int \<Rightarrow> int" where
  "ulp_exp a b = max (ilog2 \<bar>a\<bar> b - 52) (- 1074)"

text \<open>\<open>n / d\<close> to the nearest integer, ties to even.\<close>

definition div_half_even :: "int \<Rightarrow> int \<Rightarrow> int" where
  "div_half_even n d =
     (let q = n div d; r = n mod d
      in if 2 * r < d then q else if d < 2 * r then q + 1 else if even q then q else q + 1)"

definition pow2 :: "int \<Rightarrow> rat" where
  "pow2 e = (if 0 \<le> e then of_int (2 ^ nat e) else 1 / of_int (2 ^ nat (- e)))"

definition rnd :: "rat \<Rightarrow> rat" where
  "rnd x =
     (let (a, b) = quotient_of x
      in if a = 0 then 0
         else let e = ulp_exp a b; (n, d) = scaled a b e
              in of_int (div_half_even n d) * pow2 e)"

text \<open>Values that round to \<open>2 ^ 1024\<close> or beyond overflow to an infinity.\<close>

definition overflows :: "rat \<Rightarrow> bool" where
  "overflows r = (let (a, b) = quotient_of r in a \<noteq> 0 \<and> 1024 \<le> ilog2 \<bar>a\<bar> b)"

definition f64_round :: "rat \<Rightarrow> f64" where
  "f64_round x = (let r = rnd x in if overflows r then if 0 < r then PInf else NInf else Fin r)"

section \<open>Operations\<close>

fun fneg :: "f64 \<Rightarrow> f64" where
  "fneg (Fin a) = Fin (- a)"
| "fneg PInf = NInf"
| "fneg NInf = PInf"
| "fneg NaN = NaN"

fun fadd :: "f64 \<Rightarrow> f64 \<Rightarrow> f64" where
  "fadd (Fin a) (Fin b) = f64_round (a + b)"
| "fadd NaN _ = NaN"
| "fadd _ NaN = NaN"
| "fadd PInf NInf = NaN"
| "fadd NInf PInf = NaN"
| "fadd PInf _ = PInf"
| "fadd _ PInf = PInf"
| "fadd NInf _ = NInf"
| "fadd _ NInf = NInf"

definition fsub :: "f64 \<Rightarrow> f64 \<Rightarrow> f64" where
  "fsub x y = fadd x (fneg y)"

definition inf_sign :: "bool \<Rightarrow> f64" where
  "inf_sign neg = (if neg then NInf else PInf)"

fun fmul :: "f64 \<Rightarrow> f64 \<Rightarrow> f64" where
  "fmul (Fin a) (Fin b) = f64_round (a * b)"
| "fmul NaN _ = NaN"
| "fmul _ NaN = NaN"
| "fmul (Fin a) PInf = (if a = 0 then NaN else inf_sign (a < 0))"
| "fmul (Fin a) NInf = (if a = 0 then NaN else inf_sign (a > 0))"
| "fmul PInf (Fin a) = (if a = 0 then NaN else inf_sign (a < 0))"
| "fmul NInf (Fin a) = (if a = 0 then NaN else inf_sign (a > 0))"
| "fmul PInf PInf = PInf"
| "fmul PInf NInf = NInf"
| "fmul NInf PInf = NInf"
| "fmul NInf NInf = PInf"

fun fdiv :: "f64 \<Rightarrow> f64 \<Rightarrow> f64" where
  "fdiv (Fin a) (Fin b) =
     (if b = 0 then if a = 0 then NaN else inf_sign (a < 0) else f64_round (a / b))"
| "fdiv NaN _ = NaN"
| "fdiv _ NaN = NaN"
| "fdiv (Fin a) PInf = Fin 0"
| "fdiv (Fin a) NInf = Fin 0"
| "fdiv PInf (Fin a) = inf_sign (a < 0)"
| "fdiv NInf (Fin a) = inf_sign (a \<ge> 0)"
| "fdiv _ _ = NaN"

text \<open>Comparisons with NaN are false; \<open>!=\<close> is the negation of \<open>==\<close>.\<close>

fun feq :: "f64 \<Rightarrow> f64 \<Rightarrow> bool" where
  "feq (Fin a) (Fin b) = (a = b)"
| "feq PInf PInf = True"
| "feq NInf NInf = True"
| "feq _ _ = False"

fun flt :: "f64 \<Rightarrow> f64 \<Rightarrow> bool" where
  "flt (Fin a) (Fin b) = (a < b)"
| "flt NInf (Fin _) = True"
| "flt NInf PInf = True"
| "flt (Fin _) PInf = True"
| "flt _ _ = False"

definition fle :: "f64 \<Rightarrow> f64 \<Rightarrow> bool" where
  "fle x y = (flt x y \<or> feq x y)"

text \<open>\<open>float64(n)\<close> of an integer, and a decimal constant converted at compile time.\<close>

definition f64_of_int :: "int \<Rightarrow> f64" where
  "f64_of_int n = f64_round (of_int n)"

definition f64_const :: "rat \<Rightarrow> f64" where
  "f64_const x = f64_round x"

section \<open>Powers of two and the binary exponent\<close>

lemma pow2_powi: "pow2 e = 2 powi e"
  by (simp add: pow2_def power_int_def inverse_eq_divide power_one_over)

lemma pow2_pos [simp]: "0 < pow2 e"
  by (simp add: pow2_powi)

lemma pow2_nonzero [simp]: "pow2 e \<noteq> 0"
  by (simp add: pow2_powi)

lemma pow2_add: "pow2 (e + f) = pow2 e * pow2 f"
  by (simp add: pow2_powi power_int_add)

lemma pow2_mono: "e \<le> f \<Longrightarrow> pow2 e \<le> pow2 f"
  by (simp add: pow2_powi power_int_increasing)

lemma pow2_strict_mono: "e < f \<Longrightarrow> pow2 e < pow2 f"
  by (simp add: pow2_powi power_int_strict_increasing)

lemma pow2_less_iff: "pow2 e < pow2 f \<longleftrightarrow> e < f"
  using pow2_strict_mono[of e f] pow2_mono[of f e] by linarith

lemma pow2_nat: "0 \<le> e \<Longrightarrow> pow2 e = of_int (2 ^ nat e)"
  by (simp add: pow2_def)

lemma pow2_eq_mult: "pow2 e = pow2 f * pow2 (e - f)"
  using pow2_add[of f "e - f"] by simp

lemma scaled_ratio:
  assumes "0 < b" and "scaled a b e = (n, d)"
  shows "0 < d" and "(of_int n / of_int d :: rat) = of_int a / of_int b / pow2 e"
  using assms by (auto simp: scaled_def pow2_def split: if_splits)

lemma bitlen_rat_bounds:
  assumes "0 < a"
  shows "pow2 (bitlen a - 1) \<le> of_int a" and "of_int a < pow2 (bitlen a)"
proof -
  have "1 \<le> bitlen a"
    using assms bitlen_nonneg[of a] bitlen_eq_zero_iff[of a] by linarith
  moreover have "2 ^ nat (bitlen a - 1) \<le> a" "a < 2 ^ nat (bitlen a)"
    using bitlen_bounds[OF assms] by auto
  ultimately show "pow2 (bitlen a - 1) \<le> of_int a" and "of_int a < pow2 (bitlen a)"
    by (simp_all only: pow2_nat bitlen_nonneg diff_ge_0_iff_ge of_int_le_iff of_int_less_iff)
qed

lemma ilog2_bounds:
  assumes "0 < a" and "0 < b"
  shows "pow2 (ilog2 a b) \<le> of_int a / of_int b" and "of_int a / of_int b < pow2 (ilog2 a b + 1)"
proof -
  let ?x = "of_int a / of_int b :: rat" and ?l = "bitlen a - bitlen b"
  have b: "0 < (of_int b :: rat)" using assms by simp
  have lo: "pow2 (?l - 1) < ?x"
  proof -
    have "pow2 (?l - 1) * of_int b < pow2 (?l - 1) * pow2 (bitlen b)"
      using bitlen_rat_bounds(2)[OF assms(2)] by simp
    also have "\<dots> = pow2 (bitlen a - 1)" by (simp flip: pow2_add)
    also have "\<dots> \<le> of_int a" by (rule bitlen_rat_bounds(1)[OF assms(1)])
    finally show ?thesis using b by (simp add: field_simps)
  qed
  have hi: "?x < pow2 (?l + 1)"
  proof -
    have "of_int a < pow2 (bitlen a)" by (rule bitlen_rat_bounds(2)[OF assms(1)])
    also have "\<dots> = pow2 (?l + 1) * pow2 (bitlen b - 1)" by (simp flip: pow2_add)
    also have "\<dots> \<le> pow2 (?l + 1) * of_int b"
      using bitlen_rat_bounds(1)[OF assms(2)] by simp
    finally show ?thesis using b by (simp add: field_simps)
  qed
  obtain n d where nd: "scaled a b ?l = (n, d)" by fastforce
  have "d \<le> n \<longleftrightarrow> 1 \<le> (of_int n / of_int d :: rat)"
    using scaled_ratio(1)[OF assms(2) nd] by simp
  also have "\<dots> \<longleftrightarrow> pow2 ?l \<le> ?x"
    using scaled_ratio(2)[OF assms(2) nd] le_divide_eq[of 1 ?x "pow2 ?l"] pow2_pos[of ?l] by simp
  finally have il: "ilog2 a b = (if pow2 ?l \<le> ?x then ?l else ?l - 1)"
    by (simp add: ilog2_def nd)
  show "pow2 (ilog2 a b) \<le> ?x" and "?x < pow2 (ilog2 a b + 1)"
    using lo hi by (auto simp: il)
qed

section \<open>Rounding to the nearest integer\<close>

definition rhe :: "rat \<Rightarrow> int" where
  "rhe y = (let m = \<lfloor>y\<rfloor>; f = y - of_int m
            in if f < 1 / 2 then m else if 1 / 2 < f then m + 1 else if even m then m else m + 1)"

lemma div_half_even_rhe:
  assumes "0 < d"
  shows "div_half_even n d = rhe (of_int n / of_int d)"
proof -
  have q: "\<lfloor>of_int n / of_int d :: rat\<rfloor> = n div d"
    by (rule floor_divide_of_int_eq)
  have e: "(of_int n :: rat) = of_int d * of_int (n div d) + of_int (n mod d)"
    by (metis mult_div_mod_eq of_int_add of_int_mult)
  have "(of_int n / of_int d :: rat) - of_int (n div d) = of_int (n mod d) / of_int d"
    unfolding e using assms by (simp add: add_divide_distrib)
  moreover have "(of_int r / of_int d :: rat) < 1 / 2 \<longleftrightarrow> 2 * r < d" for r
  proof -
    have "(of_int r / of_int d :: rat) < 1 / 2 \<longleftrightarrow> (of_int (2 * r) :: rat) < of_int d"
      using assms by (simp add: divide_less_eq mult.commute)
    then show ?thesis by (simp only: of_int_less_iff)
  qed
  moreover have "(1 / 2 :: rat) < of_int r / of_int d \<longleftrightarrow> d < 2 * r" for r
  proof -
    have "(1 / 2 :: rat) < of_int r / of_int d \<longleftrightarrow> (of_int d :: rat) < of_int (2 * r)"
      using assms by (simp add: less_divide_eq mult.commute)
    then show ?thesis by (simp only: of_int_less_iff)
  qed
  ultimately show ?thesis by (simp only: div_half_even_def rhe_def q Let_def)
qed

lemma rhe_bounds: shows "\<lfloor>y\<rfloor> \<le> rhe y" and "rhe y \<le> \<lfloor>y\<rfloor> + 1"
  by (auto simp: rhe_def Let_def)

lemma rhe_of_int [simp]: "rhe (of_int m) = m"
  by (simp add: rhe_def)

lemma rhe_mono:
  assumes "y \<le> z"
  shows "rhe y \<le> rhe z"
proof (cases "\<lfloor>y\<rfloor> = \<lfloor>z\<rfloor>")
  case True
  then have "y - of_int \<lfloor>y\<rfloor> \<le> z - of_int \<lfloor>z\<rfloor>" using assms by simp
  then show ?thesis using True by (auto simp: rhe_def Let_def)
next
  case False
  then have "\<lfloor>y\<rfloor> + 1 \<le> \<lfloor>z\<rfloor>" using floor_mono[OF assms] by linarith
  then show ?thesis using rhe_bounds[of y] rhe_bounds[of z] by linarith
qed

section \<open>Rounding to 53 significant bits\<close>

lemma rnd_zero [simp]: "rnd 0 = 0"
  by (simp add: rnd_def)

text \<open>The shape of a rounded positive number, from which every fact below is derived.\<close>

lemma rnd_shape:
  assumes "0 < x"
  obtains l e where "pow2 l \<le> x" and "x < pow2 (l + 1)" and "e = max (l - 52) (- 1074)"
    and "rnd x = of_int (rhe (x / pow2 e)) * pow2 e"
proof -
  obtain a b where ab: "quotient_of x = (a, b)" by fastforce
  then have b: "0 < b" and x: "x = of_int a / of_int b"
    by (auto intro: quotient_of_denom_pos quotient_of_div)
  then have a: "0 < a" using assms by (simp add: zero_less_divide_iff)
  let ?e = "ulp_exp a b"
  obtain n d where nd: "scaled a b ?e = (n, d)" by fastforce
  have "rnd x = of_int (div_half_even n d) * pow2 ?e"
    using a by (simp add: rnd_def ab nd Let_def)
  also have "div_half_even n d = rhe (x / pow2 ?e)"
    using div_half_even_rhe scaled_ratio[OF b nd] x by simp
  finally have "rnd x = of_int (rhe (x / pow2 ?e)) * pow2 ?e" .
  moreover have "?e = max (ilog2 a b - 52) (- 1074)" using a by (simp add: ulp_exp_def)
  ultimately show thesis using that ilog2_bounds[OF a b] x by blast
qed

lemma rnd_nonneg: "0 \<le> x \<Longrightarrow> 0 \<le> rnd x"
proof (cases "x = 0")
  case False
  assume "0 \<le> x"
  with False obtain e where e: "rnd x = of_int (rhe (x / pow2 e)) * pow2 e"
    by (metis rnd_shape less_le)
  have "0 \<le> rhe (x / pow2 e)"
    using rhe_mono[of 0 "x / pow2 e"] \<open>0 \<le> x\<close> rhe_of_int[of 0]
    by (simp add: order_less_imp_le)
  then show ?thesis by (simp add: e order_less_imp_le)
qed simp

lemma rhe_ge_power: "of_int m \<le> y \<Longrightarrow> m \<le> rhe y"
  using rhe_mono[of "of_int m" y] by simp

lemma rhe_le_power: "y \<le> of_int m \<Longrightarrow> rhe y \<le> m"
  using rhe_mono[of y "of_int m"] by simp

text \<open>Rounding is monotone, so bounds proved on exact values survive it.\<close>

lemma rnd_mono_pos:
  assumes "0 < x" and "x \<le> y"
  shows "rnd x \<le> rnd y"
proof -
  have "0 < y" using assms by simp
  from rnd_shape[OF \<open>0 < x\<close>] obtain l e where
    l: "pow2 l \<le> x" "x < pow2 (l + 1)" and e: "e = max (l - 52) (- 1074)"
    and rx: "rnd x = of_int (rhe (x / pow2 e)) * pow2 e" by metis
  from rnd_shape[OF \<open>0 < y\<close>] obtain k f where
    k: "pow2 k \<le> y" "y < pow2 (k + 1)" and f: "f = max (k - 52) (- 1074)"
    and ry: "rnd y = of_int (rhe (y / pow2 f)) * pow2 f" by metis
  have "pow2 l < pow2 (k + 1)" using l k assms by simp
  then have "l \<le> k" by (simp add: pow2_less_iff)
  show ?thesis
  proof (cases "e = f")
    case True
    have "x / pow2 e \<le> y / pow2 e" using assms by (simp add: divide_right_mono order_less_imp_le)
    then have "rhe (x / pow2 e) \<le> rhe (y / pow2 e)" by (rule rhe_mono)
    then show ?thesis by (simp add: rx ry True)
  next
    case False
    then have ef: "e + 1 \<le> f" and fk: "f = k - 52" using \<open>l \<le> k\<close> e f by auto
    have "x / pow2 e \<le> of_int (2 ^ 53)"
    proof -
      have "x \<le> pow2 (e + 53)"
        using l(2) pow2_mono[of "l + 1" "e + 53"] e by linarith
      then show ?thesis by (simp add: divide_le_eq pow2_add pow2_nat mult.commute)
    qed
    then have "rhe (x / pow2 e) \<le> 2 ^ 53" by (rule rhe_le_power)
    then have "rnd x \<le> of_int (2 ^ 53) * pow2 e"
      unfolding rx by (intro mult_right_mono) (simp_all only: of_int_le_iff pow2_pos order_less_imp_le)
    also have "\<dots> = pow2 (e + 53)" by (simp add: pow2_add pow2_nat)
    also have "\<dots> \<le> pow2 (f + 52)" using ef by (intro pow2_mono) simp
    also have "\<dots> = of_int (2 ^ 52) * pow2 f" by (simp add: pow2_add pow2_nat)
    also have "\<dots> \<le> rnd y"
    proof -
      have "pow2 (f + 52) \<le> y" using k(1) fk by simp
      then have "of_int (2 ^ 52) \<le> y / pow2 f" by (simp add: le_divide_eq pow2_add pow2_nat mult.commute)
      then have "2 ^ 52 \<le> rhe (y / pow2 f)" by (rule rhe_ge_power)
      then show ?thesis
        unfolding ry by (intro mult_right_mono) (simp_all only: of_int_le_iff pow2_pos order_less_imp_le)
    qed
    finally show ?thesis .
  qed
qed

lemma rnd_mono: "0 \<le> x \<Longrightarrow> x \<le> y \<Longrightarrow> rnd x \<le> rnd y"
  by (cases "x = 0") (auto simp: rnd_nonneg intro: rnd_mono_pos)

text \<open>Numbers with at most 53 significant bits are not changed.\<close>

lemma rnd_representable:
  assumes "0 \<le> m" and "m < 2 ^ 53" and "- 1074 \<le> e"
  shows "rnd (of_int m * pow2 e) = of_int m * pow2 e"
proof (cases "m = 0")
  case False
  let ?x = "of_int m * pow2 e"
  have "0 < ?x" using assms False by simp
  from rnd_shape[OF this] obtain l f where
    l: "pow2 l \<le> ?x" and f: "f = max (l - 52) (- 1074)"
    and r: "rnd ?x = of_int (rhe (?x / pow2 f)) * pow2 f" by metis
  have "of_int m < (of_int (2 ^ 53) :: rat)" using assms(2) by (simp only: of_int_less_iff)
  then have "?x < pow2 53 * pow2 e"
    by (intro mult_strict_right_mono) (simp_all add: pow2_nat)
  with l have "pow2 l < pow2 (53 + e)" unfolding pow2_add by (rule le_less_trans)
  then have fe: "f \<le> e" using f assms(3) by (simp add: pow2_less_iff)
  then have "?x / pow2 f = of_int (m * 2 ^ nat (e - f))"
    using pow2_eq_mult[of e f] by (simp add: pow2_nat)
  then show ?thesis using r by (metis rhe_of_int nonzero_divide_eq_eq pow2_nonzero)
qed simp

lemma rnd_representable_le:
  assumes "0 \<le> m" and "m \<le> 2 ^ 53" and "- 1074 \<le> e"
  shows "rnd (of_int m * pow2 e) = of_int m * pow2 e"
proof (cases "m = 2 ^ 53")
  case True
  then have "of_int m * pow2 e = of_int (2 ^ 52) * pow2 (e + 1)"
    by (simp add: pow2_add pow2_nat)
  then show ?thesis using rnd_representable[of "2 ^ 52" "e + 1"] assms(3) by simp
next
  case False
  with assms show ?thesis by (intro rnd_representable) simp_all
qed

lemma rnd_pow2: "- 1074 \<le> e \<Longrightarrow> rnd (pow2 e) = pow2 e"
  using rnd_representable[of 1 e] by simp

text \<open>Rounding twice is rounding once: the result of an operation is a representable number.\<close>

lemma rnd_idem: "0 \<le> x \<Longrightarrow> rnd (rnd x) = rnd x"
proof (cases "x = 0")
  case False
  assume "0 \<le> x"
  with False have "0 < x" by simp
  from rnd_shape[OF this] obtain l e where
    l: "x < pow2 (l + 1)" and e: "e = max (l - 52) (- 1074)"
    and r: "rnd x = of_int (rhe (x / pow2 e)) * pow2 e" by metis
  have "x \<le> pow2 (e + 53)"
    using l pow2_mono[of "l + 1" "e + 53"] e by linarith
  then have "x / pow2 e \<le> of_int (2 ^ 53)"
    by (simp add: divide_le_eq pow2_add pow2_nat mult.commute)
  then have "rhe (x / pow2 e) \<le> 2 ^ 53" by (rule rhe_le_power)
  moreover have "0 \<le> rhe (x / pow2 e)"
    using \<open>0 < x\<close> by (intro rhe_ge_power) (simp add: order_less_imp_le)
  ultimately show ?thesis using r rnd_representable_le e by simp
qed simp

lemma rnd_of_int: "0 \<le> m \<Longrightarrow> m < 2 ^ 53 \<Longrightarrow> rnd (of_int m) = of_int m"
  using rnd_representable[of m 0] by (simp add: pow2_def)

lemma rnd_one [simp]: "rnd 1 = 1"
  using rnd_of_int[of 1] by simp

lemma rnd_le_1: "0 \<le> x \<Longrightarrow> x \<le> 1 \<Longrightarrow> rnd x \<le> 1"
  using rnd_mono[of x 1] by simp

section \<open>Finite, non-negative arithmetic\<close>

text \<open>
  The scores are sums and products of numbers in small intervals; \<open>in_range\<close> states that a float
  is finite, representable and in an interval, and the lemmas below propagate it.
\<close>

definition in_range :: "rat \<Rightarrow> rat \<Rightarrow> f64 \<Rightarrow> bool" where
  "in_range lo hi x \<longleftrightarrow> (\<exists>a. x = Fin a \<and> rnd a = a \<and> lo \<le> a \<and> a \<le> hi)"

definition big :: rat where
  "big = 2 ^ 1000"

lemma big_pow2: "big = pow2 1000"
  by (simp add: big_def pow2_nat)

lemma overflows_bound:
  assumes "0 \<le> r" and "r \<le> big"
  shows "\<not> overflows r"
proof
  assume o: "overflows r"
  obtain a b where ab: "quotient_of r = (a, b)" by fastforce
  then have b: "0 < b" and r: "r = of_int a / of_int b"
    by (auto intro: quotient_of_denom_pos quotient_of_div)
  have a: "0 < a" and il: "1024 \<le> ilog2 a b"
    using o ab b r assms(1) by (auto simp: overflows_def zero_le_divide_iff)
  have "pow2 1000 < pow2 1024" by (rule pow2_strict_mono) simp
  also have "\<dots> \<le> pow2 (ilog2 a b)" using il by (rule pow2_mono)
  also have "\<dots> \<le> r" using ilog2_bounds(1)[OF a b] r by simp
  finally show False using assms(2) by (simp add: big_pow2)
qed

lemma f64_round_small:
  assumes "0 \<le> x" and "x \<le> big"
  shows "f64_round x = Fin (rnd x)"
proof -
  have "rnd x \<le> rnd big" using assms by (rule rnd_mono)
  also have "\<dots> = big" by (simp add: big_pow2 rnd_pow2)
  finally show ?thesis
    using overflows_bound rnd_nonneg[OF assms(1)] by (simp add: f64_round_def)
qed

lemma in_range_round:
  assumes "0 \<le> x" and "lo \<le> rnd x" and "rnd x \<le> hi" and "x \<le> big"
  shows "in_range lo hi (f64_round x)"
  using assms by (auto simp: in_range_def f64_round_small rnd_idem)

text \<open>Bounds that are themselves representable are kept by rounding.\<close>

lemma in_range_round_le:
  assumes "0 \<le> x" and "x \<le> hi" and "rnd hi = hi" and "hi \<le> big"
  shows "in_range 0 hi (f64_round x)"
  using assms rnd_mono[of x hi] by (intro in_range_round) (auto simp: rnd_nonneg)

lemma in_range_weaken: "in_range lo hi x \<Longrightarrow> lo' \<le> lo \<Longrightarrow> hi \<le> hi' \<Longrightarrow> in_range lo' hi' x"
  by (auto simp: in_range_def)

lemma in_range_Fin: "in_range lo hi x \<Longrightarrow> \<exists>a. x = Fin a"
  by (auto simp: in_range_def)

lemma one_le_big [simp]: "1 \<le> big" and two_le_big: "2 \<le> big"
  by (simp_all add: big_def)

lemma numeral_le_big: "(of_int (2 ^ 60) :: rat) \<le> big"
  by (simp add: big_def)

lemma in_range_fadd:
  assumes "in_range 0 h x" and "in_range 0 k y" and "rnd (h + k) = h + k" and "h + k \<le> big"
  shows "in_range 0 (h + k) (fadd x y)"
proof -
  from assms(1,2) obtain a b where "x = Fin a" "0 \<le> a" "a \<le> h" "y = Fin b" "0 \<le> b" "b \<le> k"
    by (auto simp: in_range_def)
  with assms(3,4) show ?thesis by (auto intro: in_range_round_le)
qed

lemma in_range_fmul:
  assumes "in_range 0 h x" and "in_range 0 k y" and "rnd (h * k) = h * k" and "h * k \<le> big"
  shows "in_range 0 (h * k) (fmul x y)"
proof -
  from assms(1,2) obtain a b where "x = Fin a" "0 \<le> a" "a \<le> h" "y = Fin b" "0 \<le> b" "b \<le> k"
    by (auto simp: in_range_def)
  with assms(3,4) show ?thesis by (auto intro!: in_range_round_le mult_mono)
qed

text \<open>A quotient of a smaller by a larger positive number, and one minus such a quotient.\<close>

lemma in_range_fdiv_unit:
  assumes "0 \<le> a" and "a \<le> b" and "0 < b"
  shows "in_range 0 1 (fdiv (Fin a) (Fin b))"
  using assms by (auto intro!: in_range_round_le)

lemma in_range_one_minus:
  assumes "in_range 0 1 x"
  shows "in_range 0 1 (fsub (Fin 1) x)"
proof -
  from assms obtain a where "x = Fin a" "0 \<le> a" "a \<le> 1" by (auto simp: in_range_def)
  then show ?thesis by (auto simp: fsub_def intro!: in_range_round_le)
qed

lemma f64_of_int_exact:
  assumes "0 \<le> n" and "n < 2 ^ 53"
  shows "f64_of_int n = Fin (of_int n)"
proof -
  have "(of_int n :: rat) \<le> of_int (2 ^ 53)" using assms by (simp only: of_int_le_iff)
  also have "\<dots> \<le> big" by (simp add: big_def)
  finally show ?thesis using assms by (simp add: f64_of_int_def f64_round_small rnd_of_int)
qed

lemma f64_const_one [simp]: "f64_const 1 = Fin 1" and f64_const_zero [simp]: "f64_const 0 = Fin 0"
  by (simp_all add: f64_const_def f64_round_small big_def)

text \<open>Adding one more exact unit stays exact below \<open>2 ^ 53\<close>.\<close>

lemma fadd_of_int_exact:
  assumes "0 \<le> m" and "0 \<le> n" and "m + n < 2 ^ 53"
  shows "fadd (Fin (of_int m)) (Fin (of_int n)) = Fin (of_int (m + n))"
  using f64_of_int_exact[of "m + n"] assms by (simp add: f64_of_int_def)

end
