(* ===== verification/Node_State.thy ===== *)
theory Node_State
  imports Protocol_Message Replay Float64
begin

text \<open>
  The state of a node (\<open>node/types.go\<close>, the struct of \<open>node/node.go\<close>), its store operations
  (\<open>node/store.go\<close>) and the validation of transfers (\<open>node/handlers.go\<close>).

  A comma-ok result of Go is an option. \<open>n.now()\<close> reads the field \<open>clock\<close>, which stands still
  while a message is handled; \<open>SetNowFunc\<close> and the passing of time change it between messages.
  A \<open>*Node\<close> in the map \<open>peers\<close> is an address in the network (\<open>Node_Network\<close>) or nil.
\<close>

section \<open>Types\<close>

type_synonym status = string

definition StatusPending :: status where "StatusPending = ''PENDING''"
definition StatusSelected :: status where "StatusSelected = ''SELECTED''"
definition StatusFinal :: status where "StatusFinal = ''FINAL''"

lemma status_distinct [simp]:
  shows "StatusPending \<noteq> StatusSelected" and "StatusSelected \<noteq> StatusPending"
    and "StatusPending \<noteq> StatusFinal" and "StatusFinal \<noteq> StatusPending"
    and "StatusSelected \<noteq> StatusFinal" and "StatusFinal \<noteq> StatusSelected"
  by (simp_all add: StatusPending_def StatusSelected_def StatusFinal_def)

record tx_record =
  Tx :: transfer
  Canonical :: bytes
  FirstSeen :: int64
  ArrivalSeq :: int64
  SeenCount :: nat
  Peers :: "(peer_id, int64) go_map"

record selected_lineage =
  slTxID :: hash
  slScore :: f64
  UpdatedAt :: int64

record finality_state =
  fsScore :: f64
  Confidence :: f64
  Status :: status

record proof_record =
  prPeerID :: peer_id
  prSeen :: bool
  prSeenTime :: int64
  prConflict :: bool
  prDistance :: int64

record sent_message =
  To :: peer_id
  sMessage :: message

record node =
  nodeID :: peer_id
  clock :: int64
  sender :: "(peer_id \<Rightarrow> message \<Rightarrow> error option) option"
  txStore :: "(hash, tx_record) go_map"
  valueStore :: "(hash, web4_value) go_map"
  conflictSets :: "(hash, hash list) go_map"
  selectedLineage :: "(hash, selected_lineage) go_map"
  finalityState :: "(hash, finality_state) go_map"
  peerObservations :: "(hash, (peer_id, int64) go_map) go_map"
  proofStore :: "(hash, (peer_id, proof_record) go_map) go_map"
  replayCache :: replay_cache
  inputTracker :: input_tracker
  peers :: "(peer_id, nat option) go_map"
  sent :: "sent_message list"
  arrivalSeq :: int64

text \<open>
  What the node takes from outside: the primitives of \<open>crypto\<close>; \<open>math.Log\<close>, whose last bit differs
  between the architectures Go supports; the order in which a \<open>range\<close> over the proofs of a
  transfer visits them, which Go leaves open; and the random message identifiers.
\<close>

record env =
  crypt :: prims
  mathLog :: "f64 \<Rightarrow> f64"
  proofOrder :: "hash \<Rightarrow> (peer_id, proof_record) go_map \<Rightarrow> (peer_id \<times> proof_record) list"
  randID :: "nat \<Rightarrow> message_id"

section \<open>Construction and accessors (node.go)\<close>

definition NewNode :: "peer_id \<Rightarrow> int64 \<Rightarrow> node" where
  "NewNode i wall =
     \<lparr>nodeID = i, clock = wall, sender = None, txStore = [], valueStore = [], conflictSets = [],
      selectedLineage = [], finalityState = [], peerObservations = [], proofStore = [],
      replayCache = NewReplayCache 60 wall, inputTracker = NewInputTracker,
      peers = [], sent = [], arrivalSeq = 0\<rparr>"

definition AddPeer :: "node \<Rightarrow> peer_id \<Rightarrow> nat \<Rightarrow> node" where
  "AddPeer n pid addr = n\<lparr>peers := mput pid (Some addr) (peers n)\<rparr>"

definition AddPeerID :: "node \<Rightarrow> peer_id \<Rightarrow> node" where
  "AddPeerID n pid =
     (if map_of (peers n) pid \<noteq> None then n else n\<lparr>peers := mput pid None (peers n)\<rparr>)"

definition SetSender :: "node \<Rightarrow> (peer_id \<Rightarrow> message \<Rightarrow> error option) option \<Rightarrow> node" where
  "SetSender n s = n\<lparr>sender := s\<rparr>"

definition SetNowFunc :: "node \<Rightarrow> int64 \<Rightarrow> node" where
  "SetNowFunc n t = n\<lparr>clock := t\<rparr>"

definition SeedValue :: "prims \<Rightarrow> node \<Rightarrow> web4_value \<Rightarrow> node" where
  "SeedValue P n v =
     (let v = v\<lparr>vID := ComputeValueID P v\<rparr> in n\<lparr>valueStore := mput (vID v) v (valueStore n)\<rparr>)"

definition hasTransfer :: "node \<Rightarrow> hash \<Rightarrow> bool" where
  "hasTransfer n txID = (map_of (txStore n) txID \<noteq> None)"

definition HasTransfer :: "node \<Rightarrow> hash \<Rightarrow> bool" where
  "HasTransfer n txID = hasTransfer n txID"

definition ConflictSet :: "node \<Rightarrow> hash \<Rightarrow> hash list" where
  "ConflictSet n input = mget0 (conflictSets n) input"

definition SelectedForInput :: "node \<Rightarrow> hash \<Rightarrow> hash option" where
  "SelectedForInput n input = map_option slTxID (map_of (selectedLineage n) input)"

definition FinalityForTransfer :: "node \<Rightarrow> hash \<Rightarrow> finality_state option" where
  "FinalityForTransfer n txID = map_of (finalityState n) txID"

definition Transfer :: "node \<Rightarrow> hash \<Rightarrow> transfer option" where
  "Transfer n txID = map_option Tx (map_of (txStore n) txID)"

definition SentMessages :: "node \<Rightarrow> sent_message list" where
  "SentMessages n = sent n"

text \<open>The keys of \<open>peers\<close> but one, in the order of Go's string comparison.\<close>

definition peerIDsExcept :: "node \<Rightarrow> peer_id \<Rightarrow> peer_id list" where
  "peerIDsExcept n skip = sort (filter (\<lambda>p. p \<noteq> skip) (map fst (peers n)))"

section \<open>Store (store.go)\<close>

definition observePeer :: "node \<Rightarrow> hash \<Rightarrow> peer_id \<Rightarrow> node" where
  "observePeer n txID from =
     (if from = [] then n
      else
        let ps = mput from (clock n) (mget0 (peerObservations n) txID);
            n = n\<lparr>peerObservations := mput txID ps (peerObservations n)\<rparr>
        in case map_of (txStore n) txID of
             None \<Rightarrow> n
           | Some r \<Rightarrow>
               let rps = mput from (clock n) (Peers r)
               in n\<lparr>txStore := mput txID (r\<lparr>Peers := rps, SeenCount := length rps\<rparr>) (txStore n)\<rparr>)"

fun containsHash :: "hash list \<Rightarrow> hash \<Rightarrow> bool" where
  "containsHash [] target = False"
| "containsHash (v # vs) target = (if v = target then True else containsHash vs target)"

lemma containsHash_iff [simp]: "containsHash vs target \<longleftrightarrow> target \<in> set vs"
  by (induction vs) auto

fun addConflictMembership :: "node \<Rightarrow> hash \<Rightarrow> hash list \<Rightarrow> node" where
  "addConflictMembership n txID [] = n"
| "addConflictMembership n txID (i # is) =
     (let txIDs = mget0 (conflictSets n) i
      in if containsHash txIDs txID then addConflictMembership n txID is
         else addConflictMembership (n\<lparr>conflictSets := mput i (txIDs @ [txID]) (conflictSets n)\<rparr>) txID is)"

definition updateProof :: "node \<Rightarrow> hash \<Rightarrow> proof_record \<Rightarrow> node" where
  "updateProof n txID p =
     n\<lparr>proofStore := mput txID (mput (prPeerID p) p (mget0 (proofStore n) txID)) (proofStore n)\<rparr>"

definition normalizeTransfer :: "prims \<Rightarrow> transfer \<Rightarrow> transfer" where
  "normalizeTransfer P t =
     (let t = t\<lparr>Outputs := map (\<lambda>v. v\<lparr>vID := ComputeValueID P v\<rparr>) (Outputs t)\<rparr>
      in t\<lparr>tID := ComputeTransferID P t\<rparr>)"

fun storeOutputs :: "node \<Rightarrow> web4_value list \<Rightarrow> node" where
  "storeOutputs n [] = n"
| "storeOutputs n (v # vs) = storeOutputs (n\<lparr>valueStore := mput (vID v) v (valueStore n)\<rparr>) vs"

text \<open>\<open>record.SeenCount = len(record.Peers)\<close>, through the pointer in the store.\<close>

definition setSeenCount :: "node \<Rightarrow> hash \<Rightarrow> node" where
  "setSeenCount n txID =
     (case map_of (txStore n) txID of
        None \<Rightarrow> n
      | Some r \<Rightarrow> n\<lparr>txStore := mput txID (r\<lparr>SeenCount := length (Peers r)\<rparr>) (txStore n)\<rparr>)"

text \<open>The error result of \<open>upsertTransfer\<close> is always nil; it returns the ID and whether it inserted.\<close>

definition upsertTransfer ::
  "prims \<Rightarrow> node \<Rightarrow> transfer \<Rightarrow> bytes \<Rightarrow> peer_id \<Rightarrow> node \<times> hash \<times> bool" where
  "upsertTransfer P n t canonical from =
     (let t = normalizeTransfer P t;
          t = t\<lparr>tID := ComputeTransferID P t\<rparr>
      in if map_of (txStore n) (tID t) \<noteq> None
         then (setSeenCount (observePeer n (tID t) from) (tID t), tID t, False)
         else
           let n = n\<lparr>arrivalSeq := arrivalSeq n + 1\<rparr>;
               r = \<lparr>Tx = t, Canonical = canonical, FirstSeen = clock n, ArrivalSeq = arrivalSeq n,
                    SeenCount = 0, Peers = []\<rparr>;
               n = n\<lparr>txStore := mput (tID t) r (txStore n)\<rparr>;
               n = storeOutputs n (Outputs t);
               n = observePeer n (tID t) from;
               n = setSeenCount n (tID t);
               n = addConflictMembership n (tID t) (Inputs t)
           in (n, tID t, True))"

section \<open>Validation (handlers.go)\<close>

text \<open>A nil owner and an empty one are the same slice value to the code: \<open>append(nil)\<close> of nothing is nil.\<close>

fun resolveSigner_loop :: "node \<Rightarrow> bytes \<Rightarrow> hash list \<Rightarrow> error + bytes" where
  "resolveSigner_loop n owner [] = Inr owner"
| "resolveSigner_loop n owner (i # is) =
     (case map_of (valueStore n) i of
        None \<Rightarrow> Inl (UnknownInput i)
      | Some v \<Rightarrow>
          if owner = [] then resolveSigner_loop n (Owner v) is
          else if owner \<noteq> Owner v then Inl DifferentOwners
          else resolveSigner_loop n owner is)"

definition resolveSigner :: "node \<Rightarrow> hash list \<Rightarrow> error + bytes" where
  "resolveSigner n inputs = resolveSigner_loop n [] inputs"

fun checkExpiry :: "int64 \<Rightarrow> nat \<Rightarrow> web4_value list \<Rightarrow> error + unit" where
  "checkExpiry now i [] = Inr ()"
| "checkExpiry now i (v # vs) =
     (if Expiry v \<noteq> 0 \<and> sint (Expiry v) \<le> sint now then Inl (OutputExpired i)
      else checkExpiry now (Suc i) vs)"

definition validateTransfer :: "prims \<Rightarrow> node \<Rightarrow> transfer \<Rightarrow> error + unit" where
  "validateTransfer P n t =
     (if length (Inputs t) = 0 then Inl NoInputs
      else if length (Outputs t) = 0 then Inl NoOutputs
      else if seen_before [] (Inputs t) then Inl ErrInputConsumed
      else
        bindE (checkExpiry (clock n) 0 (Outputs t)) (\<lambda>_.
        bindE (resolveSigner n (Inputs t)) (\<lambda>owner.
          if length owner \<noteq> 32 then Inl (InvalidOwnerKeyLength (length owner))
          else if \<not> VerifyCanonicalTransfer P owner t (Sig t) then Inl InvalidSignature
          else Inr ())))"

fun anyConflict :: "node \<Rightarrow> hash list \<Rightarrow> bool" where
  "anyConflict n [] = False"
| "anyConflict n (i # is) = (if length (mget0 (conflictSets n) i) > 1 then True else anyConflict n is)"

definition hasConflict :: "node \<Rightarrow> hash \<Rightarrow> bool" where
  "hasConflict n txID =
     (case map_of (txStore n) txID of None \<Rightarrow> False | Some r \<Rightarrow> anyConflict n (Inputs (Tx r)))"

end
