(* ===== verification/Node_Selection.thy ===== *)
theory Node_Selection
  imports Node_State
begin

text \<open>
  \<open>node/selection.go\<close> and \<open>node/finality.go\<close>: the score of a transfer among the transfers that spend
  the same input, the choice of one of them, its confidence and its finality, on binary64 floats.

  Two orders of the code are not its own: \<open>range\<close> over the proofs of a transfer (\<open>proofOrder\<close>), and
  \<open>sort.Slice\<close>, whose result is determined because the keys compared are all different.
\<close>

section \<open>Constants\<close>

definition weightFirstSeen :: f64 where "weightFirstSeen = f64_const (35 / 100)"
definition weightPropagation :: f64 where "weightPropagation = f64_const (20 / 100)"
definition weightTime :: f64 where "weightTime = f64_const (20 / 100)"
definition weightProof :: f64 where "weightProof = f64_const (20 / 100)"
definition weightConflict :: f64 where "weightConflict = f64_const (5 / 100)"
definition proofSmoothing :: f64 where "proofSmoothing = f64_const 1"
definition stabilityTau :: f64 where "stabilityTau = f64_const 30"
definition confidencePropagation :: f64 where "confidencePropagation = f64_const (30 / 100)"
definition confidenceTime :: f64 where "confidenceTime = f64_const (35 / 100)"
definition confidenceProof :: f64 where "confidenceProof = f64_const (35 / 100)"
definition thresholdSmall :: f64 where "thresholdSmall = f64_const (45 / 100)"
definition thresholdMedium :: f64 where "thresholdMedium = f64_const (70 / 100)"
definition thresholdLarge :: f64 where "thresholdLarge = f64_const (88 / 100)"
definition tierSmallMax :: uint64 where "tierSmallMax = 50000"
definition tierMediumMax :: uint64 where "tierMediumMax = 500000"

record score_breakdown =
  sbTxID :: hash
  Score :: f64
  FirstSeenScore :: f64
  PropagationScore :: f64
  TimeStabilityScore :: f64
  NeighborhoodScore :: f64
  ConflictCleanliness :: f64

record selection_snapshot =
  snTxID :: hash
  snScore :: f64
  snFirstSeenScore :: f64
  snPropagationScore :: f64
  snTimeStabilityScore :: f64
  snNeighborhoodScore :: f64
  snConflictCleanliness :: f64

section \<open>Signals\<close>

definition distanceWeight :: "int64 \<Rightarrow> f64" where
  "distanceWeight distance =
     (if distance = 0 \<or> distance = 1 then f64_const 1
      else if distance = 2 then f64_const (6 / 10) else f64_const (3 / 10))"

definition timeStability :: "node \<Rightarrow> hash \<Rightarrow> f64" where
  "timeStability n txID =
     (case map_of (txStore n) txID of
        None \<Rightarrow> f64_const 0
      | Some r \<Rightarrow>
          let age = f64_of_int (sint (clock n - FirstSeen r));
              age = (if flt age (f64_const 0) then f64_const 0 else age)
          in if fle stabilityTau age then f64_const 1 else fdiv age stabilityTau)"

fun proofWeight_loop :: "f64 \<Rightarrow> (peer_id \<times> proof_record) list \<Rightarrow> f64" where
  "proofWeight_loop w [] = w"
| "proofWeight_loop w ((_, p) # ps) =
     (if \<not> prSeen p \<or> prConflict p then proofWeight_loop w ps
      else proofWeight_loop (fadd w (distanceWeight (prDistance p))) ps)"

definition proofWeight :: "env \<Rightarrow> node \<Rightarrow> hash \<Rightarrow> f64" where
  "proofWeight E n txID =
     proofWeight_loop (f64_const 0) (proofOrder E txID (mget0 (proofStore n) txID))"

fun cleanliness_loop :: "f64 \<Rightarrow> f64 \<Rightarrow> (peer_id \<times> proof_record) list \<Rightarrow> f64 \<times> f64" where
  "cleanliness_loop c m [] = (c, m)"
| "cleanliness_loop c m ((_, p) # ps) =
     cleanliness_loop (if prConflict p then fadd c (f64_const 1) else c) (fadd m (f64_const 1)) ps"

definition conflictCleanliness :: "env \<Rightarrow> node \<Rightarrow> hash \<Rightarrow> hash \<Rightarrow> f64" where
  "conflictCleanliness E n input txID =
     (let len = int (length (mget0 (conflictSets n) input));
          conflictSignals = f64_const 0;
          maxSignals = f64_of_int (len - 1);
          conflictSignals = (if len > 1 then fadd conflictSignals (f64_of_int (len - 1)) else conflictSignals);
          (conflictSignals, maxSignals) =
            cleanliness_loop conflictSignals maxSignals (proofOrder E txID (mget0 (proofStore n) txID))
      in fsub (f64_const 1) (fdiv conflictSignals (fadd maxSignals (f64_const 1))))"

section \<open>Scores and the choice of the best\<close>

definition scoreTx :: "env \<Rightarrow> node \<Rightarrow> hash \<Rightarrow> hash list \<Rightarrow> nat \<Rightarrow> score_breakdown" where
  "scoreTx E n input ranked rank =
     (let txID = ranked ! rank;
          firstSeen = fdiv (f64_const 1) (fadd (f64_const 1) (f64_of_int (int rank)));
          propagation = mathLog E (fadd (f64_const 1)
            (f64_of_int (int (length (mget0 (peerObservations n) txID)))));
          stability = timeStability n txID;
          weight = proofWeight E n txID;
          neighborhood = fdiv weight (fadd weight proofSmoothing);
          cleanliness = conflictCleanliness E n input txID;
          score = fadd (fadd (fadd (fadd (fmul weightFirstSeen firstSeen)
            (fmul weightPropagation propagation)) (fmul weightTime stability))
            (fmul weightProof neighborhood)) (fmul weightConflict cleanliness)
      in \<lparr>sbTxID = txID, Score = score, FirstSeenScore = firstSeen, PropagationScore = propagation,
          TimeStabilityScore = stability, NeighborhoodScore = neighborhood,
          ConflictCleanliness = cleanliness\<rparr>)"

text \<open>\<open>left > right\<close> is \<open>flt right left\<close>; \<open>bytes.Compare(l, r) < 0\<close> is the order of byte lists.\<close>

definition betterScore :: "score_breakdown \<Rightarrow> score_breakdown \<Rightarrow> bool" where
  "betterScore l r =
     (if \<not> feq (Score l) (Score r) then flt (Score r) (Score l)
      else if \<not> feq (FirstSeenScore l) (FirstSeenScore r)
        then flt (FirstSeenScore r) (FirstSeenScore l)
      else if \<not> feq (PropagationScore l) (PropagationScore r)
        then flt (PropagationScore r) (PropagationScore l)
      else if \<not> feq (TimeStabilityScore l) (TimeStabilityScore r)
        then flt (TimeStabilityScore r) (TimeStabilityScore l)
      else if \<not> feq (NeighborhoodScore l) (NeighborhoodScore r)
        then flt (NeighborhoodScore r) (NeighborhoodScore l)
      else sbTxID l < sbTxID r)"

text \<open>
  Sorting by arrival reads the record of every element it compares; a missing record is a nil
  pointer. A slice of at most one element is not compared.
\<close>

definition arrivalOf :: "node \<Rightarrow> hash \<Rightarrow> int" where
  "arrivalOf n txID = (case map_of (txStore n) txID of None \<Rightarrow> 0 | Some r \<Rightarrow> sint (ArrivalSeq r))"

definition rankByArrival :: "node \<Rightarrow> hash list \<Rightarrow> error + hash list" where
  "rankByArrival n txIDs =
     (if length txIDs > 1 \<and> list_ex (\<lambda>t. \<not> hasTransfer n t) txIDs then Inl PanicNilDeref
      else Inr (sort_key (\<lambda>t. (arrivalOf n t, t)) txIDs))"

fun best_loop :: "(nat \<Rightarrow> score_breakdown) \<Rightarrow> score_breakdown \<Rightarrow> nat list \<Rightarrow> score_breakdown" where
  "best_loop f best [] = best"
| "best_loop f best (rank # ranks) =
     (let candidate = f rank
      in best_loop f (if betterScore candidate best then candidate else best) ranks)"

definition selectBest :: "env \<Rightarrow> node \<Rightarrow> hash \<Rightarrow> hash list \<Rightarrow> error + score_breakdown" where
  "selectBest E n input txIDs =
     bindE (rankByArrival n txIDs) (\<lambda>ranked.
       if ranked = [] then Inl PanicSliceBounds
       else Inr (best_loop (scoreTx E n input ranked) (scoreTx E n input ranked 0) [1..<length ranked]))"

fun find_rank :: "hash list \<Rightarrow> hash \<Rightarrow> nat \<Rightarrow> nat option" where
  "find_rank [] txID i = None"
| "find_rank (t # ts) txID i = (if t \<noteq> txID then find_rank ts txID (Suc i) else Some i)"

definition snapshot_of :: "score_breakdown \<Rightarrow> selection_snapshot" where
  "snapshot_of s =
     \<lparr>snTxID = sbTxID s, snScore = Score s, snFirstSeenScore = FirstSeenScore s,
      snPropagationScore = PropagationScore s, snTimeStabilityScore = TimeStabilityScore s,
      snNeighborhoodScore = NeighborhoodScore s, snConflictCleanliness = ConflictCleanliness s\<rparr>"

definition SelectionForInputTx ::
  "env \<Rightarrow> node \<Rightarrow> hash \<Rightarrow> hash \<Rightarrow> error + selection_snapshot option" where
  "SelectionForInputTx E n input txID =
     (let txIDs = mget0 (conflictSets n) input
      in if length txIDs = 0 \<or> \<not> containsHash txIDs txID then Inr None
         else bindE (rankByArrival n txIDs) (\<lambda>ranked.
           case find_rank ranked txID 0 of
             None \<Rightarrow> Inr None
           | Some rank \<Rightarrow> Inr (Some (snapshot_of (scoreTx E n input ranked rank)))))"

section \<open>Confidence and finality (finality.go)\<close>

text \<open>The sum of the output amounts, in \<open>uint64\<close>: it wraps.\<close>

fun amount_loop :: "uint64 \<Rightarrow> web4_value list \<Rightarrow> uint64" where
  "amount_loop acc [] = acc"
| "amount_loop acc (v # vs) = amount_loop (acc + Amount v) vs"

definition transferAmount :: "transfer \<Rightarrow> uint64" where
  "transferAmount t = amount_loop 0 (Outputs t)"

definition finalityThreshold :: "transfer \<Rightarrow> f64" where
  "finalityThreshold t =
     (let amount = transferAmount t
      in if amount < tierSmallMax then thresholdSmall
         else if amount < tierMediumMax then thresholdMedium else thresholdLarge)"

definition weightLogCount :: "env \<Rightarrow> nat \<Rightarrow> f64" where
  "weightLogCount E cnt =
     (if cnt = 0 then f64_const 0 else mathLog E (fadd (f64_const 1) (f64_of_int (int cnt))))"

definition propagationScore :: "env \<Rightarrow> (peer_id, int64) go_map \<Rightarrow> f64" where
  "propagationScore E ps = weightLogCount E (length ps)"

definition computeConfidence :: "env \<Rightarrow> node \<Rightarrow> hash \<Rightarrow> f64" where
  "computeConfidence E n txID =
     (let propagation = propagationScore E (mget0 (peerObservations n) txID);
          stability = timeStability n txID;
          weight = proofWeight E n txID;
          neighborhood = fdiv weight (fadd weight proofSmoothing)
      in fadd (fadd (fmul confidencePropagation propagation) (fmul confidenceTime stability))
           (fmul confidenceProof neighborhood))"

text \<open>
  The loop over the inputs: whether the transfer is the selected one on each of them, and the
  score that the variable \<open>score\<close> holds when the loop ends or breaks.
\<close>

fun selected_loop :: "node \<Rightarrow> hash \<Rightarrow> f64 \<Rightarrow> hash list \<Rightarrow> bool \<times> f64" where
  "selected_loop n txID score [] = (True, score)"
| "selected_loop n txID score (i # is) =
     (case map_of (selectedLineage n) i of
        None \<Rightarrow> (False, score)
      | Some current \<Rightarrow>
          if slTxID current \<noteq> txID then (False, score)
          else selected_loop n txID (slScore current) is)"

definition updateFinalityForTransfer :: "env \<Rightarrow> node \<Rightarrow> hash \<Rightarrow> node" where
  "updateFinalityForTransfer E n txID =
     (case map_of (txStore n) txID of
        None \<Rightarrow> n
      | Some r \<Rightarrow>
          let (selected, score) = selected_loop n txID (f64_const 0) (Inputs (Tx r));
              state = \<lparr>fsScore = score, Confidence = f64_const 0, Status = StatusPending\<rparr>;
              state =
                (if selected then
                   let confidence = computeConfidence E n txID
                   in state\<lparr>Confidence := confidence,
                        Status := (if fle (finalityThreshold (Tx r)) confidence
                                   then StatusFinal else StatusSelected)\<rparr>
                 else state)
          in n\<lparr>finalityState := mput txID state (finalityState n)\<rparr>)"

section \<open>Recomputation (selection.go)\<close>

definition recomputeSelectionForInput :: "env \<Rightarrow> node \<Rightarrow> hash \<Rightarrow> error + node" where
  "recomputeSelectionForInput E n input =
     (let txIDs = mget0 (conflictSets n) input
      in if length txIDs = 0 then Inr (n\<lparr>selectedLineage := mdel input (selectedLineage n)\<rparr>)
         else bindE (selectBest E n input txIDs) (\<lambda>best.
           let n = n\<lparr>selectedLineage := mput input
                     \<lparr>slTxID = sbTxID best, slScore = Score best, UpdatedAt = clock n\<rparr>
                     (selectedLineage n)\<rparr>
           in Inr (fold (\<lambda>t n. updateFinalityForTransfer E n t) txIDs n)))"

fun recompute_inputs :: "env \<Rightarrow> node \<Rightarrow> hash list \<Rightarrow> error + node" where
  "recompute_inputs E n [] = Inr n"
| "recompute_inputs E n (i # is) =
     bindE (recomputeSelectionForInput E n i) (\<lambda>n. recompute_inputs E n is)"

definition recomputeSelectionForTransfer :: "env \<Rightarrow> node \<Rightarrow> hash \<Rightarrow> error + node" where
  "recomputeSelectionForTransfer E n txID =
     (case map_of (txStore n) txID of
        None \<Rightarrow> Inr n
      | Some r \<Rightarrow>
          bindE (recompute_inputs E n (Inputs (Tx r))) (\<lambda>n. Inr (updateFinalityForTransfer E n txID)))"

section \<open>Choosing a maximum\<close>

text \<open>
  The loop of \<open>selectBest\<close> relies on a comparison that orders the candidates it sees; over a domain
  without NaN it is a strict weak order, and then no candidate is better than the one it returns.
\<close>

locale choice =
  fixes better :: "'a \<Rightarrow> 'a \<Rightarrow> bool"
    and dom :: "'a \<Rightarrow> bool"
  assumes asym: "dom x \<Longrightarrow> dom y \<Longrightarrow> better x y \<Longrightarrow> \<not> better y x"
    and negtrans: "dom x \<Longrightarrow> dom y \<Longrightarrow> dom z \<Longrightarrow> \<not> better x y \<Longrightarrow> \<not> better y z \<Longrightarrow> \<not> better x z"
begin

definition maximal_in :: "'a set \<Rightarrow> 'a \<Rightarrow> bool" where
  "maximal_in S m \<longleftrightarrow> m \<in> S \<and> (\<forall>x \<in> S. \<not> better x m)"

lemma irrefl: "dom x \<Longrightarrow> \<not> better x x"
  using asym by blast

lemma maximal_in_singleton: "dom x \<Longrightarrow> maximal_in {x} x"
  by (simp add: maximal_in_def irrefl)

lemma maximal_in_step:
  assumes "\<forall>x \<in> insert c S. dom x" and "maximal_in S m"
  shows "maximal_in (insert c S) (if better c m then c else m)"
proof (cases "better c m")
  case True
  have m: "dom m" "dom c" using assms by (simp_all add: maximal_in_def)
  have "\<not> better x c" if "x \<in> S" for x
    using negtrans[of x m c] asym[OF m(2,1) True] assms that m by (simp add: maximal_in_def)
  then show ?thesis using True irrefl m by (simp add: maximal_in_def)
next
  case False
  then show ?thesis using assms by (simp add: maximal_in_def)
qed

end

definition finite_score :: "score_breakdown \<Rightarrow> bool" where
  "finite_score s \<longleftrightarrow> (\<exists>a b c d e. Score s = Fin a \<and> FirstSeenScore s = Fin b
     \<and> PropagationScore s = Fin c \<and> TimeStabilityScore s = Fin d \<and> NeighborhoodScore s = Fin e)"

fun fval :: "f64 \<Rightarrow> rat" where
  "fval (Fin a) = a"
| "fval _ = 0"

text \<open>On finite scores the tie-break chain is the lexicographic order of one tuple.\<close>

definition priority :: "score_breakdown \<Rightarrow> rat \<times> rat \<times> rat \<times> rat \<times> rat \<times> hash" where
  "priority s = (- fval (Score s), - fval (FirstSeenScore s), - fval (PropagationScore s),
     - fval (TimeStabilityScore s), - fval (NeighborhoodScore s), sbTxID s)"

lemma lex_step:
  assumes "P \<longleftrightarrow> x < y"
  shows "(if \<not> feq (Fin a) (Fin b) then flt (Fin b) (Fin a) else P) \<longleftrightarrow> (- a, x) < (- b, y)"
  using assms by (auto simp: less_prod_def)

lemma betterScore_priority:
  assumes "finite_score l" and "finite_score r"
  shows "betterScore l r \<longleftrightarrow> priority l < priority r"
proof -
  from assms obtain a b c d e a' b' c' d' e' where
    l: "Score l = Fin a" "FirstSeenScore l = Fin b" "PropagationScore l = Fin c"
      "TimeStabilityScore l = Fin d" "NeighborhoodScore l = Fin e"
    and r: "Score r = Fin a'" "FirstSeenScore r = Fin b'" "PropagationScore r = Fin c'"
      "TimeStabilityScore r = Fin d'" "NeighborhoodScore r = Fin e'"
    unfolding finite_score_def by blast
  show ?thesis
    unfolding betterScore_def priority_def l r fval.simps by (intro lex_step refl)
qed

interpretation pick: choice betterScore finite_score
  by unfold_locales (simp_all add: betterScore_priority)

lemma best_loop_maximal:
  assumes "\<forall>r \<in> set ranks. finite_score (f r)" and "\<forall>x \<in> S. finite_score x"
    and "pick.maximal_in S best"
  shows "pick.maximal_in (S \<union> f ` set ranks) (best_loop f best ranks)"
  using assms
proof (induction ranks arbitrary: S best)
  case (Cons r ranks)
  have "pick.maximal_in (insert (f r) S) (if betterScore (f r) best then f r else best)"
    using Cons.prems by (intro pick.maximal_in_step) simp_all
  then have "pick.maximal_in (insert (f r) S \<union> f ` set ranks) (best_loop f best (r # ranks))"
    using Cons.IH[of "insert (f r) S"] Cons.prems by (simp add: Let_def)
  then show ?case by simp
qed simp

section \<open>Ranking\<close>

lemma sort_key_as_sort: "sort_key (\<lambda>t. (k t, t)) ts = map snd (sort (map (\<lambda>t. (k t, t)) ts))"
proof -
  have "map (\<lambda>t. (k t, t)) (sort_key (\<lambda>t. (k t, t)) ts) = sort (map (\<lambda>t. (k t, t)) ts)"
    by (rule properties_for_sort [symmetric]) (simp_all add: mset_map)
  then have "map snd (map (\<lambda>t. (k t, t)) (sort_key (\<lambda>t. (k t, t)) ts))
      = map snd (sort (map (\<lambda>t. (k t, t)) ts))" by simp
  then show ?thesis by (simp add: comp_def)
qed

text \<open>The ranking depends on which transfers conflict, not on the order they are listed in.\<close>

lemma rankByArrival_mset:
  assumes "mset ts = mset us"
  shows "rankByArrival n ts = rankByArrival n us"
proof -
  have "sort (map (\<lambda>t. (arrivalOf n t, t)) ts) = sort (map (\<lambda>t. (arrivalOf n t, t)) us)"
    by (rule properties_for_sort) (simp_all add: assms)
  moreover have "list_ex P ts = list_ex P us" for P
    using mset_eq_setD[OF assms] by (simp add: list_ex_iff)
  ultimately show ?thesis
    using mset_eq_length[OF assms] by (simp add: rankByArrival_def sort_key_as_sort)
qed

lemma rankByArrival_mset_eq: "rankByArrival n ts = Inr rs \<Longrightarrow> mset rs = mset ts"
  by (auto simp: rankByArrival_def split: if_splits)

lemma rankByArrival_stored:
  "\<forall>t \<in> set ts. hasTransfer n t \<Longrightarrow> rankByArrival n ts = Inr (sort_key (\<lambda>t. (arrivalOf n t, t)) ts)"
  by (auto simp: rankByArrival_def list_ex_iff)

lemma selectBest_mset: "mset ts = mset us \<Longrightarrow> selectBest E n i ts = selectBest E n i us"
  unfolding selectBest_def by (subst rankByArrival_mset) (assumption, rule refl)

text \<open>Whatever the scores, the transfer chosen is one of the candidates.\<close>

lemma best_loop_in: "best_loop f best ranks \<in> insert best (f ` set ranks)"
  by (induction ranks arbitrary: best) (auto simp: Let_def)

lemma sbTxID_scoreTx [simp]: "sbTxID (scoreTx E n i ranked k) = ranked ! k"
  by (simp add: scoreTx_def Let_def split: prod.split)

lemma selectBest_member:
  assumes "selectBest E n i ts = Inr b"
  shows "sbTxID b \<in> set ts"
proof -
  from assms obtain rs where rs: "rankByArrival n ts = Inr rs" "rs \<noteq> []"
    and b: "b = best_loop (scoreTx E n i rs) (scoreTx E n i rs 0) [1..<length rs]"
    by (auto simp: selectBest_def bindE_Inr_iff split: if_splits)
  have "b \<in> insert (scoreTx E n i rs 0) (scoreTx E n i rs ` set [1..<length rs])"
    unfolding b by (rule best_loop_in)
  then obtain k where "b = scoreTx E n i rs k" and "k < length rs" using rs(2) by auto
  then have "sbTxID b \<in> set rs" by auto
  then show ?thesis using mset_eq_setD[OF rankByArrival_mset_eq[OF rs(1)]] by simp
qed

lemma selectBest_total:
  assumes "ts \<noteq> []" and "\<forall>t \<in> set ts. hasTransfer n t"
  obtains b where "selectBest E n i ts = Inr b" and "sbTxID b \<in> set ts"
proof -
  have "length (sort_key (\<lambda>t. (arrivalOf n t, t)) ts) \<noteq> 0" using assms(1) by simp
  then have "sort_key (\<lambda>t. (arrivalOf n t, t)) ts \<noteq> []" by (simp only: length_0_conv not_False_eq_True)
  then obtain b where "selectBest E n i ts = Inr b"
    by (simp add: selectBest_def rankByArrival_stored[OF assms(2)])
  then show thesis using that selectBest_member by blast
qed

text \<open>With finite scores, the result is maximal among the scores of all candidates.\<close>

definition all_scores :: "env \<Rightarrow> node \<Rightarrow> hash \<Rightarrow> hash list \<Rightarrow> score_breakdown set" where
  "all_scores E n i ranked = scoreTx E n i ranked ` {..<length ranked}"

lemma selectBest_maximal:
  assumes "rankByArrival n ts = Inr rs" and "rs \<noteq> []" and "\<forall>s \<in> all_scores E n i rs. finite_score s"
  shows "\<exists>b. selectBest E n i ts = Inr b \<and> pick.maximal_in (all_scores E n i rs) b"
proof -
  let ?f = "scoreTx E n i rs"
  have ranks: "{?f 0} \<union> ?f ` set [1..<length rs] = all_scores E n i rs"
    using assms(2) by (force simp: all_scores_def image_iff not_less_eq_eq)
  have "pick.maximal_in {?f 0} (?f 0)"
    using assms ranks by (intro pick.maximal_in_singleton) auto
  then have "pick.maximal_in ({?f 0} \<union> ?f ` set [1..<length rs]) (best_loop ?f (?f 0) [1..<length rs])"
    using assms(3) ranks by (intro best_loop_maximal) auto
  then show ?thesis using assms(1,2) unfolding ranks by (simp add: selectBest_def)
qed

end
