(* ===== verification/Node_Inv.thy ===== *)
theory Node_Inv
  imports Node_Selection
begin

text \<open>
  The well-formedness of a node's state and its preservation by the store operations and by the
  recomputation of selection and finality. \<open>core_inv\<close> relates the stores to each other; \<open>sel_inv\<close> and
  \<open>fin_inv\<close> relate the selected lineages and the finality states to the conflict sets, and are
  stated relative to a set of inputs (a transfer) whose recomputation is still outstanding, because
  the code inserts a transfer first and recomputes afterwards.
\<close>

section \<open>Views of the state\<close>

definition txs :: "node \<Rightarrow> hash \<Rightarrow> transfer option" where
  "txs n t = map_option Tx (map_of (txStore n) t)"

abbreviation cset :: "node \<Rightarrow> hash \<Rightarrow> hash list" where
  "cset n i \<equiv> mget0 (conflictSets n) i"

definition selected_on :: "node \<Rightarrow> hash \<Rightarrow> hash option" where
  "selected_on n i = map_option slTxID (map_of (selectedLineage n) i)"

lemma txs_hasTransfer: "hasTransfer n t \<longleftrightarrow> txs n t \<noteq> None"
  by (simp add: hasTransfer_def txs_def)

section \<open>The invariant\<close>

definition transfer_wf :: "prims \<Rightarrow> hash \<Rightarrow> transfer \<Rightarrow> bool" where
  "transfer_wf P t x \<longleftrightarrow> tID x = t \<and> t = ComputeTransferID P x \<and> Inputs x \<noteq> [] \<and> distinct (Inputs x)
     \<and> Outputs x \<noteq> [] \<and> (\<forall>v \<in> set (Outputs x). vID v = ComputeValueID P v)
     \<and> (\<exists>owner. length owner = 32 \<and> VerifyCanonicalTransfer P owner x (Sig x))"

definition record_wf :: "node \<Rightarrow> hash \<Rightarrow> tx_record \<Rightarrow> bool" where
  "record_wf n t r \<longleftrightarrow> Canonical r = EncodeTransfer (Tx r) \<and> SeenCount r = length (Peers r)
     \<and> Peers r = mget0 (peerObservations n) t"

definition rec_inv :: "prims \<Rightarrow> node \<Rightarrow> bool" where
  "rec_inv P n \<longleftrightarrow>
     (\<forall>t x. txs n t = Some x \<longrightarrow> transfer_wf P t x)
   \<and> (\<forall>t r. map_of (txStore n) t = Some r \<longrightarrow> record_wf n t r)
   \<and> (\<forall>t. map_of (peerObservations n) t \<noteq> None \<longrightarrow> txs n t \<noteq> None)"

text \<open>The conflict set of an input is the set of stored transfers that spend it.\<close>

definition conf_inv :: "node \<Rightarrow> bool" where
  "conf_inv n \<longleftrightarrow>
     (\<forall>i t. t \<in> set (cset n i) \<longleftrightarrow> (\<exists>x. txs n t = Some x \<and> i \<in> set (Inputs x)))
   \<and> (\<forall>i. distinct (cset n i))"

definition val_inv :: "prims \<Rightarrow> node \<Rightarrow> bool" where
  "val_inv P n \<longleftrightarrow>
     (\<forall>h v. map_of (valueStore n) h = Some v \<longrightarrow> vID v = h \<and> h = ComputeValueID P v)
   \<and> (\<forall>t x v. txs n t = Some x \<longrightarrow> v \<in> set (Outputs x) \<longrightarrow> map_of (valueStore n) (vID v) \<noteq> None)"

definition core_inv :: "prims \<Rightarrow> node \<Rightarrow> bool" where
  "core_inv P n \<longleftrightarrow> rec_inv P n \<and> conf_inv n \<and> val_inv P n"

text \<open>Every input outside \<open>X\<close> with candidates has a selected one; a selected one is a candidate.\<close>

definition sel_inv :: "hash set \<Rightarrow> node \<Rightarrow> bool" where
  "sel_inv X n \<longleftrightarrow>
     (\<forall>i t. selected_on n i = Some t \<longrightarrow> t \<in> set (cset n i))
   \<and> (\<forall>i. i \<notin> X \<longrightarrow> cset n i \<noteq> [] \<longrightarrow> selected_on n i \<noteq> None)"

definition selected_everywhere :: "node \<Rightarrow> hash \<Rightarrow> transfer \<Rightarrow> bool" where
  "selected_everywhere n t x \<longleftrightarrow> (\<forall>i \<in> set (Inputs x). selected_on n i = Some t)"

definition status_agrees :: "node \<Rightarrow> hash \<Rightarrow> transfer \<Rightarrow> bool" where
  "status_agrees n t x \<longleftrightarrow> (\<exists>s. map_of (finalityState n) t = Some s
     \<and> (Status s = StatusPending \<or> Status s = StatusSelected \<or> Status s = StatusFinal)
     \<and> (Status s \<noteq> StatusPending \<longleftrightarrow> selected_everywhere n t x))"

text \<open>Every stored transfer outside \<open>T\<close> has a status, which says whether it is selected on all its inputs.\<close>

definition fin_inv :: "hash set \<Rightarrow> node \<Rightarrow> bool" where
  "fin_inv T n \<longleftrightarrow>
     (\<forall>t x. t \<notin> T \<longrightarrow> txs n t = Some x \<longrightarrow> status_agrees n t x)
   \<and> (\<forall>t. map_of (finalityState n) t \<noteq> None \<longrightarrow> txs n t \<noteq> None)"

definition node_inv :: "prims \<Rightarrow> node \<Rightarrow> bool" where
  "node_inv P n \<longleftrightarrow> core_inv P n \<and> sel_inv {} n \<and> fin_inv {} n \<and> cache_wf (replayCache n)"

lemma node_invD:
  assumes "node_inv P n"
  shows "core_inv P n" and "sel_inv {} n" and "fin_inv {} n" and "cache_wf (replayCache n)"
  using assms by (simp_all add: node_inv_def)

lemma core_invD:
  assumes "core_inv P n"
  shows "rec_inv P n" and "conf_inv n" and "val_inv P n"
  using assms by (simp_all add: core_inv_def)

lemma rec_invD:
  assumes "rec_inv P n"
  shows "txs n t = Some x \<Longrightarrow> transfer_wf P t x"
    and "map_of (txStore n) t = Some r \<Longrightarrow> record_wf n t r"
    and "map_of (peerObservations n) t \<noteq> None \<Longrightarrow> txs n t \<noteq> None"
  using assms unfolding rec_inv_def by blast+

lemma conf_invD:
  assumes "conf_inv n"
  shows "t \<in> set (cset n i) \<longleftrightarrow> (\<exists>x. txs n t = Some x \<and> i \<in> set (Inputs x))"
    and "distinct (cset n i)"
  using assms unfolding conf_inv_def by blast+

lemmas inv_defs = core_inv_def rec_inv_def conf_inv_def val_inv_def sel_inv_def fin_inv_def

lemma NewNode_inv: "node_inv P (NewNode i w)"
  by (simp add: node_inv_def inv_defs NewNode_def txs_def selected_on_def)

section \<open>Store operations\<close>

text \<open>Fields each operation leaves alone.\<close>

lemma observePeer_frame [frame_simps]:
  shows "conflictSets (observePeer n t f) = conflictSets n"
    and "valueStore (observePeer n t f) = valueStore n"
    and "selectedLineage (observePeer n t f) = selectedLineage n"
    and "finalityState (observePeer n t f) = finalityState n"
    and "proofStore (observePeer n t f) = proofStore n"
    and "replayCache (observePeer n t f) = replayCache n"
    and "inputTracker (observePeer n t f) = inputTracker n"
    and "peers (observePeer n t f) = peers n" and "sent (observePeer n t f) = sent n"
    and "nodeID (observePeer n t f) = nodeID n" and "sender (observePeer n t f) = sender n"
    and "clock (observePeer n t f) = clock n" and "arrivalSeq (observePeer n t f) = arrivalSeq n"
  by (simp_all add: observePeer_def Let_def split: option.split)

lemma setSeenCount_frame [frame_simps]:
  shows "conflictSets (setSeenCount n t) = conflictSets n"
    and "valueStore (setSeenCount n t) = valueStore n"
    and "selectedLineage (setSeenCount n t) = selectedLineage n"
    and "finalityState (setSeenCount n t) = finalityState n"
    and "peerObservations (setSeenCount n t) = peerObservations n"
    and "proofStore (setSeenCount n t) = proofStore n"
    and "replayCache (setSeenCount n t) = replayCache n"
    and "inputTracker (setSeenCount n t) = inputTracker n"
    and "peers (setSeenCount n t) = peers n" and "sent (setSeenCount n t) = sent n"
    and "nodeID (setSeenCount n t) = nodeID n" and "sender (setSeenCount n t) = sender n"
    and "clock (setSeenCount n t) = clock n" and "arrivalSeq (setSeenCount n t) = arrivalSeq n"
  by (simp_all add: setSeenCount_def split: option.split)

lemma storeOutputs_frame [frame_simps]:
  shows "conflictSets (storeOutputs n vs) = conflictSets n"
    and "txStore (storeOutputs n vs) = txStore n"
    and "selectedLineage (storeOutputs n vs) = selectedLineage n"
    and "finalityState (storeOutputs n vs) = finalityState n"
    and "peerObservations (storeOutputs n vs) = peerObservations n"
    and "proofStore (storeOutputs n vs) = proofStore n"
    and "replayCache (storeOutputs n vs) = replayCache n"
    and "inputTracker (storeOutputs n vs) = inputTracker n"
    and "peers (storeOutputs n vs) = peers n" and "sent (storeOutputs n vs) = sent n"
    and "nodeID (storeOutputs n vs) = nodeID n" and "sender (storeOutputs n vs) = sender n"
    and "clock (storeOutputs n vs) = clock n" and "arrivalSeq (storeOutputs n vs) = arrivalSeq n"
  by (induction vs arbitrary: n) simp_all

lemma addConflict_frame [frame_simps]:
  shows "txStore (addConflictMembership n t is) = txStore n"
    and "valueStore (addConflictMembership n t is) = valueStore n"
    and "selectedLineage (addConflictMembership n t is) = selectedLineage n"
    and "finalityState (addConflictMembership n t is) = finalityState n"
    and "peerObservations (addConflictMembership n t is) = peerObservations n"
    and "proofStore (addConflictMembership n t is) = proofStore n"
    and "replayCache (addConflictMembership n t is) = replayCache n"
    and "inputTracker (addConflictMembership n t is) = inputTracker n"
    and "peers (addConflictMembership n t is) = peers n" and "sent (addConflictMembership n t is) = sent n"
    and "nodeID (addConflictMembership n t is) = nodeID n"
    and "sender (addConflictMembership n t is) = sender n"
    and "clock (addConflictMembership n t is) = clock n"
    and "arrivalSeq (addConflictMembership n t is) = arrivalSeq n"
  by (induction "is" arbitrary: n) (simp_all add: Let_def)

text \<open>What each operation does to the field it is about.\<close>

lemma txs_observePeer [simp]: "txs (observePeer n t f) u = txs n u"
  by (auto simp: txs_def observePeer_def Let_def gm.get_put split: option.split)

lemma txs_setSeenCount [simp]: "txs (setSeenCount n t) u = txs n u"
  by (auto simp: txs_def setSeenCount_def gm.get_put split: option.split)

lemma txs_cong: "txStore m = txStore n \<Longrightarrow> txs m t = txs n t"
  by (simp add: txs_def)

lemma selected_on_cong: "selectedLineage m = selectedLineage n \<Longrightarrow> selected_on m i = selected_on n i"
  by (simp add: selected_on_def)

lemma cset_addConflict:
  "cset (addConflictMembership n t is) i =
     (if i \<in> set is \<and> t \<notin> set (cset n i) then cset n i @ [t] else cset n i)"
proof (induction "is" arbitrary: n)
  case (Cons j js)
  show ?case
  proof (cases "t \<in> set (cset n j)")
    case True
    then show ?thesis using Cons.IH[of n] by (auto simp: Let_def)
  next
    case False
    then show ?thesis
      using Cons.IH[of "n\<lparr>conflictSets := mput j (cset n j @ [t]) (conflictSets n)\<rparr>"]
      by (auto simp: Let_def mget0_put)
  qed
qed simp

lemma valueStore_storeOutputs:
  "map_of (valueStore (storeOutputs n vs)) h = Some v \<Longrightarrow>
     map_of (valueStore n) h = Some v \<or> v \<in> set vs \<and> vID v = h"
  by (induction vs arbitrary: n) (force simp: gm.get_put split: if_splits)+

lemma dom_storeOutputs:
  "map_of (valueStore (storeOutputs n vs)) h \<noteq> None \<longleftrightarrow> map_of (valueStore n) h \<noteq> None \<or> h \<in> vID ` set vs"
  by (induction vs arbitrary: n) (auto simp: gm.get_put)

lemma observations_observePeer:
  "peerObservations (observePeer n t f) =
     (if f = [] then peerObservations n
      else mput t (mput f (clock n) (mget0 (peerObservations n) t)) (peerObservations n))"
  by (simp add: observePeer_def Let_def split: option.split)

lemma txStore_observePeer:
  "map_of (txStore (observePeer n t f)) u =
     (if f = [] \<or> u \<noteq> t then map_of (txStore n) u
      else map_option (\<lambda>r. r\<lparr>Peers := mput f (clock n) (Peers r),
        SeenCount := length (mput f (clock n) (Peers r))\<rparr>) (map_of (txStore n) t))"
  by (auto simp: observePeer_def Let_def gm.get_put split: option.split)

lemma txStore_setSeenCount:
  "map_of (txStore (setSeenCount n t)) u =
     (if u \<noteq> t then map_of (txStore n) u
      else map_option (\<lambda>r. r\<lparr>SeenCount := length (Peers r)\<rparr>) (map_of (txStore n) t))"
  by (auto simp: setSeenCount_def gm.get_put split: option.split)

section \<open>Records\<close>

lemma rec_inv_observePeer:
  assumes "rec_inv P n" and "txs n t \<noteq> None"
  shows "rec_inv P (observePeer n t f)"
  unfolding rec_inv_def
proof (intro conjI allI impI)
  fix u x
  assume "txs (observePeer n t f) u = Some x"
  then show "transfer_wf P u x" using rec_invD(1)[OF assms(1)] by simp
next
  fix u r
  assume r: "map_of (txStore (observePeer n t f)) u = Some r"
  show "record_wf (observePeer n t f) u r"
  proof (cases "f = [] \<or> u \<noteq> t")
    case True
    then have "map_of (txStore n) u = Some r" using r by (simp add: txStore_observePeer)
    then show ?thesis
      using rec_invD(2)[OF assms(1)] True
      by (auto simp: record_wf_def observations_observePeer mget0_put)
  next
    case False
    then obtain q where q: "map_of (txStore n) t = Some q"
      and r': "r = q\<lparr>Peers := mput f (clock n) (Peers q), SeenCount := length (mput f (clock n) (Peers q))\<rparr>"
      using r by (auto simp: txStore_observePeer)
    show ?thesis
      using rec_invD(2)[OF assms(1) q] False
      by (simp add: r' record_wf_def observations_observePeer mget0_put)
  qed
next
  fix u
  assume "map_of (peerObservations (observePeer n t f)) u \<noteq> None"
  then show "txs (observePeer n t f) u \<noteq> None"
    using rec_invD(3)[OF assms(1), of u] assms(2)
    by (auto simp: observations_observePeer gm.get_put split: if_splits)
qed

lemma rec_inv_setSeenCount: "rec_inv P n \<Longrightarrow> rec_inv P (setSeenCount n t)"
  unfolding rec_inv_def txs_setSeenCount
  by (auto simp: txStore_setSeenCount record_wf_def frame_simps split: if_splits)

lemma rec_inv_cong:
  assumes "rec_inv P n" and "txStore m = txStore n" and "peerObservations m = peerObservations n"
  shows "rec_inv P m"
  using assms by (simp add: rec_inv_def record_wf_def txs_def)

lemma rec_inv_insert:
  assumes "rec_inv P n" and "txs n t = None" and "transfer_wf P t x"
    and "Tx r = x" and "Canonical r = EncodeTransfer x" and "SeenCount r = 0" and "Peers r = []"
  shows "rec_inv P (n\<lparr>txStore := mput t r (txStore n)\<rparr>)"
proof -
  have "map_of (peerObservations n) t = None" using rec_invD(3)[OF assms(1)] assms(2) by blast
  then have "mget0 (peerObservations n) t = []" by (simp add: mget0_def)
  then show ?thesis
    using assms unfolding rec_inv_def txs_def record_wf_def by (auto simp: gm.get_put)
qed

section \<open>Inserting a transfer\<close>

text \<open>The transfer \<open>upsertTransfer\<close> stores: output IDs and transfer ID are recomputed.\<close>

lemma normalize_simps [simp]:
  shows "Inputs (normalizeTransfer P x) = Inputs x" and "Sig (normalizeTransfer P x) = Sig x"
    and "Timestamp (normalizeTransfer P x) = Timestamp x"
    and "Outputs (normalizeTransfer P x) = map (\<lambda>v. v\<lparr>vID := ComputeValueID P v\<rparr>) (Outputs x)"
  by (simp_all add: normalizeTransfer_def Let_def)

lemma EncodeTransfer_normalize [simp]: "EncodeTransfer (normalizeTransfer P x) = EncodeTransfer x"
  by (simp add: EncodeTransfer_eq comp_def)

lemma tID_normalize: "tID (normalizeTransfer P x) = ComputeTransferID P x"
proof -
  have "EncodeTransfer (x\<lparr>Outputs := map (\<lambda>v. v\<lparr>vID := ComputeValueID P v\<rparr>) (Outputs x)\<rparr>) = EncodeTransfer x"
    by (simp add: EncodeTransfer_eq comp_def)
  then show ?thesis by (simp add: normalizeTransfer_def Let_def ComputeTransferID_def)
qed

lemma ComputeTransferID_normalize [simp]:
  "ComputeTransferID P (normalizeTransfer P x) = ComputeTransferID P x"
  by (simp add: ComputeTransferID_def)

lemma normalize_idem [simp]: "normalizeTransfer P (normalizeTransfer P x) = normalizeTransfer P x"
  by (rule transfer.equality) (simp_all add: tID_normalize comp_def)

lemma normalize_setID [simp]:
  "(normalizeTransfer P x)\<lparr>tID := ComputeTransferID P x\<rparr> = normalizeTransfer P x"
  by (rule transfer.equality) (simp_all add: tID_normalize)

text \<open>What validation establishes about the transfer it accepts.\<close>

lemma resolveSigner_loop_owner:
  "resolveSigner_loop n w is = Inr owner \<Longrightarrow> w \<noteq> [] \<Longrightarrow>
     owner = w \<and> (\<forall>i \<in> set is. \<exists>v. map_of (valueStore n) i = Some v \<and> Owner v = w)"
  by (induction "is") (auto split: option.splits if_splits)

lemma resolveSigner_loop_all:
  "resolveSigner_loop n w is = Inr owner \<Longrightarrow> owner \<noteq> [] \<Longrightarrow> w = [] \<or> w = owner \<Longrightarrow>
     \<forall>i \<in> set is. \<exists>v. map_of (valueStore n) i = Some v \<and> (Owner v = owner \<or> Owner v = [])"
  by (induction "is" arbitrary: w)
     (auto split: option.splits if_splits dest: resolveSigner_loop_owner)

lemma validateTransfer_iff:
  "validateTransfer P n x = Inr () \<longleftrightarrow>
     Inputs x \<noteq> [] \<and> Outputs x \<noteq> [] \<and> distinct (Inputs x) \<and> checkExpiry (clock n) 0 (Outputs x) = Inr ()
   \<and> (\<exists>owner. resolveSigner n (Inputs x) = Inr owner \<and> length owner = 32
        \<and> VerifyCanonicalTransfer P owner x (Sig x))"
  by (auto simp: validateTransfer_def bindE_Inr_iff seen_before_distinct split: if_splits)

lemma validate_transfer_wf:
  assumes "validateTransfer P n (normalizeTransfer P x) = Inr ()"
  shows "transfer_wf P (ComputeTransferID P x) (normalizeTransfer P x)"
  using assms by (auto simp: validateTransfer_iff transfer_wf_def tID_normalize)

text \<open>The two outcomes of \<open>upsertTransfer\<close> on a normalized transfer.\<close>

definition inserted_node :: "prims \<Rightarrow> node \<Rightarrow> transfer \<Rightarrow> bytes \<Rightarrow> peer_id \<Rightarrow> node" where
  "inserted_node P n x canonical from =
     (let t = ComputeTransferID P x;
          n = n\<lparr>arrivalSeq := arrivalSeq n + 1\<rparr>;
          r = \<lparr>Tx = normalizeTransfer P x, Canonical = canonical, FirstSeen = clock n,
               ArrivalSeq = arrivalSeq n, SeenCount = 0, Peers = []\<rparr>;
          n = n\<lparr>txStore := mput t r (txStore n)\<rparr>
      in addConflictMembership
           (setSeenCount (observePeer (storeOutputs n (Outputs (normalizeTransfer P x))) t from) t) t
           (Inputs x))"

lemma upsertTransfer_cases:
  "upsertTransfer P n x canonical from =
     (let t = ComputeTransferID P x
      in if txs n t \<noteq> None then (setSeenCount (observePeer n t from) t, t, False)
         else (inserted_node P n x canonical from, t, True))"
  by (simp add: upsertTransfer_def inserted_node_def Let_def tID_normalize txs_def)

lemma txs_inserted:
  "txs (inserted_node P n x c f) u =
     (if u = ComputeTransferID P x then Some (normalizeTransfer P x) else txs n u)"
proof -
  have "txs (addConflictMembership m t is) u = txs m u" for m t "is"
    by (rule txs_cong) (simp add: frame_simps)
  moreover have "txs (storeOutputs m vs) u = txs m u" for m vs
    by (rule txs_cong) (simp add: frame_simps)
  ultimately show ?thesis
    by (simp add: inserted_node_def Let_def) (simp add: txs_def gm.get_put)
qed

lemma cset_inserted:
  assumes "conf_inv n" and "txs n (ComputeTransferID P x) = None"
  shows "cset (inserted_node P n x c f) i =
     (if i \<in> set (Inputs x) then cset n i @ [ComputeTransferID P x] else cset n i)"
  using conf_invD(1)[OF assms(1), of "ComputeTransferID P x" i] assms(2)
  by (simp add: inserted_node_def Let_def cset_addConflict frame_simps)

lemma inserted_frame [frame_simps]:
  shows "selectedLineage (inserted_node P n x c f) = selectedLineage n"
    and "finalityState (inserted_node P n x c f) = finalityState n"
    and "proofStore (inserted_node P n x c f) = proofStore n"
    and "replayCache (inserted_node P n x c f) = replayCache n"
    and "inputTracker (inserted_node P n x c f) = inputTracker n"
    and "peers (inserted_node P n x c f) = peers n" and "sent (inserted_node P n x c f) = sent n"
    and "nodeID (inserted_node P n x c f) = nodeID n" and "sender (inserted_node P n x c f) = sender n"
    and "clock (inserted_node P n x c f) = clock n"
  by (simp_all add: inserted_node_def Let_def frame_simps)

lemma core_inv_inserted:
  assumes inv: "core_inv P n" and new: "txs n (ComputeTransferID P x) = None"
    and wf: "transfer_wf P (ComputeTransferID P x) (normalizeTransfer P x)"
    and canon: "c = EncodeTransfer x"
  shows "core_inv P (inserted_node P n x c f)"
proof -
  let ?t = "ComputeTransferID P x" and ?x = "normalizeTransfer P x" and ?n' = "inserted_node P n x c f"
  have "rec_inv P ?n'"
  proof -
    let ?n1 = "n\<lparr>arrivalSeq := arrivalSeq n + 1\<rparr>"
    let ?r = "\<lparr>Tx = ?x, Canonical = c, FirstSeen = clock n, ArrivalSeq = arrivalSeq n + 1,
      SeenCount = 0, Peers = []\<rparr>"
    let ?n2 = "?n1\<lparr>txStore := mput ?t ?r (txStore ?n1)\<rparr>"
    have "rec_inv P ?n1" using core_invD(1)[OF inv] by (rule rec_inv_cong) simp_all
    then have "rec_inv P ?n2"
      by (rule rec_inv_insert[where x = ?x]) (use new wf canon in \<open>simp_all add: txs_def\<close>)
    then have 3: "rec_inv P (storeOutputs ?n2 (Outputs ?x))"
      by (rule rec_inv_cong) (simp_all add: frame_simps)
    have "txs (storeOutputs ?n2 (Outputs ?x)) ?t \<noteq> None"
      by (simp add: txs_def frame_simps gm.get_put)
    from rec_inv_setSeenCount[OF rec_inv_observePeer[OF 3 this]]
    have "rec_inv P (addConflictMembership (setSeenCount (observePeer
        (storeOutputs ?n2 (Outputs ?x)) ?t f) ?t) ?t (Inputs x))"
      by (rule rec_inv_cong) (simp_all add: frame_simps)
    then show ?thesis by (simp add: inserted_node_def Let_def)
  qed
  moreover have "conf_inv ?n'"
    unfolding conf_inv_def cset_inserted[OF core_invD(2)[OF inv] new] txs_inserted
    using conf_invD[OF core_invD(2)[OF inv]] new by auto
  moreover have "val_inv P ?n'"
  proof -
    let ?vs = "Outputs ?x"
    have st: "valueStore ?n' = valueStore (storeOutputs (n\<lparr>arrivalSeq := arrivalSeq n + 1,
        txStore := mput ?t \<lparr>Tx = ?x, Canonical = c, FirstSeen = clock n, ArrivalSeq = arrivalSeq n + 1,
        SeenCount = 0, Peers = []\<rparr> (txStore n)\<rparr>) ?vs)" (is "_ = valueStore (storeOutputs ?m ?vs)")
      by (simp add: inserted_node_def Let_def frame_simps)
    have m: "valueStore ?m = valueStore n" by simp
    have vs: "\<forall>v \<in> set ?vs. vID v = ComputeValueID P v" using wf by (simp add: transfer_wf_def)
    have "vID v = h \<and> h = ComputeValueID P v" if "map_of (valueStore ?n') h = Some v" for h v
      using valueStore_storeOutputs[of ?m ?vs h v] that vs core_invD(3)[OF inv]
      unfolding st m val_inv_def by blast
    moreover have "map_of (valueStore ?n') (vID v) \<noteq> None"
      if "txs ?n' u = Some y" and "v \<in> set (Outputs y)" for u y v
    proof (cases "u = ?t")
      case True
      then have "v \<in> set ?vs" using that by (simp add: txs_inserted)
      then show ?thesis unfolding st dom_storeOutputs by blast
    next
      case False
      then have "txs n u = Some y" using that(1) by (simp add: txs_inserted)
      then show ?thesis
        using core_invD(3)[OF inv] that(2) unfolding st dom_storeOutputs m val_inv_def by blast
    qed
    ultimately show ?thesis unfolding val_inv_def by blast
  qed
  ultimately show ?thesis by (simp add: core_inv_def)
qed

text \<open>After the insertion only the inputs and the status of the new transfer are outstanding.\<close>

lemma sel_fin_inserted:
  assumes inv: "conf_inv n" and new: "txs n (ComputeTransferID P x) = None"
    and sel: "sel_inv {} n" and fin: "fin_inv {} n"
  shows "sel_inv (set (Inputs x)) (inserted_node P n x c f)"
    and "fin_inv {ComputeTransferID P x} (inserted_node P n x c f)"
proof -
  have s: "selected_on (inserted_node P n x c f) i = selected_on n i" for i
    by (simp add: selected_on_def frame_simps)
  show "sel_inv (set (Inputs x)) (inserted_node P n x c f)"
    using sel unfolding sel_inv_def s cset_inserted[OF inv new] by auto
  show "fin_inv {ComputeTransferID P x} (inserted_node P n x c f)"
    using fin unfolding fin_inv_def txs_inserted status_agrees_def selected_everywhere_def s
    by (simp add: frame_simps)
qed

lemma core_inv_observed:
  assumes "core_inv P n" and "txs n t \<noteq> None"
  shows "core_inv P (setSeenCount (observePeer n t f) t)"
  using assms rec_inv_setSeenCount[OF rec_inv_observePeer[of P n t f]]
  by (simp add: core_inv_def conf_inv_def val_inv_def frame_simps)

lemma sel_fin_observed:
  shows "sel_inv X n \<Longrightarrow> sel_inv X (setSeenCount (observePeer n t f) t)"
    and "fin_inv T n \<Longrightarrow> fin_inv T (setSeenCount (observePeer n t f) t)"
  by (simp_all add: sel_inv_def fin_inv_def status_agrees_def selected_everywhere_def selected_on_def
      frame_simps)

end
