(* ===== verification/Node_Recompute.thy ===== *)
theory Node_Recompute
  imports Node_Inv
begin

text \<open>
  What the recomputation of \<open>node/selection.go\<close> and \<open>node/finality.go\<close> does to a node whose stores
  agree: it never fails, it writes only \<open>selectedLineage\<close> and \<open>finalityState\<close>, and it restores the
  agreement of both with the conflict sets.
\<close>

section \<open>Finality of one transfer\<close>

text \<open>The state \<open>updateFinalityForTransfer\<close> writes, read off the other fields.\<close>

definition finality_of :: "env \<Rightarrow> node \<Rightarrow> hash \<Rightarrow> transfer \<Rightarrow> finality_state" where
  "finality_of E n t x =
     (let (sel, score) = selected_loop n t (f64_const 0) (Inputs x);
          c = computeConfidence E n t
      in \<lparr>fsScore = score, Confidence = (if sel then c else f64_const 0),
          Status = (if \<not> sel then StatusPending
                    else if fle (finalityThreshold x) c then StatusFinal else StatusSelected)\<rparr>)"

lemma updateFinality_eq:
  "updateFinalityForTransfer E n t =
     (case txs n t of None \<Rightarrow> n
      | Some x \<Rightarrow> n\<lparr>finalityState := mput t (finality_of E n t x) (finalityState n)\<rparr>)"
  by (cases "map_of (txStore n) t")
     (simp_all add: updateFinalityForTransfer_def txs_def finality_of_def Let_def split: prod.split)

lemma selected_loop_cong:
  "selectedLineage m = selectedLineage n \<Longrightarrow> selected_loop m t s is = selected_loop n t s is"
  by (induction "is" arbitrary: s) (simp_all split: option.split)

lemma selected_loop_iff:
  "fst (selected_loop n t s is) \<longleftrightarrow> (\<forall>i \<in> set is. selected_on n i = Some t)"
  by (induction "is" arbitrary: s) (auto simp: selected_on_def split: option.split)

lemma finality_of_frame [simp]: "finality_of E (n\<lparr>finalityState := f\<rparr>) t x = finality_of E n t x"
proof -
  have "selected_loop (n\<lparr>finalityState := f\<rparr>) = selected_loop n"
    by (intro ext selected_loop_cong) simp
  moreover have "computeConfidence E (n\<lparr>finalityState := f\<rparr>) t = computeConfidence E n t"
    by (cases "map_of (txStore n) t") (simp_all add: computeConfidence_def timeStability_def proofWeight_def)
  ultimately show ?thesis by (simp add: finality_of_def)
qed

lemma finality_of_status:
  shows "Status (finality_of E n t x) \<noteq> StatusPending \<longleftrightarrow> selected_everywhere n t x"
    and "Status (finality_of E n t x) = StatusPending \<or> Status (finality_of E n t x) = StatusSelected
           \<or> Status (finality_of E n t x) = StatusFinal"
    and "Status (finality_of E n t x) = StatusFinal \<longleftrightarrow>
           selected_everywhere n t x \<and> fle (finalityThreshold x) (computeConfidence E n t)"
  using selected_loop_iff[of n t "f64_const 0" "Inputs x"]
  by (auto simp: finality_of_def selected_everywhere_def Let_def split: prod.split)

lemma fold_updateFinality:
  "\<exists>F. fold (\<lambda>t n. updateFinalityForTransfer E n t) ts n = n\<lparr>finalityState := F\<rparr>
     \<and> (\<forall>u. map_of F u = (if u \<in> set ts \<and> txs n u \<noteq> None
                          then Some (finality_of E n u (the (txs n u))) else map_of (finalityState n) u))"
proof (induction ts arbitrary: n)
  case Nil
  show ?case by (rule exI[of _ "finalityState n"]) simp
next
  case (Cons t ts)
  obtain n1 where n1: "n1 = updateFinalityForTransfer E n t" by blast
  obtain F1 where F1: "n1 = n\<lparr>finalityState := F1\<rparr>"
    and f1: "\<And>u. map_of F1 u = (if u = t \<and> txs n u \<noteq> None
               then Some (finality_of E n u (the (txs n u))) else map_of (finalityState n) u)"
  proof (cases "txs n t")
    case None
    show thesis by (rule that[of "finalityState n"]) (use None in \<open>auto simp: n1 updateFinality_eq\<close>)
  next
    case (Some x)
    then show thesis
      using that[of "mput t (finality_of E n t x) (finalityState n)"]
      by (simp add: n1 updateFinality_eq gm.get_put)
  qed
  have tx: "txs n1 u = txs n u" for u by (rule txs_cong) (simp add: F1)
  from Cons.IH[of n1] obtain F where
    F: "fold (\<lambda>t n. updateFinalityForTransfer E n t) ts n1 = n1\<lparr>finalityState := F\<rparr>"
    and f: "\<And>u. map_of F u = (if u \<in> set ts \<and> txs n1 u \<noteq> None
               then Some (finality_of E n1 u (the (txs n1 u))) else map_of (finalityState n1) u)"
    by blast
  have g: "finality_of E n1 u x = finality_of E n u x" for u x by (simp add: F1)
  show ?case
  proof (intro exI[of _ F] conjI allI)
    show "fold (\<lambda>t n. updateFinalityForTransfer E n t) (t # ts) n = n\<lparr>finalityState := F\<rparr>"
      using F by (simp add: n1 [symmetric] F1)
    fix u
    show "map_of F u = (if u \<in> set (t # ts) \<and> txs n u \<noteq> None
        then Some (finality_of E n u (the (txs n u))) else map_of (finalityState n) u)"
      unfolding f tx g using f1[of u] by (auto simp: F1)
  qed
qed

section \<open>Selection on one input\<close>

text \<open>The recomputation writes nothing but the two derived maps.\<close>

definition derived_only :: "node \<Rightarrow> node \<Rightarrow> bool" where
  "derived_only n m \<longleftrightarrow> m = n\<lparr>selectedLineage := selectedLineage m, finalityState := finalityState m\<rparr>"

lemma derived_only_refl [simp]: "derived_only n n"
  by (simp add: derived_only_def)

lemma derived_only_trans: "derived_only n m \<Longrightarrow> derived_only m k \<Longrightarrow> derived_only n k"
  by (cases n; cases m; cases k) (simp add: derived_only_def)

lemma derived_onlyD:
  assumes "derived_only n m"
  shows "txStore m = txStore n" and "valueStore m = valueStore n" and "conflictSets m = conflictSets n"
    and "peerObservations m = peerObservations n" and "proofStore m = proofStore n"
    and "replayCache m = replayCache n" and "inputTracker m = inputTracker n" and "peers m = peers n"
    and "sent m = sent n" and "nodeID m = nodeID n" and "sender m = sender n" and "clock m = clock n"
    and "arrivalSeq m = arrivalSeq n" and "txs m = txs n"
  using arg_cong[OF assms[unfolded derived_only_def], of txStore]
    arg_cong[OF assms[unfolded derived_only_def], of valueStore]
    arg_cong[OF assms[unfolded derived_only_def], of conflictSets]
    arg_cong[OF assms[unfolded derived_only_def], of peerObservations]
    arg_cong[OF assms[unfolded derived_only_def], of proofStore]
    arg_cong[OF assms[unfolded derived_only_def], of replayCache]
    arg_cong[OF assms[unfolded derived_only_def], of inputTracker]
    arg_cong[OF assms[unfolded derived_only_def], of peers]
    arg_cong[OF assms[unfolded derived_only_def], of sent]
    arg_cong[OF assms[unfolded derived_only_def], of nodeID]
    arg_cong[OF assms[unfolded derived_only_def], of sender]
    arg_cong[OF assms[unfolded derived_only_def], of clock]
    arg_cong[OF assms[unfolded derived_only_def], of arrivalSeq]
  by (simp_all add: txs_def fun_eq_iff)

lemma derived_only_core: "derived_only n m \<Longrightarrow> core_inv P m \<longleftrightarrow> core_inv P n"
  by (simp add: core_inv_def rec_inv_def conf_inv_def val_inv_def record_wf_def derived_onlyD)

lemma recompute_input_effect:
  assumes "conf_inv n" and "cset n i \<noteq> []"
  obtains b m where "recomputeSelectionForInput E n i = Inr m" and "derived_only n m"
    and "b \<in> set (cset n i)"
    and "\<And>j. selected_on m j = (if j = i then Some b else selected_on n j)"
    and "\<And>t. map_of (finalityState m) t =
           (if t \<in> set (cset n i) then Some (finality_of E m t (the (txs n t)))
            else map_of (finalityState n) t)"
proof -
  have stored: "txs n t \<noteq> None" if "t \<in> set (cset n i)" for t
    using conf_invD(1)[OF assms(1)] that by auto
  then have "\<forall>t \<in> set (cset n i). hasTransfer n t" by (simp add: txs_hasTransfer)
  from selectBest_total[OF assms(2) this] obtain s where
    s: "selectBest E n i (cset n i) = Inr s" "sbTxID s \<in> set (cset n i)" .
  let ?l = "\<lparr>slTxID = sbTxID s, slScore = Score s, UpdatedAt = clock n\<rparr>"
  obtain n1 where n1: "n1 = n\<lparr>selectedLineage := mput i ?l (selectedLineage n)\<rparr>" by blast
  have tx1: "txs n1 = txs n" by (simp add: n1 txs_def fun_eq_iff)
  from fold_updateFinality[of E "cset n i" n1] obtain F where
    F: "fold (\<lambda>t n. updateFinalityForTransfer E n t) (cset n i) n1 = n1\<lparr>finalityState := F\<rparr>"
    and f: "\<And>u. map_of F u = (if u \<in> set (cset n i) \<and> txs n u \<noteq> None
               then Some (finality_of E n1 u (the (txs n u))) else map_of (finalityState n1) u)"
    unfolding tx1 by blast
  let ?m = "n1\<lparr>finalityState := F\<rparr>"
  show thesis
  proof (rule that[of ?m "sbTxID s"])
    show "recomputeSelectionForInput E n i = Inr ?m"
      using F s(1) assms(2) by (simp add: recomputeSelectionForInput_def Let_def n1)
    show "derived_only n ?m" by (simp add: derived_only_def n1)
    show "sbTxID s \<in> set (cset n i)" by (rule s(2))
    show "selected_on ?m j = (if j = i then Some (sbTxID s) else selected_on n j)" for j
      by (simp add: selected_on_def n1 gm.get_put)
    show "map_of (finalityState ?m) t = (if t \<in> set (cset n i)
        then Some (finality_of E ?m t (the (txs n t))) else map_of (finalityState n) t)" for t
      using f[of t] stored[of t] by (simp add: n1)
  qed
qed

lemma status_agrees_finality_of:
  "map_of (finalityState n) t = Some (finality_of E n t x) \<Longrightarrow> status_agrees n t x"
  unfolding status_agrees_def using finality_of_status[of E n t x] by blast

text \<open>An input is settled by its recomputation, and the status of no transfer goes stale.\<close>

lemma recompute_input_inv:
  assumes core: "conf_inv n" and sel: "sel_inv X n" and fin: "fin_inv T n"
  obtains m where "recomputeSelectionForInput E n i = Inr m" and "derived_only n m"
    and "sel_inv (X - {i}) m" and "fin_inv T m"
proof (cases "cset n i = []")
  case True
  then have none: "selected_on n i = None" using sel unfolding sel_inv_def
    by (metis empty_iff list.set(1) not_Some_eq)
  let ?m = "n\<lparr>selectedLineage := mdel i (selectedLineage n)\<rparr>"
  have s: "selected_on ?m j = selected_on n j" for j
    using none by (auto simp: selected_on_def gm.get_del)
  have r: "recomputeSelectionForInput E n i = Inr ?m"
    using True by (simp add: recomputeSelectionForInput_def Let_def)
  show thesis
  proof (rule that[OF r])
    show "derived_only n ?m" by (simp add: derived_only_def)
    show "sel_inv (X - {i}) ?m" using sel True unfolding sel_inv_def s by auto
    show "fin_inv T ?m"
      using fin unfolding fin_inv_def status_agrees_def selected_everywhere_def s by (simp add: txs_def)
  qed
next
  case False
  obtain b m where
    r: "recomputeSelectionForInput E n i = Inr m" and d: "derived_only n m" and b: "b \<in> set (cset n i)"
    and s: "\<And>j. selected_on m j = (if j = i then Some b else selected_on n j)"
    and f: "\<And>t. map_of (finalityState m) t = (if t \<in> set (cset n i)
               then Some (finality_of E m t (the (txs n t))) else map_of (finalityState n) t)"
    by (rule recompute_input_effect[OF core False, of E]) (rule that)
  note dd = derived_onlyD[OF d]
  show thesis
  proof (rule that[OF r d])
    show "sel_inv (X - {i}) m" using sel b unfolding sel_inv_def dd s by auto
    have "status_agrees m t x" if "t \<notin> T" and x: "txs n t = Some x" for t x
    proof (cases "t \<in> set (cset n i)")
      case True
      then show ?thesis using f[of t] x by (intro status_agrees_finality_of) simp
    next
      case False
      then have "i \<notin> set (Inputs x)" using conf_invD(1)[OF core] x by blast
      then have "selected_everywhere m t x = selected_everywhere n t x"
        unfolding selected_everywhere_def s by auto
      then show ?thesis
        using fin that False f[of t] unfolding fin_inv_def status_agrees_def by simp
    qed
    moreover have "txs n t \<noteq> None" if "map_of (finalityState m) t \<noteq> None" for t
      using that f[of t] fin conf_invD(1)[OF core, of t i] unfolding fin_inv_def by (metis option.distinct(1))
    ultimately show "fin_inv T m" unfolding fin_inv_def dd by blast
  qed
qed

section \<open>Selection of a transfer\<close>

lemma recompute_inputs_inv:
  assumes "conf_inv n" and "sel_inv X n" and "fin_inv T n"
  shows "\<exists>m. recompute_inputs E n is = Inr m \<and> derived_only n m \<and> sel_inv (X - set is) m \<and> fin_inv T m"
  using assms
proof (induction "is" arbitrary: n X)
  case (Cons i js)
  from recompute_input_inv[OF Cons.prems, of E i] obtain m where
    m: "recomputeSelectionForInput E n i = Inr m" "derived_only n m" "sel_inv (X - {i}) m" "fin_inv T m" .
  have "conf_inv m" using Cons.prems(1) by (simp add: conf_inv_def derived_onlyD[OF m(2)])
  from Cons.IH[OF this m(3,4)] obtain k where
    k: "recompute_inputs E m js = Inr k" "derived_only m k" "sel_inv (X - {i} - set js) k" "fin_inv T k"
    by blast
  have "X - set (i # js) = X - {i} - set js" by auto
  then show ?case using m k derived_only_trans[OF m(2) k(2)] by simp
qed simp

text \<open>\<open>recomputeSelectionForTransfer\<close> never panics, and settles the transfer and its inputs.\<close>

lemma recompute_transfer_inv:
  assumes "conf_inv n" and "sel_inv X n" and "fin_inv T n" and x: "txs n t = Some x"
  obtains m where "recomputeSelectionForTransfer E n t = Inr m" and "derived_only n m"
    and "sel_inv (X - set (Inputs x)) m" and "fin_inv (T - {t}) m"
proof -
  from recompute_inputs_inv[OF assms(1-3), of E "Inputs x"] obtain k where
    k: "recompute_inputs E n (Inputs x) = Inr k" "derived_only n k"
      "sel_inv (X - set (Inputs x)) k" "fin_inv T k" by blast
  have tx: "txs k = txs n" by (rule derived_onlyD(14)[OF k(2)])
  let ?m = "k\<lparr>finalityState := mput t (finality_of E k t x) (finalityState k)\<rparr>"
  have so: "selected_on ?m = selected_on k" by (simp add: selected_on_def fun_eq_iff)
  from x have "recomputeSelectionForTransfer E n t = Inr (updateFinalityForTransfer E k t)"
    using k(1) by (auto simp: recomputeSelectionForTransfer_def txs_def)
  then have r: "recomputeSelectionForTransfer E n t = Inr ?m"
    using x by (simp add: updateFinality_eq tx)
  show thesis
  proof (rule that[OF r])
    have "derived_only k ?m" by (simp add: derived_only_def)
    then show "derived_only n ?m" by (rule derived_only_trans[OF k(2)])
    show "sel_inv (X - set (Inputs x)) ?m" using k(3) unfolding sel_inv_def so by simp
    have t: "status_agrees ?m t x"
      by (rule status_agrees_finality_of[of _ _ E]) (simp add: gm.get_put)
    have "status_agrees ?m u y" if "u \<notin> T - {t}" and "txs n u = Some y" for u y
    proof (cases "u = t")
      case False
      then show ?thesis
        using k(4) that unfolding fin_inv_def status_agrees_def selected_everywhere_def so tx
        by (simp add: gm.get_put)
    qed (use that x t in simp)
    moreover have "txs ?m = txs n" by (simp add: txs_def fun_eq_iff tx[unfolded txs_def fun_eq_iff])
    ultimately show "fin_inv (T - {t}) ?m"
      using k(4) x unfolding fin_inv_def tx by (auto simp: gm.get_put)
  qed
qed

lemma recompute_transfer_missing:
  "txs n t = None \<Longrightarrow> recomputeSelectionForTransfer E n t = Inr n"
  by (simp add: recomputeSelectionForTransfer_def txs_def split: option.split)

end
