(* ===== verification/Node_Network.thy ===== *)
theory Node_Network
  imports Node_Recompute
begin

text \<open>
  Message handling (\<open>node/handlers.go\<close>, the rest of \<open>node/node.go\<close>): a network of nodes that call
  each other's \<open>OnMessage\<close> directly, through the pointers in \<open>peers\<close>, or a transport through
  \<open>sender\<close>. The nodes live at addresses of a store, so two peers of the same node see one state, and
  a node that is handling a message can be called again before its handler has ended.

  A handler gets the operation that delivers a message as an argument (\<open>send\<close> over \<open>OnMessage\<close> with
  less fuel). None means that the fuel ran out; \<open>Node_Liveness\<close> gives the fuel that is enough.
\<close>

section \<open>The store of nodes\<close>

record world =
  nodes :: "nat \<Rightarrow> node"
  rng :: nat

type_synonym outcome = "(world \<times> (error + unit)) option"

definition put :: "world \<Rightarrow> nat \<Rightarrow> node \<Rightarrow> world" where
  "put w a n = w\<lparr>nodes := (nodes w)(a := n)\<rparr>"

fun andThen :: "outcome \<Rightarrow> (world \<Rightarrow> outcome) \<Rightarrow> outcome" where
  "andThen None f = None"
| "andThen (Some (w, Inl e)) f = Some (w, Inl e)"
| "andThen (Some (w, Inr u)) f = f w"

lemma andThen_SomeE:
  assumes "andThen s f = Some (w', r)"
  obtains e where "s = Some (w', Inl e)" and "r = Inl e"
    | v where "s = Some (v, Inr ())" and "f v = Some (w', r)"
  using assms by (cases "(s, f)" rule: andThen.cases) auto

text \<open>The random identifier of a new message is the next one of the stream.\<close>

definition tick :: "world \<Rightarrow> world" where
  "tick w = w\<lparr>rng := rng w + 1\<rparr>"

definition nextID :: "env \<Rightarrow> world \<Rightarrow> message_id" where
  "nextID E w = randID E (rng w)"

section \<open>send\<close>

definition send ::
  "(world \<Rightarrow> nat \<Rightarrow> peer_id \<Rightarrow> message \<Rightarrow> outcome) \<Rightarrow> world \<Rightarrow> nat \<Rightarrow> peer_id \<Rightarrow> message \<Rightarrow> outcome" where
  "send deliver w a to msg =
     (let n = nodes w a;
          n = n\<lparr>sent := sent n @ [\<lparr>To = to, sMessage = msg\<rparr>]\<rparr>;
          w = put w a n
      in case sender n of
           Some f \<Rightarrow> Some (w, case f to msg of None \<Rightarrow> Inr () | Some e \<Rightarrow> Inl e)
         | None \<Rightarrow>
             (case map_of (peers n) to of
                Some (Some b) \<Rightarrow> deliver w b (nodeID n) msg
              | _ \<Rightarrow> Some (w, Inl ErrUnknownPeer)))"

section \<open>Handlers (handlers.go)\<close>

text \<open>\<open>upsertTransfer\<close> and \<open>recomputeSelectionForTransfer\<close>, which every acceptance runs in this order.\<close>

definition upsert_and_recompute ::
  "env \<Rightarrow> node \<Rightarrow> transfer \<Rightarrow> bytes \<Rightarrow> peer_id \<Rightarrow> node \<times> (error + hash \<times> bool)" where
  "upsert_and_recompute E n tx canonical from =
     (let (n, txID, inserted) = upsertTransfer (crypt E) n tx canonical from
      in case recomputeSelectionForTransfer E n txID of
           Inl e \<Rightarrow> (n, Inl e)
         | Inr n \<Rightarrow> (n, Inr (txID, inserted)))"

fun broadcastINV ::
  "env \<Rightarrow> (world \<Rightarrow> nat \<Rightarrow> peer_id \<Rightarrow> message \<Rightarrow> outcome) \<Rightarrow> world \<Rightarrow> nat \<Rightarrow> int64 \<Rightarrow> hash
     \<Rightarrow> peer_id list \<Rightarrow> outcome" where
  "broadcastINV E sendTo w a ttl txID [] = Some (w, Inr ())"
| "broadcastINV E sendTo w a ttl txID (peerID # ps) =
     andThen (sendTo (tick w) a peerID (NewINVMessage (nextID E w) (clock (nodes w a)) ttl txID))
       (\<lambda>w. broadcastINV E sendTo w a ttl txID ps)"

definition handleINV ::
  "env \<Rightarrow> (world \<Rightarrow> nat \<Rightarrow> peer_id \<Rightarrow> message \<Rightarrow> outcome) \<Rightarrow> world \<Rightarrow> nat \<Rightarrow> peer_id \<Rightarrow> message \<Rightarrow> outcome" where
  "handleINV E sendTo w a from msg =
     (case DecodeINVID (Payload msg) of
        Inl e \<Rightarrow> Some (w, Inl e)
      | Inr txID \<Rightarrow>
          if hasTransfer (nodes w a) txID then Some (w, Inr ())
          else sendTo (tick w) a from (NewGETMessage (nextID E w) (clock (nodes w a)) (TTL msg) txID))"

definition handleGET ::
  "env \<Rightarrow> (world \<Rightarrow> nat \<Rightarrow> peer_id \<Rightarrow> message \<Rightarrow> outcome) \<Rightarrow> world \<Rightarrow> nat \<Rightarrow> peer_id \<Rightarrow> message \<Rightarrow> outcome" where
  "handleGET E sendTo w a from msg =
     (case DecodeGETID (Payload msg) of
        Inl e \<Rightarrow> Some (w, Inl e)
      | Inr txID \<Rightarrow>
          (case map_of (txStore (nodes w a)) txID of
             None \<Rightarrow> Some (w, Inr ())
           | Some record \<Rightarrow>
               sendTo (tick w) a from (NewTXMessage (nextID E w) (clock (nodes w a)) (TTL msg) (Tx record))))"

definition handleTX ::
  "env \<Rightarrow> (world \<Rightarrow> nat \<Rightarrow> peer_id \<Rightarrow> message \<Rightarrow> outcome) \<Rightarrow> world \<Rightarrow> nat \<Rightarrow> peer_id \<Rightarrow> message \<Rightarrow> outcome" where
  "handleTX E sendTo w a from msg =
     (case DecodeTXPayload (Payload msg) of
        Inl e \<Rightarrow> Some (w, Inl e)
      | Inr payload \<Rightarrow>
     (case DecodeTransfer (crypt E) (TransferBytes payload) of
        Inl e \<Rightarrow> Some (w, Inl e)
      | Inr tx \<Rightarrow>
          let tx = tx\<lparr>Sig := Signature payload\<rparr>;
              tx = normalizeTransfer (crypt E) tx
          in case validateTransfer (crypt E) (nodes w a) tx of
               Inl e \<Rightarrow> Some (w, Inl e)
             | Inr _ \<Rightarrow>
                 let (n, r) = upsert_and_recompute E (nodes w a) tx (TransferBytes payload) from;
                     w = put w a n
                 in case r of
                      Inl e \<Rightarrow> Some (w, Inl e)
                    | Inr (txID, inserted) \<Rightarrow>
                        if \<not> inserted then Some (w, Inr ())
                        else broadcastINV E sendTo w a (TTL msg) txID (peerIDsExcept n from)))"

definition handleProofRequest ::
  "env \<Rightarrow> (world \<Rightarrow> nat \<Rightarrow> peer_id \<Rightarrow> message \<Rightarrow> outcome) \<Rightarrow> world \<Rightarrow> nat \<Rightarrow> peer_id \<Rightarrow> message \<Rightarrow> outcome" where
  "handleProofRequest E sendTo w a from msg =
     (case DecodeProofRequestPayload (Payload msg) of
        Inl e \<Rightarrow> Some (w, Inl e)
      | Inr txID \<Rightarrow>
          let n = nodes w a;
              payload = \<lparr>TargetID = txID, pSeen = False, pSeenTime = 0, pConflict = False, pDistance = 1\<rparr>;
              payload =
                (case map_of (txStore n) txID of
                   None \<Rightarrow> payload
                 | Some record \<Rightarrow> payload\<lparr>pSeen := True, pSeenTime := FirstSeen record,
                                     pConflict := hasConflict n txID\<rparr>)
          in sendTo (tick w) a from (NewProofResponseMessage (nextID E w) (clock n) (TTL msg) payload))"

definition proof_and_recompute ::
  "env \<Rightarrow> node \<Rightarrow> hash \<Rightarrow> proof_record \<Rightarrow> node \<times> (error + unit)" where
  "proof_and_recompute E n txID p =
     (let n = updateProof n txID p
      in if hasTransfer n txID
         then (case recomputeSelectionForTransfer E n txID of
                 Inl e \<Rightarrow> (n, Inl e) | Inr n \<Rightarrow> (n, Inr ()))
         else (n, Inr ()))"

definition handleProofResponse :: "env \<Rightarrow> world \<Rightarrow> nat \<Rightarrow> peer_id \<Rightarrow> message \<Rightarrow> outcome" where
  "handleProofResponse E w a from msg =
     (case DecodeProofResponsePayload (Payload msg) of
        Inl e \<Rightarrow> Some (w, Inl e)
      | Inr payload \<Rightarrow>
          let (n, r) = proof_and_recompute E (nodes w a) (TargetID payload)
                \<lparr>prPeerID = from, prSeen = pSeen payload, prSeenTime = pSeenTime payload,
                 prConflict = pConflict payload, prDistance = pDistance payload\<rparr>
          in Some (put w a n, r))"

section \<open>OnMessage and AcceptLocalTransfer (node.go)\<close>

definition dispatch ::
  "env \<Rightarrow> (world \<Rightarrow> nat \<Rightarrow> peer_id \<Rightarrow> message \<Rightarrow> outcome) \<Rightarrow> world \<Rightarrow> nat \<Rightarrow> peer_id \<Rightarrow> message \<Rightarrow> outcome" where
  "dispatch E sendTo w a from msg =
     (if mType msg = INV then handleINV E sendTo w a from msg
      else if mType msg = GET then handleGET E sendTo w a from msg
      else if mType msg = TX then handleTX E sendTo w a from msg
      else if mType msg = PROOF_REQ then handleProofRequest E sendTo w a from msg
      else if mType msg = PROOF_RESP then handleProofResponse E w a from msg
      else if mType msg = ACK \<or> mType msg = ERROR then Some (w, Inr ())
      else Some (w, Inl (UnsupportedMessageType (sint (mType msg)))))"

fun OnMessage :: "env \<Rightarrow> nat \<Rightarrow> world \<Rightarrow> nat \<Rightarrow> peer_id \<Rightarrow> message \<Rightarrow> outcome" where
  "OnMessage E 0 w a from msg = None"
| "OnMessage E (Suc fuel) w a from msg =
     (let n = nodes w a;
          n = n\<lparr>replayCache := PruneExpired (replayCache n) (clock n)\<rparr>
      in if IsSeen (replayCache n) (MessageID msg) then Some (put w a n, Inr ())
         else
           let n = n\<lparr>replayCache := MarkSeen (replayCache n) (MessageID msg)\<rparr>
           in dispatch E (send (OnMessage E fuel)) (put w a n) a from msg)"

definition AcceptLocalTransfer :: "env \<Rightarrow> nat \<Rightarrow> world \<Rightarrow> nat \<Rightarrow> transfer \<Rightarrow> outcome" where
  "AcceptLocalTransfer E fuel w a tx =
     (let tx = normalizeTransfer (crypt E) tx
      in case validateTransfer (crypt E) (nodes w a) tx of
           Inl e \<Rightarrow> Some (w, Inl e)
         | Inr _ \<Rightarrow>
        (case ConsumeInputs (inputTracker (nodes w a)) (Inputs tx) of
           Inl e \<Rightarrow> Some (w, Inl e)
         | Inr tracker \<Rightarrow>
             let n = (nodes w a)\<lparr>inputTracker := tracker\<rparr>;
                 canonical = EncodeTransfer tx;
                 tx = tx\<lparr>tID := ComputeTransferID (crypt E) tx\<rparr>;
                 (n, r) = upsert_and_recompute E n tx canonical [];
                 w = put w a n
             in case r of
                  Inl e \<Rightarrow> Some (w, Inl e)
                | Inr (txID, _) \<Rightarrow>
                    broadcastINV E (send (OnMessage E fuel)) w a 30 (tID tx) (peerIDsExcept n [])))"

section \<open>The steps a handler is made of\<close>

text \<open>
  The abstract specification of a node: what it may do to its state while it handles a message. A
  transfer enters only after validation, with its canonical bytes, and fits the wire format. A
  local transfer (\<open>lstep\<close>) enters only if none of its inputs has been spent here before.
\<close>

definition wire_ok :: "prims \<Rightarrow> transfer \<Rightarrow> bool" where
  "wire_ok P x \<longleftrightarrow> content_ok P x \<and> length (EncodeTransfer x) < 2 ^ 32 \<and> length (Sig x) < 2 ^ 32"

text \<open>The transfer a TX message carries, and \<open>handleTX\<close> over it.\<close>

definition tx_of :: "prims \<Rightarrow> message \<Rightarrow> error + transfer" where
  "tx_of P msg = bindE (DecodeTXPayload (Payload msg)) (\<lambda>payload.
     bindE (DecodeTransfer P (TransferBytes payload)) (\<lambda>tx. Inr (tx\<lparr>Sig := Signature payload\<rparr>)))"

lemma tx_of_Inr:
  assumes "tx_of P msg = Inr x"
  shows "wire_ok P x" and "Payload msg = EncodeTXPayload (EncodeTransfer x) (Sig x)"
    and "Timestamp x = 0" and "tID x = ComputeTransferID P x"
proof -
  from assms obtain payload tx where d: "DecodeTXPayload (Payload msg) = Inr payload"
    and t: "DecodeTransfer P (TransferBytes payload) = Inr tx" and x: "x = tx\<lparr>Sig := Signature payload\<rparr>"
    by (auto simp: tx_of_def bindE_Inr_iff)
  note D = tx_payload.decode_ok[OF d] and T = transfer_payload.decode_ok[OF t]
  have c: "TransferBytes payload = EncodeTransfer x" using T by (simp add: x)
  have "content_ok P x" using T by (simp add: transfer_ok_def content_ok_def x)
  moreover have "length (TransferBytes payload) < 2 ^ 32" and "length (Sig x) < 2 ^ 32"
    using D by (simp_all add: tx_payload_ok_def x)
  ultimately show "wire_ok P x" by (simp only: wire_ok_def c [symmetric] simp_thms)
  show "Payload msg = EncodeTXPayload (EncodeTransfer x) (Sig x)" using D c by (simp add: x)
  show "Timestamp x = 0" and "tID x = ComputeTransferID P x" using T by (simp_all add: transfer_ok_def x)
qed

lemma handleTX_eq:
  "handleTX E sendTo w a f msg =
     (case tx_of (crypt E) msg of
        Inl e \<Rightarrow> Some (w, Inl e)
      | Inr x \<Rightarrow>
          (case validateTransfer (crypt E) (nodes w a) (normalizeTransfer (crypt E) x) of
             Inl e \<Rightarrow> Some (w, Inl e)
           | Inr _ \<Rightarrow>
               (case upsert_and_recompute E (nodes w a) (normalizeTransfer (crypt E) x) (EncodeTransfer x) f of
                  (n, Inl e) \<Rightarrow> Some (put w a n, Inl e)
                | (n, Inr (t, ins)) \<Rightarrow>
                    if \<not> ins then Some (put w a n, Inr ())
                    else broadcastINV E sendTo (put w a n) a (TTL msg) t (peerIDsExcept n f))))"
proof (cases "DecodeTXPayload (Payload msg)")
  case (Inr payload)
  show ?thesis
  proof (cases "DecodeTransfer (crypt E) (TransferBytes payload)")
    case t: (Inr tx)
    let ?x = "tx\<lparr>Sig := Signature payload\<rparr>"
    have c: "EncodeTransfer ?x = TransferBytes payload"
      using transfer_payload.decode_ok[OF t] by simp
    have x: "tx_of (crypt E) msg = Inr ?x" using Inr t by (simp add: tx_of_def)
    show ?thesis unfolding x sum.case c unfolding handleTX_def Inr t sum.case Let_def
      by (intro sum.case_cong refl)
  qed (use Inr in \<open>simp add: handleTX_def tx_of_def\<close>)
qed (simp add: handleTX_def tx_of_def)

inductive nstep :: "env \<Rightarrow> node \<Rightarrow> node \<Rightarrow> bool" for E where
  ns_sent: "nstep E n (n\<lparr>sent := sent n @ [m]\<rparr>)"
| ns_prune: "nstep E n (n\<lparr>replayCache := PruneExpired (replayCache n) (clock n)\<rparr>)"
| ns_mark: "nstep E n (n\<lparr>replayCache := MarkSeen (replayCache n) i\<rparr>)"
| ns_store: "wire_ok (crypt E) x \<Longrightarrow>
    validateTransfer (crypt E) n (normalizeTransfer (crypt E) x) = Inr () \<Longrightarrow>
    nstep E n (fst (upsert_and_recompute E n (normalizeTransfer (crypt E) x) (EncodeTransfer x) f))"
| ns_proof: "length t = 32 \<Longrightarrow> nstep E n (fst (proof_and_recompute E n t p))"

inductive lstep :: "env \<Rightarrow> node \<Rightarrow> node \<Rightarrow> bool" for E where
  ls_local: "validateTransfer (crypt E) n (normalizeTransfer (crypt E) x) = Inr () \<Longrightarrow>
    ConsumeInputs (inputTracker n) (Inputs x) = Inr tr \<Longrightarrow>
    lstep E n (fst (upsert_and_recompute E (n\<lparr>inputTracker := tr\<rparr>)
      (normalizeTransfer (crypt E) x) (EncodeTransfer x) []))"

inductive wstep :: "env \<Rightarrow> world \<Rightarrow> world \<Rightarrow> bool" for E where
  ws_tick: "wstep E w (tick w)"
| ws_node: "nstep E (nodes w a) m \<Longrightarrow> wstep E w (put w a m)"

inductive_cases nstepE: "nstep E n m"
inductive_cases lstepE: "lstep E n m"
inductive_cases wstepE: "wstep E w v"

lemma put_simps [simp]:
  shows "nodes (put w a n) b = (if b = a then n else nodes w b)" and "rng (put w a n) = rng w"
    and "put (put w a n) a m = put w a m" and "nodes (tick w) = nodes w" and "rng (tick w) = rng w + 1"
  by (simp_all add: put_def tick_def)

lemma step_steps: "wstep E w v \<Longrightarrow> (wstep E)\<^sup>*\<^sup>* v u \<Longrightarrow> (wstep E)\<^sup>*\<^sup>* w u"
  by (rule converse_rtranclp_into_rtranclp)

text \<open>What a handler needs of the operation that sends: its effect is a sequence of steps.\<close>

locale delivery =
  fixes E :: env and sendTo :: "world \<Rightarrow> nat \<Rightarrow> peer_id \<Rightarrow> message \<Rightarrow> outcome"
  assumes sendTo_steps: "sendTo w a to msg = Some (w', r) \<Longrightarrow> (wstep E)\<^sup>*\<^sup>* w w'"
begin

lemma step_send:
  assumes "sendTo (tick w) a to msg = Some (w', r)"
  shows "(wstep E)\<^sup>*\<^sup>* w w'"
  by (rule step_steps[OF ws_tick sendTo_steps[OF assms]])

lemma broadcastINV_steps: "broadcastINV E sendTo w a ttl t ps = Some (w', r) \<Longrightarrow> (wstep E)\<^sup>*\<^sup>* w w'"
proof (induction ps arbitrary: w)
  case (Cons p ps)
  from Cons.prems show ?case unfolding broadcastINV.simps
  proof (cases rule: andThen_SomeE)
    case (2 v)
    from step_send[OF 2(1)] Cons.IH[OF 2(2)] show ?thesis by (rule rtranclp_trans)
  qed (rule step_send)
qed simp

lemma handleINV_steps: "handleINV E sendTo w a f msg = Some (w', r) \<Longrightarrow> (wstep E)\<^sup>*\<^sup>* w w'"
  by (auto simp: handleINV_def step_send split: sum.splits if_splits)

lemma handleGET_steps: "handleGET E sendTo w a f msg = Some (w', r) \<Longrightarrow> (wstep E)\<^sup>*\<^sup>* w w'"
  by (auto simp: handleGET_def step_send split: sum.splits option.splits)

lemma handleProofRequest_steps:
  "handleProofRequest E sendTo w a f msg = Some (w', r) \<Longrightarrow> (wstep E)\<^sup>*\<^sup>* w w'"
  by (auto simp: handleProofRequest_def Let_def step_send split: sum.splits)

lemma handleTX_steps:
  assumes "handleTX E sendTo w a f msg = Some (w', r)"
  shows "(wstep E)\<^sup>*\<^sup>* w w'"
proof (cases "\<exists>x. tx_of (crypt E) msg = Inr x
    \<and> validateTransfer (crypt E) (nodes w a) (normalizeTransfer (crypt E) x) = Inr ()")
  case False
  then show ?thesis using assms by (auto simp: handleTX_eq split: sum.splits)
next
  case True
  then obtain x where x: "tx_of (crypt E) msg = Inr x"
    and v: "validateTransfer (crypt E) (nodes w a) (normalizeTransfer (crypt E) x) = Inr ()" by blast
  obtain n q where n: "upsert_and_recompute E (nodes w a) (normalizeTransfer (crypt E) x)
      (EncodeTransfer x) f = (n, q)" by fastforce
  have "nstep E (nodes w a) n" using ns_store[OF tx_of_Inr(1)[OF x] v, of f] n by simp
  then have p: "(wstep E)\<^sup>*\<^sup>* w (put w a n)" by (intro r_into_rtranclp ws_node)
  from assms have "w' = put w a n \<or> (\<exists>t. broadcastINV E sendTo (put w a n) a (TTL msg) t (peerIDsExcept n f)
      = Some (w', r))"
    by (simp add: handleTX_eq x v n split: sum.splits if_splits prod.splits) (metis)+
  then show ?thesis using p broadcastINV_steps rtranclp_trans[OF p] by blast
qed

lemma handleProofResponse_steps:
  assumes "handleProofResponse E w a f msg = Some (w', r)"
  shows "(wstep E)\<^sup>*\<^sup>* w w'"
proof (cases "DecodeProofResponsePayload (Payload msg)")
  case (Inr payload)
  let ?p = "\<lparr>prPeerID = f, prSeen = pSeen payload, prSeenTime = pSeenTime payload,
                 prConflict = pConflict payload, prDistance = pDistance payload\<rparr>"
  have "w' = put w a (fst (proof_and_recompute E (nodes w a) (TargetID payload) ?p))"
    using assms Inr by (auto simp: handleProofResponse_def split: prod.splits)
  moreover have "length (TargetID payload) = 32"
    using Inr by (simp add: proof_resp_payload.decode_Inr_iff proof_response_ok_def)
  ultimately show ?thesis using ws_node[OF ns_proof] by blast
qed (use assms in \<open>simp add: handleProofResponse_def\<close>)

lemma dispatch_steps: "dispatch E sendTo w a f msg = Some (w', r) \<Longrightarrow> (wstep E)\<^sup>*\<^sup>* w w'"
  by (auto simp: dispatch_def split: if_splits intro: handleINV_steps handleGET_steps handleTX_steps
      handleProofRequest_steps handleProofResponse_steps)

end

text \<open>\<open>send\<close> keeps the contract if what it delivers to does; \<open>OnMessage\<close> does at every fuel.\<close>

lemma send_steps:
  assumes "\<And>w a f m w' r. deliver w a f m = Some (w', r) \<Longrightarrow> (wstep E)\<^sup>*\<^sup>* w w'"
    and "send deliver w a to msg = Some (w', r)"
  shows "(wstep E)\<^sup>*\<^sup>* w w'"
proof -
  let ?n = "(nodes w a)\<lparr>sent := sent (nodes w a) @ [\<lparr>To = to, sMessage = msg\<rparr>]\<rparr>"
  have p: "wstep E w (put w a ?n)" by (rule ws_node[OF ns_sent])
  from assms(2) have "w' = put w a ?n \<or> (\<exists>b. deliver (put w a ?n) b (nodeID ?n) msg = Some (w', r))"
    by (auto simp: send_def Let_def split: option.splits)
  then show ?thesis using p assms(1) step_steps[OF p] by blast
qed

lemma OnMessage_steps: "OnMessage E k w a f msg = Some (w', r) \<Longrightarrow> (wstep E)\<^sup>*\<^sup>* w w'"
proof (induction k arbitrary: w a f msg w' r)
  case (Suc k)
  have "delivery E (send (OnMessage E k))"
    using send_steps[of "OnMessage E k"] Suc.IH by unfold_locales blast
  note d = delivery.dispatch_steps[OF this]
  let ?n1 = "(nodes w a)\<lparr>replayCache := PruneExpired (replayCache (nodes w a)) (clock (nodes w a))\<rparr>"
  let ?n2 = "?n1\<lparr>replayCache := MarkSeen (replayCache ?n1) (MessageID msg)\<rparr>"
  have 1: "wstep E w (put w a ?n1)" by (rule ws_node[OF ns_prune])
  have "wstep E (put w a ?n1) (put (put w a ?n1) a ?n2)"
    by (rule ws_node) (use ns_mark[of E ?n1] in simp)
  then have 2: "wstep E (put w a ?n1) (put w a ?n2)" by simp
  show ?case
  proof (cases "IsSeen (replayCache ?n1) (MessageID msg)")
    case True
    then show ?thesis using Suc.prems 1 by (auto simp: Let_def)
  next
    case False
    then have "dispatch E (send (OnMessage E k)) (put w a ?n2) a f msg = Some (w', r)"
      using Suc.prems by (simp add: Let_def)
    from d[OF this] show ?thesis
      by (rule step_steps[OF 1 step_steps[OF 2]])
  qed
qed simp

interpretation net: delivery E "send (OnMessage E k)" for E k
  using send_steps[of "OnMessage E k"] OnMessage_steps by unfold_locales blast

lemma AcceptLocalTransfer_steps:
  assumes "AcceptLocalTransfer E k w a x = Some (w', r)"
  shows "w' = w \<or> (\<exists>m. lstep E (nodes w a) m \<and> (wstep E)\<^sup>*\<^sup>* (put w a m) w')"
proof (cases "\<exists>tk. validateTransfer (crypt E) (nodes w a) (normalizeTransfer (crypt E) x) = Inr ()
    \<and> ConsumeInputs (inputTracker (nodes w a)) (Inputs x) = Inr tk")
  case False
  then show ?thesis using assms by (auto simp: AcceptLocalTransfer_def Let_def split: sum.splits)
next
  case True
  then obtain tk where v: "validateTransfer (crypt E) (nodes w a) (normalizeTransfer (crypt E) x) = Inr ()"
    and c: "ConsumeInputs (inputTracker (nodes w a)) (Inputs x) = Inr tk" by blast
  obtain n q where n: "upsert_and_recompute E ((nodes w a)\<lparr>inputTracker := tk\<rparr>)
      (normalizeTransfer (crypt E) x) (EncodeTransfer x) [] = (n, q)" by fastforce
  have p: "lstep E (nodes w a) n" using ls_local[OF v c] n by simp
  from assms v c n have "Some (w', r) = (case q of Inl e \<Rightarrow> Some (put w a n, Inl e)
      | Inr (txID, _) \<Rightarrow> broadcastINV E (send (OnMessage E k)) (put w a n) a 30
          (ComputeTransferID (crypt E) x) (peerIDsExcept n []))"
    by (simp add: AcceptLocalTransfer_def Let_def tID_normalize split: sum.splits)
  then have "w' = put w a n \<or> (\<exists>t. broadcastINV E (send (OnMessage E k)) (put w a n) a 30 t
      (peerIDsExcept n []) = Some (w', r))"
    by (simp split: sum.splits if_splits prod.splits) (metis)+
  then show ?thesis using p net.broadcastINV_steps by blast
qed

end
