(* ===== verification/Node_Safety.thy ===== *)
theory Node_Safety
  imports Node_Network "HOL-Library.Sublist"
begin

text \<open>
  Safety of the network by rule induction over the steps its handlers are made of: the invariant of
  every node, what is never lost, and the absence of panics.
\<close>

section \<open>What the invariant and the validation read\<close>

lemma node_inv_val:
  assumes "node_inv P n"
    and "txStore m = txStore n" and "conflictSets m = conflictSets n"
    and "selectedLineage m = selectedLineage n" and "finalityState m = finalityState n"
    and "peerObservations m = peerObservations n" and "cache_wf (replayCache m)" and "val_inv P m"
  shows "node_inv P m"
proof -
  have t: "txs m = txs n" and s: "selected_on m = selected_on n"
    by (simp_all add: fun_eq_iff txs_def selected_on_def assms)
  have "rec_inv P m = rec_inv P n" by (simp add: rec_inv_def record_wf_def t assms)
  moreover have "conf_inv m = conf_inv n" by (simp add: conf_inv_def t assms)
  moreover have "sel_inv {} m = sel_inv {} n" by (simp add: sel_inv_def s assms)
  moreover have "fin_inv {} m = fin_inv {} n"
    by (simp add: fin_inv_def status_agrees_def selected_everywhere_def t s assms)
  ultimately show ?thesis using assms(1,7,8) by (simp add: node_inv_def core_inv_def)
qed

lemma node_inv_cong:
  assumes "node_inv P n"
    and "txStore m = txStore n" and "valueStore m = valueStore n" and "conflictSets m = conflictSets n"
    and "selectedLineage m = selectedLineage n" and "finalityState m = finalityState n"
    and "peerObservations m = peerObservations n" and "cache_wf (replayCache m)"
  shows "node_inv P m"
proof -
  have "txs m = txs n" by (simp add: fun_eq_iff txs_def assms)
  then have "val_inv P m"
    using core_invD(3)[OF node_invD(1)[OF assms(1)]] by (simp add: val_inv_def assms)
  then show ?thesis by (intro node_inv_val[OF assms(1)]) (simp_all add: assms)
qed

lemma resolveSigner_loop_cong:
  "valueStore m = valueStore n \<Longrightarrow> resolveSigner_loop m w is = resolveSigner_loop n w is"
  by (induction "is" arbitrary: w) (simp_all split: option.split)

lemma validateTransfer_cong:
  assumes "valueStore m = valueStore n" and "clock m = clock n"
  shows "validateTransfer P m x = validateTransfer P n x"
  by (simp add: validateTransfer_def resolveSigner_def resolveSigner_loop_cong[OF assms(1)] assms(2))

section \<open>Accepting a transfer\<close>

text \<open>Whatever its input, the recomputation writes nothing but the two derived maps.\<close>

lemma updateFinality_derived: "derived_only n (updateFinalityForTransfer E n t)"
  by (simp add: updateFinality_eq derived_only_def split: option.split)

lemma fold_derived: "derived_only n (fold (\<lambda>t n. updateFinalityForTransfer E n t) ts n)"
proof (induction ts arbitrary: n)
  case (Cons t ts)
  show ?case using derived_only_trans[OF updateFinality_derived Cons.IH] by simp
qed simp

lemma recompute_input_derived: "recomputeSelectionForInput E n i = Inr m \<Longrightarrow> derived_only n m"
proof -
  assume a: "recomputeSelectionForInput E n i = Inr m"
  have l: "derived_only n (n\<lparr>selectedLineage := l\<rparr>)" for l by (simp add: derived_only_def)
  from a show ?thesis
    using l derived_only_trans[OF l fold_derived]
    by (auto simp: recomputeSelectionForInput_def Let_def bindE_Inr_iff split: if_splits)
qed

lemma recompute_inputs_derived: "recompute_inputs E n is = Inr m \<Longrightarrow> derived_only n m"
proof (induction "is" arbitrary: n)
  case (Cons i js)
  then obtain k where "recomputeSelectionForInput E n i = Inr k" "recompute_inputs E k js = Inr m"
    by (auto simp: bindE_Inr_iff)
  with Cons.IH show ?case using recompute_input_derived derived_only_trans by blast
qed simp

lemma recompute_derived: "recomputeSelectionForTransfer E n t = Inr m \<Longrightarrow> derived_only n m"
  by (auto simp: recomputeSelectionForTransfer_def bindE_Inr_iff dest!: recompute_inputs_derived
      intro: derived_only_trans[OF _ updateFinality_derived] split: option.splits)

text \<open>The fields that message handling reads but acceptance leaves alone.\<close>

definition same_links :: "node \<Rightarrow> node \<Rightarrow> bool" where
  "same_links n m \<longleftrightarrow> nodeID m = nodeID n \<and> sender m = sender n \<and> peers m = peers n
     \<and> sent m = sent n \<and> clock m = clock n \<and> replayCache m = replayCache n
     \<and> inputTracker m = inputTracker n \<and> proofStore m = proofStore n"

lemma accept_effect:
  assumes inv: "node_inv (crypt E) n"
    and v: "validateTransfer (crypt E) n (normalizeTransfer (crypt E) x) = Inr ()"
  obtains m where
    "upsert_and_recompute E n (normalizeTransfer (crypt E) x) (EncodeTransfer x) f
       = (m, Inr (ComputeTransferID (crypt E) x, txs n (ComputeTransferID (crypt E) x) = None))"
    and "node_inv (crypt E) m" and "same_links n m"
    and "txs m = (if txs n (ComputeTransferID (crypt E) x) = None
           then (txs n)(ComputeTransferID (crypt E) x \<mapsto> normalizeTransfer (crypt E) x) else txs n)"
proof -
  let ?P = "crypt E" and ?t = "ComputeTransferID (crypt E) x" and ?x = "normalizeTransfer (crypt E) x"
  note I = node_invD[OF inv]
  note wf = validate_transfer_wf[OF v]
  show thesis
  proof (cases "txs n ?t = None")
    case True
    let ?n1 = "inserted_node ?P n ?x (EncodeTransfer x) f"
    have u: "upsertTransfer ?P n ?x (EncodeTransfer x) f = (?n1, ?t, True)"
      using True by (simp add: upsertTransfer_cases Let_def)
    have core: "core_inv ?P ?n1" using True wf by (intro core_inv_inserted[OF I(1)]) simp_all
    have tx: "txs ?n1 = (txs n)(?t \<mapsto> ?x)" by (simp add: fun_eq_iff txs_inserted)
    have sel: "sel_inv (set (Inputs x)) ?n1" and fin: "fin_inv {?t} ?n1"
      using sel_fin_inserted[OF core_invD(2)[OF I(1)], of ?P ?x] True I(2,3) by simp_all
    from recompute_transfer_inv[OF core_invD(2)[OF core] sel fin, of ?t ?x E] tx obtain m where
      m: "recomputeSelectionForTransfer E ?n1 ?t = Inr m" "derived_only ?n1 m"
        "sel_inv {} m" "fin_inv {} m" by auto
    show thesis
    proof (rule that[of m])
      show "upsert_and_recompute E n ?x (EncodeTransfer x) f = (m, Inr (?t, txs n ?t = None))"
        using True u m(1) by (simp add: upsert_and_recompute_def)
      show "node_inv ?P m"
        using core m I(4) derived_only_core[OF m(2)]
        by (simp add: node_inv_def derived_onlyD[OF m(2)] frame_simps)
      show "same_links n m" by (simp add: same_links_def derived_onlyD[OF m(2)] frame_simps)
      show "txs m = (if txs n ?t = None then (txs n)(?t \<mapsto> ?x) else txs n)"
        using True tx by (simp add: derived_onlyD[OF m(2)])
    qed
  next
    case False
    let ?n1 = "setSeenCount (observePeer n ?t f) ?t"
    have u: "upsertTransfer ?P n ?x (EncodeTransfer x) f = (?n1, ?t, False)"
      using False by (simp add: upsertTransfer_cases Let_def)
    have core: "core_inv ?P ?n1" using False by (intro core_inv_observed[OF I(1)]) simp_all
    have tx: "txs ?n1 = txs n" by (simp add: fun_eq_iff)
    from False obtain y where y: "txs ?n1 ?t = Some y" by auto
    from recompute_transfer_inv[OF core_invD(2)[OF core] sel_fin_observed(1)[OF I(2)]
        sel_fin_observed(2)[OF I(3)] y, of E] obtain m where
      m: "recomputeSelectionForTransfer E ?n1 ?t = Inr m" "derived_only ?n1 m"
        "sel_inv {} m" "fin_inv {} m" by auto
    show thesis
    proof (rule that[of m])
      show "upsert_and_recompute E n ?x (EncodeTransfer x) f = (m, Inr (?t, txs n ?t = None))"
        using False u m(1) by (simp add: upsert_and_recompute_def)
      show "node_inv ?P m"
        using core m I(4) derived_only_core[OF m(2)]
        by (simp add: node_inv_def derived_onlyD[OF m(2)] frame_simps)
      show "same_links n m" by (simp add: same_links_def derived_onlyD[OF m(2)] frame_simps)
      show "txs m = (if txs n ?t = None then (txs n)(?t \<mapsto> ?x) else txs n)"
        using False tx derived_onlyD(14)[OF m(2)] by (simp only: if_False)
    qed
  qed
qed

text \<open>Acceptance adds the outputs to the values and overwrites no other value.\<close>

lemma storeOutputs_other: "h \<notin> vID ` set vs \<Longrightarrow> map_of (valueStore (storeOutputs n vs)) h = map_of (valueStore n) h"
  by (induction vs arbitrary: n) (simp_all add: gm.get_put)

lemma upsert_values:
  assumes "h \<notin> ComputeValueID P ` set (Outputs x)" and "upsertTransfer P n (normalizeTransfer P x) c f = (m, t, ins)"
  shows "map_of (valueStore m) h = map_of (valueStore n) h"
proof -
  have "map_of (valueStore (inserted_node P n (normalizeTransfer P x) c f)) h = map_of (valueStore n) h"
    using assms(1) by (simp add: inserted_node_def Let_def frame_simps storeOutputs_other image_image)
  then show ?thesis using assms(2) by (auto simp: upsertTransfer_cases Let_def frame_simps split: if_splits)
qed

lemma accept_derived:
  assumes "upsert_and_recompute E n x c f = (m, r)"
  obtains k t ins where "upsertTransfer (crypt E) n x c f = (k, t, ins)" and "derived_only k m"
proof -
  obtain k t ins where u: "upsertTransfer (crypt E) n x c f = (k, t, ins)" by (metis prod.exhaust)
  show thesis
  proof (rule that[OF u])
    show "derived_only k m"
    proof (cases "recomputeSelectionForTransfer E k t")
      case (Inr m')
      then show ?thesis using assms u recompute_derived[OF Inr] by (simp add: upsert_and_recompute_def)
    qed (use assms u in \<open>simp add: upsert_and_recompute_def\<close>)
  qed
qed

lemma accept_values:
  assumes "upsert_and_recompute E n (normalizeTransfer (crypt E) x) c f = (m, r)"
    and "txs n (ComputeTransferID (crypt E) x) = None \<Longrightarrow> h \<notin> ComputeValueID (crypt E) ` set (Outputs x)"
  shows "map_of (valueStore m) h = map_of (valueStore n) h"
proof -
  obtain k t ins where u: "upsertTransfer (crypt E) n (normalizeTransfer (crypt E) x) c f = (k, t, ins)"
    and d: "derived_only k m"
    by (rule accept_derived[OF assms(1)])
  have "map_of (valueStore k) h = map_of (valueStore n) h"
  proof (cases "txs n (ComputeTransferID (crypt E) x) = None")
    case True
    then show ?thesis using upsert_values[OF assms(2) u] by simp
  next
    case False
    then show ?thesis using u by (auto simp: upsertTransfer_cases Let_def frame_simps)
  qed
  then show ?thesis by (simp add: derived_onlyD(2)[OF d])
qed

lemma proof_derived: "derived_only (updateProof n t p) (fst (proof_and_recompute E n t p))"
  by (cases "recomputeSelectionForTransfer E (updateProof n t p) t")
    (auto simp: proof_and_recompute_def Let_def dest: recompute_derived)

text \<open>Storing a proof record and recomputing its target.\<close>

lemma proof_effect:
  assumes inv: "node_inv (crypt E) n"
  obtains m where "proof_and_recompute E n t p = (m, Inr ())" and "node_inv (crypt E) m"
    and "txs m = txs n" and "nodeID m = nodeID n" and "sender m = sender n" and "peers m = peers n"
    and "sent m = sent n" and "clock m = clock n" and "replayCache m = replayCache n"
    and "inputTracker m = inputTracker n" and "proofStore m = proofStore (updateProof n t p)"
proof -
  let ?n1 = "updateProof n t p"
  note I = node_invD[OF inv]
  have tx: "txs ?n1 = txs n" by (simp add: fun_eq_iff txs_def updateProof_def)
  have "node_inv (crypt E) ?n1"
    by (rule node_inv_cong[OF inv]) (use I(4) in \<open>simp_all add: updateProof_def\<close>)
  note core = node_invD(1)[OF this] and sel = node_invD(2)[OF this] and fin = node_invD(3)[OF this]
  obtain m where m: "proof_and_recompute E n t p = (m, Inr ())" "derived_only ?n1 m"
      "sel_inv {} m" "fin_inv {} m"
  proof (cases "txs ?n1 t")
    case None
    then have "\<not> hasTransfer ?n1 t" by (simp add: txs_hasTransfer)
    then show thesis using sel fin by (intro that[of ?n1]) (simp_all add: proof_and_recompute_def Let_def)
  next
    case (Some x)
    from recompute_transfer_inv[OF core_invD(2)[OF core] sel fin Some, of E] obtain m where
      "recomputeSelectionForTransfer E ?n1 t = Inr m" "derived_only ?n1 m" "sel_inv {} m" "fin_inv {} m"
      by auto
    then show thesis
      using Some by (intro that[of m]) (simp_all add: proof_and_recompute_def Let_def txs_hasTransfer)
  qed
  note d = derived_onlyD[OF m(2)]
  show thesis
  proof (rule that[OF m(1)])
    show "node_inv (crypt E) m"
      using core m(3,4) I(4) derived_only_core[OF m(2)] by (simp add: node_inv_def d updateProof_def)
  qed (simp_all add: d tx, simp_all add: updateProof_def)
qed

section \<open>The invariant of every node\<close>

lemma nstep_inv:
  assumes "nstep E n m" and inv: "node_inv (crypt E) n"
  shows "node_inv (crypt E) m"
  using assms(1)
proof cases
  case (ns_store x f)
  from accept_effect[OF inv ns_store(3), of f] ns_store(1) show ?thesis by (metis fst_conv)
next
  case (ns_proof t p)
  from proof_effect[OF inv, of t p] ns_proof show ?thesis by (metis fst_conv)
qed (use node_invD(4)[OF inv] in \<open>auto intro!: node_inv_cong[OF inv]\<close>)

text \<open>What no step takes away, and the fields no step writes.\<close>

definition grows :: "node \<Rightarrow> node \<Rightarrow> bool" where
  "grows n m \<longleftrightarrow> (\<forall>t x. txs n t = Some x \<longrightarrow> txs m t = Some x)
     \<and> consumed_set (inputTracker n) \<subseteq> consumed_set (inputTracker m) \<and> prefix (sent n) (sent m)
     \<and> nodeID m = nodeID n \<and> sender m = sender n \<and> peers m = peers n \<and> clock m = clock n"

lemma grows_refl [simp]: "grows n n"
  by (simp add: grows_def)

lemma grows_trans: "grows n m \<Longrightarrow> grows m k \<Longrightarrow> grows n k"
  by (auto simp: grows_def intro: prefix_order.trans)

lemma same_links_grows:
  assumes "same_links n m" and "\<And>t x. txs n t = Some x \<Longrightarrow> txs m t = Some x"
  shows "grows n m"
  using assms by (simp add: grows_def same_links_def)

lemma nstep_grows:
  assumes "nstep E n m" and inv: "node_inv (crypt E) n"
  shows "grows n m"
  using assms(1)
proof cases
  case (ns_store x f)
  obtain k where k: "m = k" "same_links n k"
    "txs k = (if txs n (ComputeTransferID (crypt E) x) = None
           then (txs n)(ComputeTransferID (crypt E) x \<mapsto> normalizeTransfer (crypt E) x) else txs n)"
    using accept_effect[OF inv ns_store(3), of f] ns_store(1) by (metis fst_conv)
  then show ?thesis by (intro same_links_grows) (auto split: if_splits)
next
  case (ns_proof t p)
  show ?thesis
    by (rule proof_effect[OF inv, of t p]) (use ns_proof in \<open>simp add: grows_def\<close>)
qed (simp_all add: grows_def txs_def)

text \<open>The same for a transfer submitted here.\<close>

lemma lstep_keeps:
  assumes "lstep E n m" and inv: "node_inv (crypt E) n"
  shows "node_inv (crypt E) m" and "grows n m" and "\<exists>tr. same_links (n\<lparr>inputTracker := tr\<rparr>) m"
proof -
  from assms(1) obtain x tr where
    m: "m = fst (upsert_and_recompute E (n\<lparr>inputTracker := tr\<rparr>) (normalizeTransfer (crypt E) x)
          (EncodeTransfer x) [])"
    and v: "validateTransfer (crypt E) n (normalizeTransfer (crypt E) x) = Inr ()"
    and tr: "ConsumeInputs (inputTracker n) (Inputs x) = Inr tr"
    by (elim lstepE) blast
  let ?n = "n\<lparr>inputTracker := tr\<rparr>"
  have i: "node_inv (crypt E) ?n"
    by (rule node_inv_cong[OF inv]) (use node_invD(4)[OF inv] in simp_all)
  have v': "validateTransfer (crypt E) ?n (normalizeTransfer (crypt E) x) = Inr ()"
    using v validateTransfer_cong[of ?n n] by simp
  have tx: "txs ?n = txs n" by (simp add: txs_def fun_eq_iff)
  obtain k where k: "m = k" "node_inv (crypt E) k" "same_links ?n k"
    "txs k = (if txs ?n (ComputeTransferID (crypt E) x) = None
           then (txs ?n)(ComputeTransferID (crypt E) x \<mapsto> normalizeTransfer (crypt E) x) else txs ?n)"
    using accept_effect[OF i v', of "[]"] m by (metis fst_conv)
  then show "node_inv (crypt E) m" and "\<exists>tr. same_links (n\<lparr>inputTracker := tr\<rparr>) m" by auto
  have "grows ?n k" using k unfolding tx by (intro same_links_grows) (auto simp: tx split: if_splits)
  moreover have "grows n ?n" using ConsumeInputs_set[OF tr] by (simp add: grows_def tx)
  ultimately show "grows n m" using k(1) grows_trans by blast
qed

definition world_inv :: "env \<Rightarrow> world \<Rightarrow> bool" where
  "world_inv E w \<longleftrightarrow> (\<forall>a. node_inv (crypt E) (nodes w a))"

definition world_grows :: "world \<Rightarrow> world \<Rightarrow> bool" where
  "world_grows w v \<longleftrightarrow> (\<forall>a. grows (nodes w a) (nodes v a))"

lemma world_growsD: "world_grows w v \<Longrightarrow> grows (nodes w a) (nodes v a)"
  by (simp add: world_grows_def)

lemma wstep_keeps:
  assumes "wstep E w v" and "world_inv E w"
  shows "world_inv E v" and "world_grows w v"
  using assms nstep_inv nstep_grows
  by (auto elim!: wstepE simp: world_inv_def world_grows_def)

lemma wsteps_keep:
  assumes "(wstep E)\<^sup>*\<^sup>* w v" and "world_inv E w"
  shows "world_inv E v \<and> world_grows w v"
  using assms
proof (induction rule: rtranclp_induct)
  case base
  then show ?case by (simp add: world_grows_def)
next
  case (step u v)
  then have "world_inv E u" and "world_grows w u" by simp_all
  with wstep_keeps[OF step.hyps(2)] show ?case
    unfolding world_grows_def using grows_trans by blast
qed

lemmas OnMessage_keeps = wsteps_keep[OF OnMessage_steps]

lemma AcceptLocal_keeps:
  assumes "AcceptLocalTransfer E k w a x = Some (v, r)" and inv: "world_inv E w"
  shows "world_inv E v \<and> world_grows w v"
  using AcceptLocalTransfer_steps[OF assms(1)]
proof (elim disjE exE conjE)
  fix m
  assume l: "lstep E (nodes w a) m" and s: "(wstep E)\<^sup>*\<^sup>* (put w a m) v"
  have n: "node_inv (crypt E) (nodes w b)" for b using inv by (simp add: world_inv_def)
  have "world_inv E (put w a m)" using lstep_keeps(1)[OF l n] n by (simp add: world_inv_def)
  from wsteps_keep[OF s this] show ?thesis
    using lstep_keeps(2)[OF l n] grows_trans unfolding world_grows_def
    by (metis put_simps(1))
qed (simp add: inv world_grows_def)

end
