(* ===== verification/Node_Runs.thy ===== *)
theory Node_Runs
  imports Node_Safety
begin

text \<open>
  Runs of a network: the calls that reach the nodes from outside (a message from a transport, a
  transfer submitted at its origin, setup and the passing of time), in any order, and the
  properties of every reachable state.
\<close>

section \<open>Events and runs\<close>

datatype event =
    Receive nat peer_id message
  | Submit nat transfer
  | Seed nat web4_value
  | Connect nat nat
  | ConnectID nat peer_id
  | UseSender nat "(peer_id \<Rightarrow> message \<Rightarrow> error option) option"
  | SetNow nat int64
  | WallClock nat int64

fun exec :: "env \<Rightarrow> nat \<Rightarrow> world \<Rightarrow> event \<Rightarrow> outcome" where
  "exec E k w (Receive a from msg) = OnMessage E k w a from msg"
| "exec E k w (Submit a tx) = AcceptLocalTransfer E k w a tx"
| "exec E k w (Seed a v) = Some (put w a (SeedValue (crypt E) (nodes w a) v), Inr ())"
| "exec E k w (Connect a b) = Some (put w a (AddPeer (nodes w a) (nodeID (nodes w b)) b), Inr ())"
| "exec E k w (ConnectID a p) = Some (put w a (AddPeerID (nodes w a) p), Inr ())"
| "exec E k w (UseSender a f) = Some (put w a (SetSender (nodes w a) f), Inr ())"
| "exec E k w (SetNow a t) = Some (put w a (SetNowFunc (nodes w a) t), Inr ())"
| "exec E k w (WallClock a t) =
     Some (put w a ((nodes w a)\<lparr>replayCache := (replayCache (nodes w a))\<lparr>rcNow := t\<rparr>\<rparr>), Inr ())"

fun run :: "env \<Rightarrow> (nat \<times> event) list \<Rightarrow> world \<Rightarrow> world option" where
  "run E [] w = Some w"
| "run E ((k, ev) # evs) w =
     (case exec E k w ev of None \<Rightarrow> None | Some (v, r) \<Rightarrow> run E evs v)"

definition initial :: "world \<Rightarrow> bool" where
  "initial w \<longleftrightarrow> (\<forall>a. \<exists>i t. nodes w a = NewNode i t)"

definition reachable :: "env \<Rightarrow> world \<Rightarrow> bool" where
  "reachable E w \<longleftrightarrow> (\<exists>w0 evs. initial w0 \<and> run E evs w0 = Some w)"

lemma run_append: "run E (xs @ ys) w = Option.bind (run E xs w) (run E ys)"
  by (induction xs arbitrary: w) (auto split: option.split)

lemma reachable_run: "reachable E w \<Longrightarrow> run E evs w = Some v \<Longrightarrow> reachable E v"
  unfolding reachable_def by (metis run_append bind.bind_lunit)

text \<open>An invariant of the network holds initially and is kept by every event.\<close>

lemma run_invariant:
  assumes "run E evs w = Some v" and "I w"
    and "\<And>k ev w v r. (k, ev) \<in> set evs \<Longrightarrow> I w \<Longrightarrow> exec E k w ev = Some (v, r) \<Longrightarrow> I v"
  shows "I v"
  using assms
proof (induction evs arbitrary: w)
  case (Cons p evs)
  obtain k ev where p: "p = (k, ev)" by fastforce
  from Cons.prems(1) p obtain u r where u: "exec E k w ev = Some (u, r)" "run E evs u = Some v"
    by (auto split: option.splits)
  have "I u" using Cons.prems(3)[of k ev w u r] Cons.prems(2) u(1) p by simp
  then show ?case
    by (rule Cons.IH[OF u(2)]) (rule Cons.prems(3), auto)
qed simp

section \<open>The invariant of a reachable network\<close>

lemma SeedValue_inv:
  assumes "node_inv P n"
  shows "node_inv P (SeedValue P n v)"
proof -
  let ?v = "v\<lparr>vID := ComputeValueID P v\<rparr>" and ?m = "SeedValue P n v"
  have m: "?m = n\<lparr>valueStore := mput (vID ?v) ?v (valueStore n)\<rparr>"
    by (simp add: SeedValue_def Let_def)
  have "val_inv P ?m"
    using core_invD(3)[OF node_invD(1)[OF assms]]
    by (auto simp: m val_inv_def txs_def gm.get_put)
  then show ?thesis using node_invD(4)[OF assms] by (intro node_inv_val[OF assms]) (simp_all add: m)
qed

lemma exec_world_inv:
  assumes "exec E k w ev = Some (v, r)" and inv: "world_inv E w"
  shows "world_inv E v"
proof -
  have n: "node_inv (crypt E) (nodes w a)" for a using inv by (simp add: world_inv_def)
  have c: "cache_wf (replayCache (nodes w a))" for a by (rule node_invD(4)[OF n])
  have 1: "world_inv E (put w a m)" if "node_inv (crypt E) m" for a m
    using that n by (simp add: world_inv_def)
  show ?thesis
  proof (cases ev)
    case (Receive a f m)
    then show ?thesis using OnMessage_keeps assms by simp
  next
    case (Submit a x)
    then show ?thesis using AcceptLocal_keeps assms by simp
  next
    case (Seed a u)
    then show ?thesis using assms 1[OF SeedValue_inv[OF n]] by auto
  next
    case (Connect a b)
    then show ?thesis using assms c by (auto intro!: 1 node_inv_cong[OF n] simp: AddPeer_def)
  next
    case (ConnectID a p)
    then show ?thesis using assms c by (auto intro!: 1 node_inv_cong[OF n] simp: AddPeerID_def)
  next
    case (UseSender a f)
    then show ?thesis using assms c by (auto intro!: 1 node_inv_cong[OF n] simp: SetSender_def)
  next
    case (SetNow a t)
    then show ?thesis using assms c by (auto intro!: 1 node_inv_cong[OF n] simp: SetNowFunc_def)
  next
    case (WallClock a t)
    then show ?thesis using assms c by (auto intro!: 1 node_inv_cong[OF n] simp: cache_wf_def)
  qed
qed

lemma initial_inv: "initial w \<Longrightarrow> world_inv E w"
  unfolding initial_def world_inv_def using NewNode_inv by metis

lemma run_world_inv: "run E evs w = Some v \<Longrightarrow> world_inv E w \<Longrightarrow> world_inv E v"
  by (rule run_invariant[where I = "world_inv E"]) (auto intro: exec_world_inv)

lemma reachable_world_inv: "reachable E w \<Longrightarrow> world_inv E w"
  unfolding reachable_def using initial_inv run_world_inv by blast

lemma reachable_node_inv: "reachable E w \<Longrightarrow> node_inv (crypt E) (nodes w a)"
  using reachable_world_inv by (simp add: world_inv_def)

text \<open>Nothing the network does, setup included, forgets a transfer or a spent input.\<close>

definition keeps :: "node \<Rightarrow> node \<Rightarrow> bool" where
  "keeps n m \<longleftrightarrow> (\<forall>t x. txs n t = Some x \<longrightarrow> txs m t = Some x)
     \<and> consumed_set (inputTracker n) \<subseteq> consumed_set (inputTracker m) \<and> prefix (sent n) (sent m)"

lemma keeps_refl [simp]: "keeps n n" by (simp add: keeps_def)

lemma grows_keeps: "grows n m \<Longrightarrow> keeps n m" by (simp add: grows_def keeps_def)

lemma keeps_trans: "keeps n m \<Longrightarrow> keeps m k \<Longrightarrow> keeps n k"
  by (auto simp: keeps_def intro: prefix_order.trans)

lemma exec_keeps:
  assumes "exec E k w ev = Some (v, r)" and "world_inv E w"
  shows "keeps (nodes w a) (nodes v a)"
proof -
  have g: "world_grows w v \<Longrightarrow> ?thesis" by (rule grows_keeps[OF world_growsD])
  show ?thesis
  proof (cases ev)
    case (Receive b f m)
    then show ?thesis using g OnMessage_keeps[of E k w b f m v r] assms by simp
  next
    case (Submit b x)
    then show ?thesis using g AcceptLocal_keeps[of E k w b x v r] assms by simp
  qed (use assms(1) in \<open>auto simp: SeedValue_def AddPeer_def AddPeerID_def SetSender_def SetNowFunc_def
        Let_def keeps_def txs_def\<close>)
qed

lemma run_keeps:
  assumes "run E evs w = Some v" and "world_inv E w"
  shows "keeps (nodes w a) (nodes v a)"
proof -
  have "world_inv E v \<and> keeps (nodes w a) (nodes v a)"
    by (rule run_invariant[OF assms(1), where I = "\<lambda>v. world_inv E v \<and> keeps (nodes w a) (nodes v a)"])
      (use assms(2) in \<open>auto intro: exec_world_inv exec_keeps keeps_trans\<close>)
  then show ?thesis by simp
qed

end
