(* ===== verification/Node_Panics.thy ===== *)
theory Node_Panics
  imports Node_Runs
begin

text \<open>
  No message, however malformed, makes a reachable node panic: no slice is read out of bounds, no
  nil record is dereferenced, unless the transport's own send function does so.
\<close>

definition is_panic :: "error \<Rightarrow> bool" where
  "is_panic e \<longleftrightarrow> e = PanicSliceBounds \<or> e = PanicNilDeref"

section \<open>Decoders\<close>

lemma decodeBytesAt_nil: "decodeBytesAt data off \<noteq> Inl PanicNilDeref"
  by (auto simp: decodeBytesAt_def decodeUint32At_def avail_def bindE_Inl_iff Let_def split: if_splits)

lemma decodeValue_nil: "decodeValue P data off \<noteq> Inl PanicNilDeref"
  using decodeBytesAt_nil
  by (auto simp: decodeValue_def decodeUint64At_def avail_def bindE_Inl_iff Let_def split: if_splits)

lemma decode_many_nil:
  "(\<And>i off. dec i data off \<noteq> Inl PanicNilDeref) \<Longrightarrow> decode_many dec i n data off \<noteq> Inl PanicNilDeref"
  by (induction n arbitrary: i off) (auto simp: bindE_Inl_iff)

lemma decodeTransfer_nil: "decodeTransfer P data off \<noteq> Inl PanicNilDeref"
  using decode_many_nil[of decodeInputAt data] decode_many_nil[of "\<lambda>i. decodeValue P" data] decodeValue_nil
  by (auto simp: decodeTransfer_def decodeUint32At_def decodeInputAt_def avail_def bindE_Inl_iff Let_def
      split: if_splits)

lemma decodeLengthPrefixed_nil: "decodeLengthPrefixedBytes data off \<noteq> Inl PanicNilDeref"
  by (auto simp: decodeLengthPrefixedBytes_def avail_def bindE_Inl_iff Let_def split: if_splits)

lemma decoders_no_panic:
  shows "DecodeINVID b = Inl e \<Longrightarrow> \<not> is_panic e"
    and "DecodeGETID b = Inl e \<Longrightarrow> \<not> is_panic e"
    and "DecodeProofRequestPayload b = Inl e \<Longrightarrow> \<not> is_panic e"
    and "DecodeProofResponsePayload b = Inl e \<Longrightarrow> \<not> is_panic e"
    and "DecodeTXPayload b = Inl e \<Longrightarrow> \<not> is_panic e"
    and "DecodeTransfer P b = Inl e \<Longrightarrow> \<not> is_panic e"
proof -
  show "DecodeINVID b = Inl e \<Longrightarrow> \<not> is_panic e" "DecodeGETID b = Inl e \<Longrightarrow> \<not> is_panic e"
    "DecodeProofRequestPayload b = Inl e \<Longrightarrow> \<not> is_panic e"
    by (auto simp: DecodeINVID_def DecodeGETID_def DecodeProofRequestPayload_def is_panic_def split: if_splits)
  show "DecodeProofResponsePayload b = Inl e \<Longrightarrow> \<not> is_panic e"
    by (auto simp: DecodeProofResponsePayload_def is_panic_def bindE_Inl_iff decodeBool_def Let_def
        split: if_splits)
  show "DecodeTXPayload b = Inl e \<Longrightarrow> \<not> is_panic e"
    using tx_payload.payload_no_panic[of b] decodeLengthPrefixed_nil
    by (auto simp: is_panic_def DecodeTXPayload_def bindE_Inl_iff split: if_splits)
  show "DecodeTransfer P b = Inl e \<Longrightarrow> \<not> is_panic e"
    using transfer_payload.payload_no_panic[of P b] decodeTransfer_nil
    by (auto simp: is_panic_def DecodeTransfer_def bindE_Inl_iff Let_def split: if_splits)
qed

lemma resolveSigner_no_panic: "resolveSigner_loop n w is = Inl e \<Longrightarrow> \<not> is_panic e"
  by (induction "is" arbitrary: w) (auto simp: is_panic_def split: option.splits if_splits)

lemma checkExpiry_no_panic: "checkExpiry t i vs = Inl e \<Longrightarrow> \<not> is_panic e"
  by (induction vs arbitrary: i) (auto simp: is_panic_def split: if_splits)

lemma validate_no_panic: "validateTransfer P n x = Inl e \<Longrightarrow> \<not> is_panic e"
  using resolveSigner_no_panic checkExpiry_no_panic
  by (auto simp: validateTransfer_def resolveSigner_def bindE_Inl_iff split: if_splits)
     (simp_all add: is_panic_def)

lemma tx_of_no_panic: "tx_of P msg = Inl e \<Longrightarrow> \<not> is_panic e"
  using decoders_no_panic(5,6) by (auto simp: tx_of_def bindE_Inl_iff)

section \<open>Handlers\<close>

text \<open>Networks whose send functions do not panic.\<close>

definition safe :: "env \<Rightarrow> world \<Rightarrow> bool" where
  "safe E w \<longleftrightarrow> world_inv E w
     \<and> (\<forall>a f p m e. sender (nodes w a) = Some f \<longrightarrow> f p m = Some e \<longrightarrow> \<not> is_panic e)"

lemma safe_steps: "(wstep E)\<^sup>*\<^sup>* w v \<Longrightarrow> safe E w \<Longrightarrow> safe E v"
  using wsteps_keep[of E w v] by (auto simp: safe_def world_grows_def grows_def)

lemma safe_step: "wstep E w v \<Longrightarrow> safe E w \<Longrightarrow> safe E v"
  using safe_steps r_into_rtranclp[of "wstep E"] by blast

lemma proof_Inr: "node_inv (crypt E) n \<Longrightarrow> proof_and_recompute E n t p = (m, r) \<Longrightarrow> r = Inr ()"
  by (rule proof_effect[of E n t p]) simp_all

locale safe_delivery = delivery E sendTo for E sendTo +
  assumes sendTo_safe: "safe E w \<Longrightarrow> sendTo w a to msg = Some (w', Inl e) \<Longrightarrow> \<not> is_panic e"
begin

lemma send_safe: "safe E w \<Longrightarrow> sendTo (tick w) a to msg = Some (w', Inl e) \<Longrightarrow> \<not> is_panic e"
  by (rule sendTo_safe[OF safe_step[OF ws_tick]])

lemma broadcastINV_safe:
  "safe E w \<Longrightarrow> broadcastINV E sendTo w a ttl t ps = Some (w', Inl e) \<Longrightarrow> \<not> is_panic e"
proof (induction ps arbitrary: w)
  case (Cons p ps)
  from Cons.prems(2) show ?case unfolding broadcastINV.simps
  proof (cases rule: andThen_SomeE)
    case (1 e')
    then show ?thesis using send_safe[OF Cons.prems(1)] by simp
  next
    case (2 v)
    from Cons.IH[OF safe_steps[OF step_send[OF 2(1)] Cons.prems(1)] 2(2)] show ?thesis .
  qed
qed simp

lemma handleTX_safe:
  assumes "safe E w" and "handleTX E sendTo w a f msg = Some (w', Inl e)"
  shows "\<not> is_panic e"
proof (cases "\<exists>x. tx_of (crypt E) msg = Inr x
    \<and> validateTransfer (crypt E) (nodes w a) (normalizeTransfer (crypt E) x) = Inr ()")
  case False
  then show ?thesis using assms(2) tx_of_no_panic validate_no_panic
    by (auto simp: handleTX_eq split: sum.splits)
next
  case True
  then obtain x where x: "tx_of (crypt E) msg = Inr x"
    and v: "validateTransfer (crypt E) (nodes w a) (normalizeTransfer (crypt E) x) = Inr ()" by blast
  have "node_inv (crypt E) (nodes w a)" using assms(1) by (simp add: safe_def world_inv_def)
  from accept_effect[OF this v, of f] obtain n t ins where
    n: "upsert_and_recompute E (nodes w a) (normalizeTransfer (crypt E) x) (EncodeTransfer x) f
      = (n, Inr (t, ins))" by metis
  then have "nstep E (nodes w a) n" using ns_store[OF tx_of_Inr(1)[OF x] v, of f] by simp
  then have s: "safe E (put w a n)"
    using assms(1) by (blast intro: safe_step ws_node)
  from assms(2) have "broadcastINV E sendTo (put w a n) a (TTL msg) t (peerIDsExcept n f) = Some (w', Inl e)"
    by (simp add: handleTX_eq x v n split: if_splits)
  then show ?thesis by (rule broadcastINV_safe[OF s])
qed

lemma dispatch_safe:
  assumes "safe E w" and "dispatch E sendTo w a f msg = Some (w', Inl e)"
  shows "\<not> is_panic e"
proof -
  have "\<not> is_panic e" if "handleINV E sendTo w a f msg = Some (w', Inl e)"
    using that decoders_no_panic(1) send_safe[OF assms(1)]
    by (auto simp: handleINV_def split: sum.splits if_splits)
  moreover have "\<not> is_panic e" if "handleGET E sendTo w a f msg = Some (w', Inl e)"
    using that decoders_no_panic(2) send_safe[OF assms(1)]
    by (auto simp: handleGET_def split: sum.splits option.splits)
  moreover have "\<not> is_panic e" if "handleProofRequest E sendTo w a f msg = Some (w', Inl e)"
    using that decoders_no_panic(3) send_safe[OF assms(1)]
    by (auto simp: handleProofRequest_def Let_def split: sum.splits)
  moreover have "\<not> is_panic e" if "handleProofResponse E w a f msg = Some (w', Inl e)"
  proof (cases "DecodeProofResponsePayload (Payload msg)")
    case (Inr p)
    have "node_inv (crypt E) (nodes w a)" using assms(1) by (simp add: safe_def world_inv_def)
    then have i: "proof_and_recompute E (nodes w a) t q = (m, r) \<Longrightarrow> r = Inr ()" for t q m r
      by (rule proof_Inr)
    obtain m r where "proof_and_recompute E (nodes w a) (TargetID p) \<lparr>prPeerID = f,
        prSeen = pSeen p, prSeenTime = pSeenTime p, prConflict = pConflict p,
        prDistance = pDistance p\<rparr> = (m, r)" by (rule prod.exhaust)
    then show ?thesis using i[of _ _ m r] that Inr by (auto simp: handleProofResponse_def)
  qed (use that decoders_no_panic(4) in \<open>auto simp: handleProofResponse_def\<close>)
  moreover have "\<not> is_panic (UnsupportedMessageType n)" for n by (simp add: is_panic_def)
  ultimately show ?thesis
    using assms(2) handleTX_safe[OF assms(1)] unfolding dispatch_def by (auto split: if_splits)
qed

end

lemma send_safe_from:
  assumes "\<And>w a f m w' e. safe E w \<Longrightarrow> deliver w a f m = Some (w', Inl e) \<Longrightarrow> \<not> is_panic e"
    and "safe E w" and "send deliver w a to msg = Some (w', Inl e)"
  shows "\<not> is_panic e"
proof -
  let ?n = "(nodes w a)\<lparr>sent := sent (nodes w a) @ [\<lparr>To = to, sMessage = msg\<rparr>]\<rparr>"
  have "safe E (put w a ?n)"
    using assms(2) by (blast intro: safe_step ws_node ns_sent)
  note del = assms(1)[OF this]
  have "(\<exists>g. sender (nodes w a) = Some g \<and> g to msg = Some e) \<or> e = ErrUnknownPeer
      \<or> (\<exists>b. deliver (put w a ?n) b (nodeID ?n) msg = Some (w', Inl e))"
    using assms(3) by (auto simp: send_def Let_def split: option.splits)
  moreover have "\<not> is_panic ErrUnknownPeer" by (simp add: is_panic_def)
  ultimately show ?thesis using assms(2) del unfolding safe_def by blast
qed

lemma OnMessage_safe: "safe E w \<Longrightarrow> OnMessage E k w a f msg = Some (w', Inl e) \<Longrightarrow> \<not> is_panic e"
proof (induction k arbitrary: w a f msg w' e)
  case (Suc k)
  have "safe_delivery E (send (OnMessage E k))"
    using send_safe_from[of E "OnMessage E k"] Suc.IH by unfold_locales blast
  note d = safe_delivery.dispatch_safe[OF this]
  let ?n1 = "(nodes w a)\<lparr>replayCache := PruneExpired (replayCache (nodes w a)) (clock (nodes w a))\<rparr>"
  let ?n2 = "?n1\<lparr>replayCache := MarkSeen (replayCache ?n1) (MessageID msg)\<rparr>"
  have 1: "safe E (put w a ?n1)"
    using Suc.prems(1) by (blast intro: safe_step ws_node ns_prune)
  have "wstep E (put w a ?n1) (put (put w a ?n1) a ?n2)"
    by (rule ws_node) (use ns_mark[of E ?n1] in simp)
  then have 2: "safe E (put w a ?n2)" using 1 safe_step by simp
  show ?case using Suc.prems(2) d[OF 2] by (auto simp: Let_def split: if_splits)
qed simp

interpretation snet: safe_delivery E "send (OnMessage E k)" for E k
  using send_safe_from[of E "OnMessage E k"] OnMessage_safe by unfold_locales blast

end
