(* ===== verification/Node_Liveness.thy ===== *)
theory Node_Liveness
  imports Node_Panics
begin

text \<open>
  Message handling always ends. A message sets off calls that nest: an INV asks for the transfer
  with a GET, the GET is answered with a TX inside the same call, and a node that stores a new
  transfer announces it with INVs of its own. The nesting is bounded because every third call
  stores the transfer at a node that lacked it. \<open>lack\<close> counts those nodes.
\<close>

section \<open>Networks with finitely many nodes\<close>

definition stored_wire :: "env \<Rightarrow> world \<Rightarrow> bool" where
  "stored_wire E w \<longleftrightarrow> (\<forall>a t x. txs (nodes w a) t = Some x \<longrightarrow> wire_ok (crypt E) x)"

definition closed_net :: "nat set \<Rightarrow> world \<Rightarrow> bool" where
  "closed_net A w \<longleftrightarrow> (\<forall>a \<in> A. \<forall>p b. map_of (peers (nodes w a)) p = Some (Some b) \<longrightarrow> b \<in> A)"

definition net_ok :: "env \<Rightarrow> nat set \<Rightarrow> world \<Rightarrow> bool" where
  "net_ok E A w \<longleftrightarrow> finite A \<and> closed_net A w \<and> world_inv E w \<and> stored_wire E w"

definition lack :: "nat set \<Rightarrow> world \<Rightarrow> hash \<Rightarrow> nat" where
  "lack A w t = card {a \<in> A. txs (nodes w a) t = None}"

lemma wire_ok_normalize: "wire_ok P x \<Longrightarrow> wire_ok P (normalizeTransfer P x)"
  by (simp add: wire_ok_def content_ok_def value_ok_def)

lemma nstep_wire:
  assumes "nstep E n m" and inv: "node_inv (crypt E) n"
    and "\<And>t x. txs n t = Some x \<Longrightarrow> wire_ok (crypt E) x" and "txs m t = Some y"
  shows "wire_ok (crypt E) y"
  using assms(1)
proof cases
  case (ns_store x f)
  obtain k where "m = k" and "txs k = (if txs n (ComputeTransferID (crypt E) x) = None
           then (txs n)(ComputeTransferID (crypt E) x \<mapsto> normalizeTransfer (crypt E) x) else txs n)"
    using accept_effect[OF inv ns_store(3), of f] ns_store(1) by (metis fst_conv)
  then show ?thesis
    using assms(3,4) wire_ok_normalize[OF ns_store(2)] by (auto split: if_splits)
next
  case (ns_proof u p)
  show ?thesis
    by (rule proof_effect[OF inv, of u p]) (use ns_proof assms(3,4) in simp)
qed (use assms(3,4) in \<open>simp_all add: txs_def\<close>)

lemma wsteps_net_ok:
  assumes "(wstep E)\<^sup>*\<^sup>* w v" and "net_ok E A w"
  shows "net_ok E A v"
  using assms
proof (induction rule: rtranclp_induct)
  case (step u v)
  then have u: "net_ok E A u" by simp
  then have n: "node_inv (crypt E) (nodes u a)" for a by (simp add: net_ok_def world_inv_def)
  note keep = wstep_keeps[OF step.hyps(2)]
  have "stored_wire E v"
    using step.hyps(2) u nstep_wire[OF _ n]
    by (elim wstepE) (auto simp: stored_wire_def net_ok_def split: if_splits)
  moreover have "peers (nodes v a) = peers (nodes u a)" for a
    using keep(2) u by (simp add: net_ok_def world_grows_def grows_def)
  ultimately show ?case using u keep by (simp add: net_ok_def closed_net_def)
qed simp

lemma lack_mono:
  assumes "world_grows w v" and "finite A"
  shows "lack A v t \<le> lack A w t"
  unfolding lack_def
proof (rule card_mono)
  show "finite {a \<in> A. txs (nodes w a) t = None}" using assms(2) by simp
  show "{a \<in> A. txs (nodes v a) t = None} \<subseteq> {a \<in> A. txs (nodes w a) t = None}"
    using assms(1) by (auto simp: world_grows_def grows_def) (metis option.distinct(1) not_None_eq)
qed

lemma wsteps_lack: "(wstep E)\<^sup>*\<^sup>* w v \<Longrightarrow> net_ok E A w \<Longrightarrow> lack A v t \<le> lack A w t"
  using wsteps_keep[of E w v] lack_mono by (auto simp: net_ok_def)

lemma lack_less:
  assumes "finite A" and "a \<in> A" and "txs (nodes w a) t = None" and "txs n t \<noteq> None"
  shows "lack A (put w a n) t < lack A w t"
  unfolding lack_def
proof (rule psubset_card_mono)
  show "finite {a \<in> A. txs (nodes w a) t = None}" using assms(1) by simp
  show "{b \<in> A. txs (nodes (put w a n) b) t = None} \<subset> {a \<in> A. txs (nodes w a) t = None}"
    using assms(2-4) by auto
qed

section \<open>Operations that return\<close>

text \<open>
  \<open>answers A d w B\<close>: the delivery \<open>d\<close> returns on messages of the class \<open>B\<close> to the nodes of \<open>A\<close>, in
  \<open>w\<close> and in every state the handlers may reach from it.
\<close>

definition answers ::
  "env \<Rightarrow> nat set \<Rightarrow> (world \<Rightarrow> nat \<Rightarrow> peer_id \<Rightarrow> message \<Rightarrow> outcome) \<Rightarrow> world \<Rightarrow> (message \<Rightarrow> bool) \<Rightarrow> bool"
where
  "answers E A d w B \<longleftrightarrow>
     (\<forall>v b f msg. (wstep E)\<^sup>*\<^sup>* w v \<longrightarrow> b \<in> A \<longrightarrow> B msg \<longrightarrow> d v b f msg \<noteq> None)"

lemma answersD:
  "answers E A d w B \<Longrightarrow> (wstep E)\<^sup>*\<^sup>* w v \<Longrightarrow> b \<in> A \<Longrightarrow> B msg \<Longrightarrow> d v b f msg \<noteq> None"
  unfolding answers_def by blast

lemma send_answers:
  assumes "answers E A d w B" and ok: "net_ok E A w"
  shows "answers E A (send d) w B"
  unfolding answers_def
proof (intro allI impI)
  fix v a to msg
  assume v: "(wstep E)\<^sup>*\<^sup>* w v" and a: "a \<in> A" and B: "B msg"
  let ?n = "(nodes v a)\<lparr>sent := sent (nodes v a) @ [\<lparr>To = to, sMessage = msg\<rparr>]\<rparr>"
  have "(wstep E)\<^sup>*\<^sup>* w (put v a ?n)"
    by (rule rtranclp.rtrancl_into_rtrancl[OF v ws_node[OF ns_sent]])
  then have "d (put v a ?n) b f msg \<noteq> None" if "b \<in> A" for b f
    using answersD[OF assms(1)] that B by blast
  moreover have "b \<in> A" if "map_of (peers (nodes v a)) to = Some (Some b)" for b
    using wsteps_net_ok[OF v ok] a that by (auto simp: net_ok_def closed_net_def)
  ultimately show "send d v a to msg \<noteq> None"
    by (auto simp: send_def Let_def split: option.split)
qed

lemma broadcast_answers:
  assumes "answers E A (send d) w B" and d: "delivery E (send d)"
    and "a \<in> A" and "\<And>mid ts. B (NewINVMessage mid ts ttl t)"
  shows "(wstep E)\<^sup>*\<^sup>* w v \<Longrightarrow> broadcastINV E (send d) v a ttl t ps \<noteq> None"
proof (induction ps arbitrary: v)
  case (Cons p ps)
  let ?m = "NewINVMessage (nextID E v) (clock (nodes v a)) ttl t"
  have "(wstep E)\<^sup>*\<^sup>* w (tick v)" by (rule rtranclp.rtrancl_into_rtrancl[OF Cons.prems ws_tick])
  then have "send d (tick v) a p ?m \<noteq> None" using answersD[OF assms(1)] assms(3,4) by blast
  then obtain u r where u: "send d (tick v) a p ?m = Some (u, r)" by fastforce
  have "(wstep E)\<^sup>*\<^sup>* w u" using Cons.prems delivery.step_send[OF d u] by (rule rtranclp_trans)
  then show ?case using Cons.IH u by (cases r) simp_all
qed simp

lemma OnMessage_returns:
  assumes "\<And>v. (wstep E)\<^sup>*\<^sup>* w v \<Longrightarrow> dispatch E (send (OnMessage E k)) v a f msg \<noteq> None"
  shows "OnMessage E (Suc k) w a f msg \<noteq> None"
proof -
  let ?n1 = "(nodes w a)\<lparr>replayCache := PruneExpired (replayCache (nodes w a)) (clock (nodes w a))\<rparr>"
  let ?n2 = "?n1\<lparr>replayCache := MarkSeen (replayCache ?n1) (MessageID msg)\<rparr>"
  have 1: "wstep E w (put w a ?n1)" by (rule ws_node[OF ns_prune])
  have "wstep E (put w a ?n1) (put (put w a ?n1) a ?n2)"
    by (rule ws_node) (use ns_mark[of E ?n1] in simp)
  then have "(wstep E)\<^sup>*\<^sup>* w (put w a ?n2)" using 1 by simp
  from assms[OF this] show ?thesis by (simp add: Let_def)
qed

section \<open>The messages of one exchange\<close>

definition is_inv :: "hash \<Rightarrow> message \<Rightarrow> bool" where
  "is_inv t msg \<longleftrightarrow> mType msg = INV \<and> (\<forall>u. DecodeINVID (Payload msg) = Inr u \<longrightarrow> u = t)"

definition is_get :: "hash \<Rightarrow> message \<Rightarrow> bool" where
  "is_get t msg \<longleftrightarrow> mType msg = GET \<and> (\<forall>u. DecodeGETID (Payload msg) = Inr u \<longrightarrow> u = t)"

definition is_tx :: "prims \<Rightarrow> hash \<Rightarrow> message \<Rightarrow> bool" where
  "is_tx P t msg \<longleftrightarrow> mType msg = TX \<and> (\<forall>x. tx_of P msg = Inr x \<longrightarrow> ComputeTransferID P x = t)"

lemma msg_types_distinct [simp]:
  shows "GET \<noteq> INV" "TX \<noteq> INV" "TX \<noteq> GET" "PROOF_REQ \<noteq> INV" "PROOF_REQ \<noteq> GET" "PROOF_REQ \<noteq> TX"
    and "PROOF_RESP \<noteq> INV" "PROOF_RESP \<noteq> GET" "PROOF_RESP \<noteq> TX" "PROOF_RESP \<noteq> PROOF_REQ"
  by (simp_all add: msg_types)

lemma is_inv_new: "is_inv t (NewINVMessage mid ts ttl t)"
  by (simp add: is_inv_def new_message_defs DecodeINVID_def EncodeINVID_def)

lemma is_get_new: "is_get t (NewGETMessage mid ts ttl t)"
  by (simp add: is_get_def new_message_defs DecodeGETID_def EncodeGETID_def)

lemma tx_of_new:
  assumes "wire_ok P x"
  shows "tx_of P (NewTXMessage mid ts ttl x)
     = Inr (x\<lparr>tID := ComputeTransferID P x, Timestamp := 0\<rparr>)"
proof -
  let ?b = "x\<lparr>tID := ComputeTransferID P x, Sig := [], Timestamp := 0\<rparr>"
  let ?p = "\<lparr>TransferBytes = EncodeTransfer x, Signature = Sig x\<rparr>"
  have "DecodeTXPayload (EncodeTXPayload (TransferBytes ?p) (Signature ?p)) = Inr ?p"
    by (rule tx_payload.decode_encode) (use assms in \<open>simp add: tx_payload_ok_def wire_ok_def\<close>)
  moreover have "transfer_ok P ?b"
    using assms by (simp add: transfer_ok_def content_ok_def wire_ok_def)
  then have "DecodeTransfer P (EncodeTransfer ?b) = Inr ?b" by (rule transfer_payload.decode_encode)
  ultimately show ?thesis by (simp add: tx_of_def new_message_defs)
qed

lemma is_tx_new: "wire_ok P x \<Longrightarrow> is_tx P (ComputeTransferID P x) (NewTXMessage mid ts ttl x)"
  by (simp add: is_tx_def tx_of_new) (simp add: new_message_defs)

text \<open>One level of the nesting, for each of the three messages.\<close>

lemma tx_level:
  assumes ok: "net_ok E A w" and a: "a \<in> A" and msg: "is_tx (crypt E) t msg"
    and rec: "\<And>v. net_ok E A v \<Longrightarrow> lack A v t < lack A w t \<Longrightarrow> answers E A (OnMessage E k) v (is_inv t)"
  shows "OnMessage E (Suc k) w a f msg \<noteq> None"
proof (rule OnMessage_returns)
  fix v
  assume v: "(wstep E)\<^sup>*\<^sup>* w v"
  note vok = wsteps_net_ok[OF v ok]
  have vn: "node_inv (crypt E) (nodes v a)" using vok by (simp add: net_ok_def world_inv_def)
  have "handleTX E (send (OnMessage E k)) v a f msg \<noteq> None"
  proof (cases "\<exists>x. tx_of (crypt E) msg = Inr x
      \<and> validateTransfer (crypt E) (nodes v a) (normalizeTransfer (crypt E) x) = Inr ()")
    case False
    then show ?thesis by (auto simp: handleTX_eq split: sum.splits)
  next
    case True
    then obtain x where x: "tx_of (crypt E) msg = Inr x"
      and val: "validateTransfer (crypt E) (nodes v a) (normalizeTransfer (crypt E) x) = Inr ()" by blast
    have t: "ComputeTransferID (crypt E) x = t" using msg x by (simp add: is_tx_def)
    from accept_effect[OF vn val, of f] obtain n where
      n: "upsert_and_recompute E (nodes v a) (normalizeTransfer (crypt E) x) (EncodeTransfer x) f
        = (n, Inr (t, txs (nodes v a) t = None))"
      and tx: "txs n = (if txs (nodes v a) t = None
           then (txs (nodes v a))(t \<mapsto> normalizeTransfer (crypt E) x) else txs (nodes v a))"
      unfolding t by metis
    show ?thesis
    proof (cases "txs (nodes v a) t = None")
      case False
      then show ?thesis by (simp add: handleTX_eq x val n)
    next
      case True
      have step: "(wstep E)\<^sup>*\<^sup>* v (put v a n)"
        using ws_node[OF ns_store[OF tx_of_Inr(1)[OF x] val, of f]] n by (simp add: r_into_rtranclp)
      have nok: "net_ok E A (put v a n)" by (rule wsteps_net_ok[OF step vok])
      have "lack A (put v a n) t < lack A v t"
        using vok a True tx by (intro lack_less) (simp_all add: net_ok_def)
      then have "lack A (put v a n) t < lack A w t" using wsteps_lack[OF v ok, of t] by simp
      from send_answers[OF rec[OF nok this] nok]
      have "broadcastINV E (send (OnMessage E k)) (put v a n) a (TTL msg) t (peerIDsExcept n f) \<noteq> None"
        using broadcast_answers[where B = "is_inv t"] net.delivery_axioms a is_inv_new by blast
      then show ?thesis using True by (simp add: handleTX_eq x val n)
    qed
  qed
  then show "dispatch E (send (OnMessage E k)) v a f msg \<noteq> None"
    using msg by (simp add: dispatch_def is_tx_def)
qed

lemma get_level:
  assumes ok: "net_ok E A w" and a: "a \<in> A" and msg: "is_get t msg"
    and rec: "answers E A (OnMessage E k) w (is_tx (crypt E) t)"
  shows "OnMessage E (Suc k) w a f msg \<noteq> None"
proof (rule OnMessage_returns)
  fix v
  assume v: "(wstep E)\<^sup>*\<^sup>* w v"
  note vok = wsteps_net_ok[OF v ok]
  have "send (OnMessage E k) (tick v) a f (NewTXMessage mid ts ttl (Tx r)) \<noteq> None"
    if "map_of (txStore (nodes v a)) t = Some r" for r mid ts ttl
  proof -
    have "txs (nodes v a) t = Some (Tx r)" using that by (simp add: txs_def)
    then have "wire_ok (crypt E) (Tx r)" and "ComputeTransferID (crypt E) (Tx r) = t"
      using vok by (auto simp: net_ok_def stored_wire_def world_inv_def node_inv_def core_inv_def
          rec_inv_def transfer_wf_def)
    then have "is_tx (crypt E) t (NewTXMessage mid ts ttl (Tx r))" using is_tx_new by blast
    moreover have "(wstep E)\<^sup>*\<^sup>* w (tick v)" by (rule rtranclp.rtrancl_into_rtrancl[OF v ws_tick])
    ultimately show ?thesis using answersD[OF send_answers[OF rec ok]] a by blast
  qed
  then have "handleGET E (send (OnMessage E k)) v a f msg \<noteq> None"
    using msg by (auto simp: handleGET_def is_get_def split: sum.split option.split)
  then show "dispatch E (send (OnMessage E k)) v a f msg \<noteq> None"
    using msg by (simp add: dispatch_def is_get_def)
qed

lemma inv_level:
  assumes ok: "net_ok E A w" and a: "a \<in> A" and msg: "is_inv t msg"
    and rec: "answers E A (OnMessage E k) w (is_get t)"
  shows "OnMessage E (Suc k) w a f msg \<noteq> None"
proof (rule OnMessage_returns)
  fix v
  assume v: "(wstep E)\<^sup>*\<^sup>* w v"
  have "(wstep E)\<^sup>*\<^sup>* w (tick v)" by (rule rtranclp.rtrancl_into_rtrancl[OF v ws_tick])
  then have "send (OnMessage E k) (tick v) a f (NewGETMessage mid ts ttl t) \<noteq> None" for mid ts ttl
    using answersD[OF send_answers[OF rec ok]] a is_get_new by blast
  then have "handleINV E (send (OnMessage E k)) v a f msg \<noteq> None"
    using msg by (auto simp: handleINV_def is_inv_def split: sum.split)
  then show "dispatch E (send (OnMessage E k)) v a f msg \<noteq> None"
    using msg by (simp add: dispatch_def is_inv_def)
qed

section \<open>Enough fuel\<close>

text \<open>Three calls for each node that lacks the transfer, and one more.\<close>

lemma tx_returns:
  assumes "net_ok E A w" and "lack A w t \<le> l" and "3 * l + 1 \<le> k"
  shows "answers E A (OnMessage E k) w (is_tx (crypt E) t)"
  using assms
proof (induction l arbitrary: k w rule: less_induct)
  case (less l)
  obtain j where k: "k = Suc j" using less.prems(3) by (cases k) simp_all
  have inv: "answers E A (OnMessage E j) v (is_inv t)" if ok: "net_ok E A v" and lt: "lack A v t < l" for v
  proof -
    obtain i where j: "j = Suc (Suc i)" and i: "3 * lack A v t + 1 \<le> i"
      using less.prems(3) lt k by (cases j; cases "j - 1") auto
    have "answers E A (OnMessage E i) u (is_tx (crypt E) t)" if u: "(wstep E)\<^sup>*\<^sup>* v u" for u
      using less.IH[OF lt wsteps_net_ok[OF u ok] wsteps_lack[OF u ok] i] .
    then have "OnMessage E (Suc i) u b f msg \<noteq> None"
      if "(wstep E)\<^sup>*\<^sup>* v u" and "b \<in> A" and "is_get t msg" for u b f msg
      using get_level[OF wsteps_net_ok[OF that(1) ok] that(2,3)] that(1) by blast
    then have g: "answers E A (OnMessage E (Suc i)) u (is_get t)" if "(wstep E)\<^sup>*\<^sup>* v u" for u
      using that rtranclp_trans[OF that] unfolding answers_def by blast
    show ?thesis unfolding answers_def j
      using inv_level[OF wsteps_net_ok[OF _ ok] _ _ g] by blast
  qed
  show ?case unfolding answers_def k
  proof (intro allI impI)
    fix v b f msg
    assume v: "(wstep E)\<^sup>*\<^sup>* w v" and b: "b \<in> A" and m: "is_tx (crypt E) t msg"
    have "lack A v t \<le> l" using wsteps_lack[OF v less.prems(1), of t] less.prems(2) by simp
    then show "OnMessage E (Suc j) v b f msg \<noteq> None"
      by (intro tx_level[OF wsteps_net_ok[OF v less.prems(1)] b m] inv) simp_all
  qed
qed


lemma get_returns:
  assumes "net_ok E A w" and "a \<in> A" and "is_get t msg" and "3 * card A + 2 \<le> k"
  shows "OnMessage E k w a f msg \<noteq> None"
proof -
  have "lack A w t \<le> card A" using assms(1) by (auto simp: lack_def net_ok_def intro: card_mono)
  moreover obtain j where "k = Suc j" "3 * card A + 1 \<le> j" using assms(4) by (cases k) auto
  ultimately show ?thesis using get_level[OF assms(1-3)] tx_returns[OF assms(1)] by blast
qed

lemma inv_returns:
  assumes "net_ok E A w" and "a \<in> A" and "is_inv t msg" and "3 * card A + 3 \<le> k"
  shows "OnMessage E k w a f msg \<noteq> None"
proof -
  obtain j where j: "k = Suc j" "3 * card A + 2 \<le> j" using assms(4) by (cases k) auto
  have "answers E A (OnMessage E j) w (is_get t)"
    unfolding answers_def using get_returns[OF wsteps_net_ok[OF _ assms(1)]] j(2) by blast
  then show ?thesis using inv_level[OF assms(1-3)] j(1) by blast
qed

lemma proof_resp_returns:
  assumes "mType msg = PROOF_RESP" and "1 \<le> k"
  shows "OnMessage E k w a f msg \<noteq> None"
proof -
  obtain j where k: "k = Suc j" using assms(2) by (cases k) auto
  have "dispatch E (send (OnMessage E j)) v a f msg \<noteq> None" for v
    using assms(1) by (simp add: dispatch_def handleProofResponse_def split: sum.split prod.split)
  then show ?thesis unfolding k by (rule OnMessage_returns)
qed

lemma proof_req_returns:
  assumes ok: "net_ok E A w" and a: "a \<in> A" and "mType msg = PROOF_REQ" and "2 \<le> k"
  shows "OnMessage E k w a f msg \<noteq> None"
proof -
  obtain j where k: "k = Suc j" "1 \<le> j" using assms(4) by (cases k) auto
  let ?B = "\<lambda>m. mType m = PROOF_RESP"
  have "answers E A (OnMessage E j) w ?B"
    unfolding answers_def using proof_resp_returns k(2) by blast
  note ans = send_answers[OF this ok]
  have "send (OnMessage E j) (tick v) a f m \<noteq> None"
    if v: "(wstep E)\<^sup>*\<^sup>* w v" and "?B m" for v m
    using answersD[OF ans rtranclp.rtrancl_into_rtrancl[OF v ws_tick] a that(2)] .
  moreover have "?B (NewProofResponseMessage mid ts ttl p)" for mid ts ttl p
    by (simp add: new_message_defs)
  ultimately have "dispatch E (send (OnMessage E j)) v a f msg \<noteq> None" if "(wstep E)\<^sup>*\<^sup>* w v" for v
    using that assms(3) by (simp add: dispatch_def handleProofRequest_def Let_def split: sum.split)
  then show ?thesis unfolding k(1) by (rule OnMessage_returns)
qed

lemma OnMessage_enough:
  assumes ok: "net_ok E A w" and a: "a \<in> A" and k: "3 * card A + 3 \<le> k"
  shows "OnMessage E k w a f msg \<noteq> None"
proof -
  have pick: "\<exists>t. \<forall>u. r = Inr u \<longrightarrow> u = t" for r :: "error + hash" by (cases r) auto
  consider "mType msg = INV" | "mType msg = GET" | "mType msg = TX" | "mType msg = PROOF_REQ"
    | "mType msg \<notin> {INV, GET, TX, PROOF_REQ}" by blast
  then show ?thesis
  proof cases
    case 1
    then obtain t where "is_inv t msg" using pick[of "DecodeINVID (Payload msg)"] by (auto simp: is_inv_def)
    then show ?thesis by (rule inv_returns[OF ok a _ k])
  next
    case 2
    then obtain t where "is_get t msg" using pick[of "DecodeGETID (Payload msg)"] by (auto simp: is_get_def)
    then show ?thesis using k by (intro get_returns[OF ok a]) simp_all
  next
    case 3
    obtain t where t: "is_tx (crypt E) t msg"
    proof (cases "tx_of (crypt E) msg")
      case (Inr x)
      then show thesis using 3 that[of "ComputeTransferID (crypt E) x"] by (simp add: is_tx_def)
    qed (use 3 that[of "[]"] in \<open>simp add: is_tx_def\<close>)
    have "lack A w t \<le> card A" using ok by (auto simp: lack_def net_ok_def intro: card_mono)
    from tx_returns[OF ok this, of k] k have "answers E A (OnMessage E k) w (is_tx (crypt E) t)" by simp
    then show ?thesis using answersD a t by blast
  next
    case 4
    then show ?thesis using k by (intro proof_req_returns[OF ok a]) simp_all
  next
    case 5
    obtain j where j: "k = Suc j" using k by (cases k) auto
    have "dispatch E (send (OnMessage E j)) v a f msg \<noteq> None" for v
      using 5 by (simp add: dispatch_def handleProofResponse_def split: sum.split prod.split)
    then show ?thesis unfolding j by (rule OnMessage_returns)
  qed
qed


section \<open>Fuel decides nothing else\<close>

definition refines_delivery ::
  "(world \<Rightarrow> nat \<Rightarrow> peer_id \<Rightarrow> message \<Rightarrow> outcome) \<Rightarrow> (world \<Rightarrow> nat \<Rightarrow> peer_id \<Rightarrow> message \<Rightarrow> outcome) \<Rightarrow> bool"
where
  "refines_delivery d e \<longleftrightarrow> (\<forall>w a f m z. d w a f m = Some z \<longrightarrow> e w a f m = Some z)"

lemma refinesD: "refines_delivery d e \<Longrightarrow> d w a f m = Some z \<Longrightarrow> e w a f m = Some z"
  unfolding refines_delivery_def by blast

lemma send_refines: "refines_delivery d e \<Longrightarrow> refines_delivery (send d) (send e)"
  unfolding refines_delivery_def send_def Let_def by (auto split: option.splits)

lemma broadcast_refines:
  assumes "refines_delivery d e"
  shows "broadcastINV E d w a ttl t ps = Some z \<Longrightarrow> broadcastINV E e w a ttl t ps = Some z"
proof (induction ps arbitrary: w)
  case (Cons p ps)
  obtain w' r where z: "z = (w', r)" by fastforce
  from Cons.prems z have "andThen (d (tick w) a p (NewINVMessage (nextID E w) (clock (nodes w a)) ttl t))
      (\<lambda>w. broadcastINV E d w a ttl t ps) = Some (w', r)" by simp
  then show ?case
  proof (cases rule: andThen_SomeE)
    case (1 e')
    from refinesD[OF assms 1(1)] show ?thesis using 1(2) z by simp
  next
    case (2 v)
    from refinesD[OF assms 2(1)] show ?thesis using Cons.IH[of v] 2(2) z by simp
  qed
qed simp

lemma dispatch_refines:
  assumes r: "refines_delivery d e" and "dispatch E d w a f msg = Some z"
  shows "dispatch E e w a f msg = Some z"
proof -
  have "handleINV E d w a f msg = Some z \<Longrightarrow> handleINV E e w a f msg = Some z"
    and "handleGET E d w a f msg = Some z \<Longrightarrow> handleGET E e w a f msg = Some z"
    and "handleProofRequest E d w a f msg = Some z \<Longrightarrow> handleProofRequest E e w a f msg = Some z"
    using refinesD[OF r, of _ _ _ _ z]
    by (auto simp: handleINV_def handleGET_def handleProofRequest_def Let_def split: sum.splits option.splits if_splits)
  moreover have "handleTX E d w a f msg = Some z \<Longrightarrow> handleTX E e w a f msg = Some z"
    using broadcast_refines[OF r, of _ _ _ _ _ _ z] by (auto simp: handleTX_eq split: sum.splits prod.splits if_splits)
  ultimately show ?thesis using assms(2) unfolding dispatch_def by presburger
qed

lemma OnMessage_refines: "refines_delivery (OnMessage E k) (OnMessage E (Suc k))"
proof (induction k)
  case (Suc k)
  show ?case
    unfolding refines_delivery_def
  proof (intro allI impI)
    fix w a f m z
    assume h: "OnMessage E (Suc k) w a f m = Some z"
    show "OnMessage E (Suc (Suc k)) w a f m = Some z"
      unfolding OnMessage.simps(2)[of E "Suc k"] Let_def
      using h[unfolded OnMessage.simps(2)[of E k] Let_def] dispatch_refines[OF send_refines[OF Suc]]
      by (auto simp del: OnMessage.simps split: if_splits)
  qed
qed (simp add: refines_delivery_def)

lemma OnMessage_fuel:
  assumes "k \<le> l" and "OnMessage E k w a f m = Some z"
  shows "OnMessage E l w a f m = Some z"
  using assms
proof (induction rule: dec_induct)
  case (step n)
  from refinesD[OF OnMessage_refines step.IH[OF step.prems]] show ?case .
qed

section \<open>Local submission\<close>

lemma AcceptLocal_enough:
  assumes ok: "net_ok E A w" and a: "a \<in> A" and x: "wire_ok (crypt E) x" and k: "3 * card A + 3 \<le> k"
  shows "AcceptLocalTransfer E k w a x \<noteq> None"
proof (cases "\<exists>tk. validateTransfer (crypt E) (nodes w a) (normalizeTransfer (crypt E) x) = Inr ()
    \<and> ConsumeInputs (inputTracker (nodes w a)) (Inputs x) = Inr tk")
  case False
  then show ?thesis by (auto simp: AcceptLocalTransfer_def Let_def split: sum.splits)
next
  case True
  then obtain tk where v: "validateTransfer (crypt E) (nodes w a) (normalizeTransfer (crypt E) x) = Inr ()"
    and c: "ConsumeInputs (inputTracker (nodes w a)) (Inputs x) = Inr tk" by blast
  let ?n = "(nodes w a)\<lparr>inputTracker := tk\<rparr>" and ?t = "ComputeTransferID (crypt E) x"
  have n: "node_inv (crypt E) (nodes w b)" for b using ok by (simp add: net_ok_def world_inv_def)
  have i: "node_inv (crypt E) ?n"
    by (rule node_inv_cong[OF n[of a]]) (use node_invD(4)[OF n[of a]] in simp_all)
  have v': "validateTransfer (crypt E) ?n (normalizeTransfer (crypt E) x) = Inr ()"
    using v validateTransfer_cong[of ?n "nodes w a"] by simp
  have tx: "txs ?n = txs (nodes w a)" by (simp add: txs_def fun_eq_iff)
  from accept_effect[OF i v', of "[]"] obtain m where
    m: "upsert_and_recompute E ?n (normalizeTransfer (crypt E) x) (EncodeTransfer x) []
      = (m, Inr (?t, txs ?n ?t = None))" "node_inv (crypt E) m" "same_links ?n m"
    "txs m = (if txs ?n ?t = None then (txs ?n)(?t \<mapsto> normalizeTransfer (crypt E) x) else txs ?n)" .
  have "txs m u = Some y \<Longrightarrow> wire_ok (crypt E) y" for u y
    using ok wire_ok_normalize[OF x] unfolding m(4) tx net_ok_def stored_wire_def
    by (auto split: if_splits)
  then have mok: "net_ok E A (put w a m)"
    using ok m(2,3) by (auto simp: net_ok_def closed_net_def world_inv_def stored_wire_def same_links_def)
  have "answers E A (OnMessage E k) (put w a m) (is_inv ?t)"
    unfolding answers_def using OnMessage_enough[OF wsteps_net_ok[OF _ mok] _ k] by blast
  then have "answers E A (send (OnMessage E k)) (put w a m) (is_inv ?t)" by (rule send_answers[OF _ mok])
  then have "broadcastINV E (send (OnMessage E k)) (put w a m) a 30 ?t ps \<noteq> None" for ps
    using broadcast_answers[where B = "is_inv ?t"] net.delivery_axioms a is_inv_new by blast
  then show ?thesis using v c m(1) by (simp add: AcceptLocalTransfer_def Let_def tID_normalize)
qed

end
