(* ===== verification/Node_Gossip.thy ===== *)
theory Node_Gossip
  imports Node_Liveness
begin

text \<open>
  What a call achieves: a valid transfer is stored, its inputs are spent once, and the exchange of
  INV, GET and TX between two peers carries it from the one to the other, all within the call that
  submitted it.
\<close>

section \<open>Fresh identifiers\<close>

lemma IsSeen_pruned: "cache_wf c \<Longrightarrow> IsSeen (PruneExpired c t) i \<Longrightarrow> IsSeen c i"
  by (auto simp: IsSeen_PruneExpired) (simp add: IsSeen_def)

text \<open>A message seen for the first time is dispatched; only the cache has changed by then.\<close>

lemma OnMessage_first:
  assumes "cache_wf (replayCache (nodes w a))" and "\<not> IsSeen (replayCache (nodes w a)) (MessageID msg)"
  obtains c where "cache_wf c" and "\<And>j. IsSeen c j \<Longrightarrow> j = MessageID msg \<or> IsSeen (replayCache (nodes w a)) j"
    and "OnMessage E (Suc k) w a f msg
       = dispatch E (send (OnMessage E k)) (put w a ((nodes w a)\<lparr>replayCache := c\<rparr>)) a f msg"
proof -
  let ?c1 = "PruneExpired (replayCache (nodes w a)) (clock (nodes w a))"
  let ?c2 = "MarkSeen ?c1 (MessageID msg)"
  have 1: "\<not> IsSeen ?c1 (MessageID msg)" using assms IsSeen_pruned by blast
  show thesis
  proof (rule that[of ?c2])
    show "cache_wf ?c2" using assms(1) by simp
    show "j = MessageID msg \<or> IsSeen (replayCache (nodes w a)) j" if "IsSeen ?c2 j" for j
      using that IsSeen_pruned[OF assms(1)] by (auto simp: IsSeen_MarkSeen)
    show "OnMessage E (Suc k) w a f msg
       = dispatch E (send (OnMessage E k)) (put w a ((nodes w a)\<lparr>replayCache := ?c2\<rparr>)) a f msg"
      using 1 by (simp add: Let_def)
  qed
qed

lemma OnMessage_Suc: "OnMessage E k w a f msg = Some z \<Longrightarrow> \<exists>j. k = Suc j"
  by (cases k) simp_all

text \<open>\<open>a\<close> reaches \<open>b\<close> under its name, and not through a transport.\<close>

definition link :: "world \<Rightarrow> nat \<Rightarrow> nat \<Rightarrow> bool" where
  "link w a b \<longleftrightarrow> sender (nodes w a) = None
     \<and> map_of (peers (nodes w a)) (nodeID (nodes w b)) = Some (Some b)"

lemma send_link:
  assumes "link w a b"
  shows "send d w a (nodeID (nodes w b)) msg
     = d (put w a ((nodes w a)\<lparr>sent := sent (nodes w a) @ [\<lparr>To = nodeID (nodes w b), sMessage = msg\<rparr>]\<rparr>))
         b (nodeID (nodes w a)) msg"
  using assms by (simp add: link_def send_def Let_def)

lemma validate_meta [simp]:
  "validateTransfer P n (x\<lparr>tID := i, Timestamp := t\<rparr>) = validateTransfer P n x"
  by (simp add: validateTransfer_def VerifyCanonicalTransfer_def cong: if_cong)

lemma normalize_meta:
  "normalizeTransfer P (x\<lparr>tID := i, Timestamp := t\<rparr>) = (normalizeTransfer P x)\<lparr>Timestamp := t\<rparr>"
  by (rule transfer.equality) (simp_all add: tID_normalize)

lemma validate_timestamp [simp]:
  "validateTransfer P n (x\<lparr>Timestamp := t\<rparr>) = validateTransfer P n x"
  by (simp add: validateTransfer_def VerifyCanonicalTransfer_def cong: if_cong)

section \<open>TX\<close>

lemma handleTX_stores:
  assumes inv: "world_inv E w" and x: "tx_of (crypt E) msg = Inr x"
    and v: "validateTransfer (crypt E) (nodes w b) (normalizeTransfer (crypt E) x) = Inr ()"
    and d: "delivery E sendTo" and h: "handleTX E sendTo w b f msg = Some (w', r)"
  shows "txs (nodes w' b) (ComputeTransferID (crypt E) x) \<noteq> None"
proof -
  let ?t = "ComputeTransferID (crypt E) x"
  have n: "node_inv (crypt E) (nodes w b)" using inv by (simp add: world_inv_def)
  from accept_effect[OF n v, of f] obtain m where
    m: "upsert_and_recompute E (nodes w b) (normalizeTransfer (crypt E) x) (EncodeTransfer x) f
      = (m, Inr (?t, txs (nodes w b) ?t = None))" "node_inv (crypt E) m"
      "txs m = (if txs (nodes w b) ?t = None then (txs (nodes w b))(?t \<mapsto> normalizeTransfer (crypt E) x)
                else txs (nodes w b))" .
  have st: "txs m ?t \<noteq> None" using m(3) by (auto split: if_splits)
  have pinv: "world_inv E (put w b m)" using inv m(2) by (simp add: world_inv_def)
  have "w' = put w b m
      \<or> broadcastINV E sendTo (put w b m) b (TTL msg) ?t (peerIDsExcept m f) = Some (w', r)"
    using h by (auto simp: handleTX_eq x v m(1) split: if_splits)
  then have "(wstep E)\<^sup>*\<^sup>* (put w b m) w'" using delivery.broadcastINV_steps[OF d] by blast
  then have "grows (nodes (put w b m) b) (nodes w' b)"
    using wsteps_keep[OF _ pinv] world_growsD by blast
  then show ?thesis using st by (auto simp: grows_def)
qed

lemma TX_stores:
  assumes inv: "world_inv E w" and id: "\<not> IsSeen (replayCache (nodes w b)) (MessageID msg)"
    and ty: "mType msg = TX" and x: "tx_of (crypt E) msg = Inr x"
    and v: "validateTransfer (crypt E) (nodes w b) (normalizeTransfer (crypt E) x) = Inr ()"
    and r: "OnMessage E k w b f msg = Some (w', r)"
  shows "txs (nodes w' b) (ComputeTransferID (crypt E) x) \<noteq> None"
proof -
  obtain j where k: "k = Suc j" using OnMessage_Suc[OF r] by blast
  have n: "node_inv (crypt E) (nodes w b)" using inv by (simp add: world_inv_def)
  obtain c where c: "cache_wf c" and o: "OnMessage E (Suc j) w b f msg
       = dispatch E (send (OnMessage E j)) (put w b ((nodes w b)\<lparr>replayCache := c\<rparr>)) b f msg"
    by (rule OnMessage_first[OF node_invD(4)[OF n] id])
  let ?w = "put w b ((nodes w b)\<lparr>replayCache := c\<rparr>)"
  have "node_inv (crypt E) ((nodes w b)\<lparr>replayCache := c\<rparr>)"
    by (rule node_inv_cong[OF n]) (use c in simp_all)
  then have "world_inv E ?w" using inv by (simp add: world_inv_def)
  moreover have "validateTransfer (crypt E) (nodes ?w b) (normalizeTransfer (crypt E) x) = Inr ()"
    using v validateTransfer_cong[of "nodes ?w b" "nodes w b"] by simp
  moreover have "handleTX E (send (OnMessage E j)) ?w b f msg = Some (w', r)"
    using r k o ty by (simp add: dispatch_def)
  ultimately show ?thesis by (intro handleTX_stores[OF _ x _ net.delivery_axioms])
qed

text \<open>What a node does with a TX message it has not seen, on both branches.\<close>

lemma TX_accepted:
  assumes inv: "world_inv E w" and id: "\<not> IsSeen (replayCache (nodes w b)) (MessageID msg)"
    and ty: "mType msg = TX" and x: "tx_of (crypt E) msg = Inr x"
    and v: "validateTransfer (crypt E) (nodes w b) (normalizeTransfer (crypt E) x) = Inr ()"
  obtains m where "node_inv (crypt E) m" and "peers m = peers (nodes w b)" and "clock m = clock (nodes w b)"
    and "txs m = (if txs (nodes w b) (ComputeTransferID (crypt E) x) = None
           then (txs (nodes w b))(ComputeTransferID (crypt E) x \<mapsto> normalizeTransfer (crypt E) x)
           else txs (nodes w b))"
    and "OnMessage E (Suc k) w b f msg =
           (if txs (nodes w b) (ComputeTransferID (crypt E) x) = None
            then broadcastINV E (send (OnMessage E k)) (put w b m) b (TTL msg)
                   (ComputeTransferID (crypt E) x) (peerIDsExcept m f)
            else Some (put w b m, Inr ()))"
proof -
  let ?t = "ComputeTransferID (crypt E) x"
  have n: "node_inv (crypt E) (nodes w b)" using inv by (simp add: world_inv_def)
  obtain c where c: "cache_wf c" and o: "OnMessage E (Suc k) w b f msg
       = dispatch E (send (OnMessage E k)) (put w b ((nodes w b)\<lparr>replayCache := c\<rparr>)) b f msg"
    by (rule OnMessage_first[OF node_invD(4)[OF n] id])
  let ?n = "(nodes w b)\<lparr>replayCache := c\<rparr>"
  have i: "node_inv (crypt E) ?n" by (rule node_inv_cong[OF n]) (use c in simp_all)
  have v': "validateTransfer (crypt E) ?n (normalizeTransfer (crypt E) x) = Inr ()"
    using v validateTransfer_cong[of ?n "nodes w b"] by simp
  have tx: "txs ?n = txs (nodes w b)" by (simp add: txs_def fun_eq_iff)
  from accept_effect[OF i v', of f] obtain m where
    m: "upsert_and_recompute E ?n (normalizeTransfer (crypt E) x) (EncodeTransfer x) f
      = (m, Inr (?t, txs ?n ?t = None))" "node_inv (crypt E) m" "same_links ?n m"
    "txs m = (if txs ?n ?t = None then (txs ?n)(?t \<mapsto> normalizeTransfer (crypt E) x) else txs ?n)" .
  have l: "peers m = peers (nodes w b)" "clock m = clock (nodes w b)" using m(3) by (simp_all add: same_links_def)
  show thesis
    by (rule that[OF m(2) l m(4)[unfolded tx]])
      (use o ty x v' m(1) tx in \<open>simp add: dispatch_def handleTX_eq\<close>)
qed

text \<open>A TX message that does not decode or validate leaves no trace but its identifier.\<close>

lemma TX_rejected:
  assumes wf: "cache_wf (replayCache (nodes w b))"
    and id: "\<not> IsSeen (replayCache (nodes w b)) (MessageID msg)" and ty: "mType msg = TX"
    and bad: "bindE (tx_of (crypt E) msg) (\<lambda>x. validateTransfer (crypt E) (nodes w b)
       (normalizeTransfer (crypt E) x)) = Inl e"
  shows "\<exists>c. OnMessage E (Suc k) w b f msg = Some (put w b ((nodes w b)\<lparr>replayCache := c\<rparr>), Inl e)"
proof -
  obtain c where o: "OnMessage E (Suc k) w b f msg
       = dispatch E (send (OnMessage E k)) (put w b ((nodes w b)\<lparr>replayCache := c\<rparr>)) b f msg"
    by (rule OnMessage_first[OF wf id])
  have "validateTransfer (crypt E) ((nodes w b)\<lparr>replayCache := c\<rparr>) y = validateTransfer (crypt E) (nodes w b) y" for y
    by (rule validateTransfer_cong) simp_all
  then show ?thesis using o ty bad by (auto simp: dispatch_def handleTX_eq bindE_Inl_iff)
qed

section \<open>GET and INV\<close>

lemma world_inv_put: "world_inv E w \<Longrightarrow> node_inv (crypt E) m \<Longrightarrow> world_inv E (put w a m)"
  by (simp add: world_inv_def)

lemma world_inv_fields:
  assumes "world_inv E w" and "cache_wf c"
  shows "world_inv E (put (tick w) a ((nodes w a)\<lparr>sent := s\<rparr>))"
    and "world_inv E (put w a ((nodes w a)\<lparr>replayCache := c\<rparr>))"
    and "world_inv E (put (tick w) a ((nodes w a)\<lparr>replayCache := c, sent := s\<rparr>))"
proof -
  have n: "node_inv (crypt E) (nodes w b)" for b using assms(1) by (simp add: world_inv_def)
  have "node_inv (crypt E) ((nodes w a)\<lparr>sent := s\<rparr>)"
    "node_inv (crypt E) ((nodes w a)\<lparr>replayCache := c\<rparr>)"
    "node_inv (crypt E) ((nodes w a)\<lparr>replayCache := c, sent := s\<rparr>)"
    by (rule node_inv_cong[OF n[of a]]; use node_invD(4)[OF n[of a]] assms(2) in simp)+
  then show "world_inv E (put (tick w) a ((nodes w a)\<lparr>sent := s\<rparr>))"
    and "world_inv E (put w a ((nodes w a)\<lparr>replayCache := c\<rparr>))"
    and "world_inv E (put (tick w) a ((nodes w a)\<lparr>replayCache := c, sent := s\<rparr>))"
    using n by (simp_all add: world_inv_def)
qed

lemma GET_stores:
  assumes inv: "world_inv E w" and ab: "a \<noteq> b" and l: "link w a b"
    and id: "\<not> IsSeen (replayCache (nodes w a)) (MessageID msg)"
    and fresh: "\<not> IsSeen (replayCache (nodes w b)) (nextID E w)"
    and ty: "mType msg = GET" and g: "DecodeGETID (Payload msg) = Inr t"
    and x: "txs (nodes w a) t = Some x" "wire_ok (crypt E) x"
    and v: "validateTransfer (crypt E) (nodes w b) (normalizeTransfer (crypt E) x) = Inr ()"
    and r: "OnMessage E k w a (nodeID (nodes w b)) msg = Some (w', r)"
  shows "txs (nodes w' b) t \<noteq> None"
proof -
  obtain j where k: "k = Suc j" using OnMessage_Suc[OF r] by blast
  have n: "node_inv (crypt E) (nodes w a)" using inv by (simp add: world_inv_def)
  obtain c where c: "cache_wf c" and o: "OnMessage E (Suc j) w a (nodeID (nodes w b)) msg
       = dispatch E (send (OnMessage E j)) (put w a ((nodes w a)\<lparr>replayCache := c\<rparr>)) a (nodeID (nodes w b)) msg"
    by (rule OnMessage_first[OF node_invD(4)[OF n] id])
  let ?w = "tick (put w a ((nodes w a)\<lparr>replayCache := c\<rparr>))"
  let ?m = "NewTXMessage (nextID E w) (clock (nodes w a)) (TTL msg) x"
  obtain rc where rc: "map_of (txStore (nodes w a)) t = Some rc" "Tx rc = x" using x(1) by (auto simp: txs_def)
  have nid: "nextID E (put w a m) = nextID E w" for m by (simp add: nextID_def)
  have s: "send (OnMessage E j) ?w a (nodeID (nodes ?w b)) ?m = Some (w', r)"
    using r k o ty g rc ab by (simp add: dispatch_def handleGET_def nid)
  have l': "link ?w a b" using l ab by (simp add: link_def)
  obtain ss where ss: "OnMessage E j (put ?w a ((nodes ?w a)\<lparr>sent := ss\<rparr>)) b (nodeID (nodes ?w a)) ?m = Some (w', r)"
    using s unfolding send_link[OF l'] by blast
  let ?v = "put ?w a ((nodes ?w a)\<lparr>sent := ss\<rparr>)"
  have tid: "ComputeTransferID (crypt E) x = t"
    using rec_invD(1)[OF core_invD(1)[OF node_invD(1)[OF n]] x(1)] by (simp add: transfer_wf_def)
  have b: "nodes ?v b = nodes w b" using ab by simp
  have "txs (nodes w' b) (ComputeTransferID (crypt E) (x\<lparr>tID := ComputeTransferID (crypt E) x, Timestamp := 0\<rparr>)) \<noteq> None"
  proof (rule TX_stores[OF _ _ _ tx_of_new[OF x(2)] _ ss])
    show "world_inv E ?v"
    proof -
      have "node_inv (crypt E) ((nodes w a)\<lparr>replayCache := c, sent := ss\<rparr>)"
        by (rule node_inv_cong[OF n]) (use c in simp_all)
      then show ?thesis using inv by (simp add: world_inv_def)
    qed
    show "\<not> IsSeen (replayCache (nodes ?v b)) (MessageID ?m)"
      unfolding b using fresh by (simp add: new_message_defs)
    show "mType ?m = TX" by (simp add: new_message_defs)
    show "validateTransfer (crypt E) (nodes ?v b) (normalizeTransfer (crypt E)
        (x\<lparr>tID := ComputeTransferID (crypt E) x, Timestamp := 0\<rparr>)) = Inr ()"
      unfolding b normalize_meta using v by simp
  qed
  then show ?thesis by (simp add: tid)
qed

lemma INV_stores:
  assumes inv: "world_inv E w" and ab: "a \<noteq> b" and l: "link w a b" "link w b a"
    and id: "\<not> IsSeen (replayCache (nodes w b)) (MessageID msg)"
    and fresh: "\<not> IsSeen (replayCache (nodes w a)) (randID E (rng w))"
      "\<not> IsSeen (replayCache (nodes w b)) (randID E (rng w + 1))" "randID E (rng w + 1) \<noteq> MessageID msg"
    and ty: "mType msg = INV" and g: "DecodeINVID (Payload msg) = Inr t" and t: "length t = 32"
    and x: "txs (nodes w a) t = Some x" "wire_ok (crypt E) x"
    and v: "validateTransfer (crypt E) (nodes w b) (normalizeTransfer (crypt E) x) = Inr ()"
    and r: "OnMessage E k w b (nodeID (nodes w a)) msg = Some (w', r)"
  shows "txs (nodes w' b) t \<noteq> None"
proof -
  obtain j where k: "k = Suc j" using OnMessage_Suc[OF r] by blast
  have n: "node_inv (crypt E) (nodes w b)" using inv by (simp add: world_inv_def)
  obtain c where c: "cache_wf c"
    and cs: "\<And>j. IsSeen c j \<Longrightarrow> j = MessageID msg \<or> IsSeen (replayCache (nodes w b)) j"
    and o: "OnMessage E (Suc j) w b (nodeID (nodes w a)) msg
       = dispatch E (send (OnMessage E j)) (put w b ((nodes w b)\<lparr>replayCache := c\<rparr>)) b (nodeID (nodes w a)) msg"
    by (rule OnMessage_first[OF node_invD(4)[OF n] id, where E = E and k = j and f = "nodeID (nodes w a)"])
      (rule that)
  have ti: "txs (nodes w b) t = txs ((nodes w b)\<lparr>replayCache := c\<rparr>) t" by (simp add: txs_def)
  show ?thesis
  proof (cases "txs (nodes w b) t = None")
    case False
    then have "hasTransfer ((nodes w b)\<lparr>replayCache := c\<rparr>) t" using ti by (simp add: txs_hasTransfer)
    then have "w' = put w b ((nodes w b)\<lparr>replayCache := c\<rparr>)"
      using r k o ty g by (simp add: dispatch_def handleINV_def)
    then show ?thesis using False ti by simp
  next
    case True
    let ?w = "tick (put w b ((nodes w b)\<lparr>replayCache := c\<rparr>))"
    let ?m = "NewGETMessage (randID E (rng w)) (clock (nodes w b)) (TTL msg) t"
    have "\<not> hasTransfer ((nodes w b)\<lparr>replayCache := c\<rparr>) t" using True ti by (simp add: txs_hasTransfer)
    then have s: "send (OnMessage E j) ?w b (nodeID (nodes ?w a)) ?m = Some (w', r)"
      using r k o ty g ab by (simp add: dispatch_def handleINV_def nextID_def)
    have l': "link ?w b a" using l(2) ab by (simp add: link_def)
    obtain ss where ss: "OnMessage E j (put ?w b ((nodes ?w b)\<lparr>sent := ss\<rparr>)) a (nodeID (nodes ?w b)) ?m = Some (w', r)"
      using s unfolding send_link[OF l'] by blast
    let ?v = "put ?w b ((nodes ?w b)\<lparr>sent := ss\<rparr>)"
    have a: "nodes ?v a = nodes w a" using ab by simp
    have b: "nodes ?v b = (nodes w b)\<lparr>replayCache := c, sent := ss\<rparr>" by simp
    have nb: "node_inv (crypt E) ((nodes w b)\<lparr>replayCache := c, sent := ss\<rparr>)"
      by (rule node_inv_cong[OF n]) (use c in simp_all)
    show ?thesis
    proof (rule GET_stores[OF _ ab])
      show "world_inv E ?v" using inv nb by (simp add: world_inv_def)
      show "link ?v a b" using l(1) ab by (simp add: link_def)
      show "\<not> IsSeen (replayCache (nodes ?v a)) (MessageID ?m)"
        unfolding a using fresh(1) by (simp add: new_message_defs)
      show "\<not> IsSeen (replayCache (nodes ?v b)) (nextID E ?v)"
        using cs[of "randID E (rng w + 1)"] fresh(2,3) by (auto simp: nextID_def)
      show "mType ?m = GET" by (simp add: new_message_defs)
      show "DecodeGETID (Payload ?m) = Inr t" using t by (simp add: new_message_defs DecodeGETID_def EncodeGETID_def)
      show "txs (nodes ?v a) t = Some x" unfolding a by (rule x(1))
      show "wire_ok (crypt E) x" by (rule x(2))
      show "validateTransfer (crypt E) (nodes ?v b) (normalizeTransfer (crypt E) x) = Inr ()"
        using v validateTransfer_cong[of "nodes ?v b" "nodes w b"] by simp
      show "OnMessage E j ?v a (nodeID (nodes ?v b)) ?m = Some (w', r)" using ss by simp
    qed
  qed
qed

section \<open>Local submission\<close>

lemma AcceptLocal_accepted:
  assumes inv: "world_inv E w"
    and v: "validateTransfer (crypt E) (nodes w a) (normalizeTransfer (crypt E) x) = Inr ()"
    and c: "ConsumeInputs (inputTracker (nodes w a)) (Inputs x) = Inr tk"
  obtains m where "node_inv (crypt E) m" and "same_links ((nodes w a)\<lparr>inputTracker := tk\<rparr>) m"
    and "txs m = (if txs (nodes w a) (ComputeTransferID (crypt E) x) = None
           then (txs (nodes w a))(ComputeTransferID (crypt E) x \<mapsto> normalizeTransfer (crypt E) x)
           else txs (nodes w a))"
    and "AcceptLocalTransfer E k w a x = broadcastINV E (send (OnMessage E k)) (put w a m) a 30
           (ComputeTransferID (crypt E) x) (peerIDsExcept m [])"
    and "\<And>h. h \<notin> ComputeValueID (crypt E) ` set (Outputs x) \<Longrightarrow>
           map_of (valueStore m) h = map_of (valueStore (nodes w a)) h"
proof -
  let ?n = "(nodes w a)\<lparr>inputTracker := tk\<rparr>" and ?t = "ComputeTransferID (crypt E) x"
  have n: "node_inv (crypt E) (nodes w a)" using inv by (simp add: world_inv_def)
  have i: "node_inv (crypt E) ?n"
    by (rule node_inv_cong[OF n]) (use node_invD(4)[OF n] in simp_all)
  have v': "validateTransfer (crypt E) ?n (normalizeTransfer (crypt E) x) = Inr ()"
    using v validateTransfer_cong[of ?n "nodes w a"] by simp
  have tx: "txs ?n = txs (nodes w a)" by (simp add: txs_def fun_eq_iff)
  from accept_effect[OF i v', of "[]"] obtain m where
    m: "upsert_and_recompute E ?n (normalizeTransfer (crypt E) x) (EncodeTransfer x) []
      = (m, Inr (?t, txs ?n ?t = None))" "node_inv (crypt E) m" "same_links ?n m"
    "txs m = (if txs ?n ?t = None then (txs ?n)(?t \<mapsto> normalizeTransfer (crypt E) x) else txs ?n)" .
  show thesis
    by (rule that[OF m(2,3) m(4)[unfolded tx]])
      (use v c m(1) accept_values[OF m(1)] in
        \<open>simp_all add: AcceptLocalTransfer_def Let_def tID_normalize\<close>)
qed

lemma AcceptLocal_rejected:
  assumes "validateTransfer (crypt E) (nodes w a) (normalizeTransfer (crypt E) x) \<noteq> Inr ()
    \<or> (\<forall>tk. ConsumeInputs (inputTracker (nodes w a)) (Inputs x) \<noteq> Inr tk)"
  shows "\<exists>e. AcceptLocalTransfer E k w a x = Some (w, Inl e)"
proof (cases "validateTransfer (crypt E) (nodes w a) (normalizeTransfer (crypt E) x)")
  case (Inr u)
  then obtain e where "ConsumeInputs (inputTracker (nodes w a)) (Inputs x) = Inl e"
    using assms by (cases "ConsumeInputs (inputTracker (nodes w a)) (Inputs x)") auto
  then show ?thesis using Inr by (simp add: AcceptLocalTransfer_def Let_def)
qed (simp add: AcceptLocalTransfer_def Let_def)

lemma ConsumeInputs_spent:
  "set is \<inter> consumed_set tr \<noteq> {} \<Longrightarrow> ConsumeInputs tr is = Inl ErrInputConsumed"
  by (simp add: ConsumeInputs_cases)

lemma AcceptLocal_stores:
  assumes inv: "world_inv E w"
    and v: "validateTransfer (crypt E) (nodes w a) (normalizeTransfer (crypt E) x) = Inr ()"
    and c: "ConsumeInputs (inputTracker (nodes w a)) (Inputs x) = Inr tk"
    and r: "AcceptLocalTransfer E k w a x = Some (w', r)"
  shows "txs (nodes w' a) (ComputeTransferID (crypt E) x) \<noteq> None"
    and "set (Inputs x) \<subseteq> consumed_set (inputTracker (nodes w' a))"
proof -
  obtain m where m: "node_inv (crypt E) m" "same_links ((nodes w a)\<lparr>inputTracker := tk\<rparr>) m"
    "txs m = (if txs (nodes w a) (ComputeTransferID (crypt E) x) = None
           then (txs (nodes w a))(ComputeTransferID (crypt E) x \<mapsto> normalizeTransfer (crypt E) x)
           else txs (nodes w a))"
    "AcceptLocalTransfer E k w a x = broadcastINV E (send (OnMessage E k)) (put w a m) a 30
           (ComputeTransferID (crypt E) x) (peerIDsExcept m [])"
    by (rule AcceptLocal_accepted[OF inv v c]) (rule that)
  have "(wstep E)\<^sup>*\<^sup>* (put w a m) w'" using r m(4) net.broadcastINV_steps by simp
  then have "grows (nodes (put w a m) a) (nodes w' a)"
    using wsteps_keep[OF _ world_inv_put[OF inv m(1)]] world_growsD by blast
  then have g: "grows m (nodes w' a)" by simp
  have "txs m (ComputeTransferID (crypt E) x) \<noteq> None" using m(3) by (simp split: if_splits)
  then show "txs (nodes w' a) (ComputeTransferID (crypt E) x) \<noteq> None" using g by (auto simp: grows_def)
  have "set (Inputs x) \<subseteq> consumed_set (inputTracker m)"
    using m(2) ConsumeInputs_set[OF c] by (simp add: same_links_def)
  then show "set (Inputs x) \<subseteq> consumed_set (inputTracker (nodes w' a))" using g by (auto simp: grows_def)
qed

text \<open>A call that returned without error has validated the transfer and spent its inputs.\<close>

lemma AcceptLocal_ok:
  assumes "AcceptLocalTransfer E k w a x = Some (w', Inr ())"
  shows "validateTransfer (crypt E) (nodes w a) (normalizeTransfer (crypt E) x) = Inr ()"
    and "\<exists>tk. ConsumeInputs (inputTracker (nodes w a)) (Inputs x) = Inr tk"
  using AcceptLocal_rejected[of E w a x k] assms by fastforce+

section \<open>From one node to its peer\<close>

text \<open>The three identifiers of the exchange are new to the nodes that receive them.\<close>

definition fresh_exchange :: "env \<Rightarrow> world \<Rightarrow> nat \<Rightarrow> nat \<Rightarrow> bool" where
  "fresh_exchange E w a b \<longleftrightarrow>
     \<not> IsSeen (replayCache (nodes w b)) (randID E (rng w))
   \<and> \<not> IsSeen (replayCache (nodes w a)) (randID E (rng w + 1))
   \<and> \<not> IsSeen (replayCache (nodes w b)) (randID E (rng w + 2))
   \<and> randID E (rng w + 2) \<noteq> randID E (rng w)"

lemma AcceptLocal_propagates:
  assumes inv: "world_inv E w" and ab: "a \<noteq> b" and l: "link w a b" "link w b a"
    and only: "peers (nodes w a) = [(nodeID (nodes w b), Some b)]" and name: "nodeID (nodes w b) \<noteq> []"
    and fresh: "fresh_exchange E w a b"
    and x: "wire_ok (crypt E) x" and t: "length (ComputeTransferID (crypt E) x) = 32"
    and st: "\<And>y. txs (nodes w a) (ComputeTransferID (crypt E) x) = Some y \<Longrightarrow> y = normalizeTransfer (crypt E) x"
    and va: "validateTransfer (crypt E) (nodes w a) (normalizeTransfer (crypt E) x) = Inr ()"
    and vb: "validateTransfer (crypt E) (nodes w b) (normalizeTransfer (crypt E) x) = Inr ()"
    and c: "ConsumeInputs (inputTracker (nodes w a)) (Inputs x) = Inr tk"
    and r: "AcceptLocalTransfer E k w a x = Some (w', r)"
  shows "txs (nodes w' b) (ComputeTransferID (crypt E) x) \<noteq> None"
proof -
  let ?t = "ComputeTransferID (crypt E) x" and ?nb = "nodeID (nodes w b)"
  obtain m where m: "node_inv (crypt E) m" "same_links ((nodes w a)\<lparr>inputTracker := tk\<rparr>) m"
    "txs m = (if txs (nodes w a) ?t = None then (txs (nodes w a))(?t \<mapsto> normalizeTransfer (crypt E) x)
           else txs (nodes w a))"
    "AcceptLocalTransfer E k w a x = broadcastINV E (send (OnMessage E k)) (put w a m) a 30 ?t
       (peerIDsExcept m [])"
    by (rule AcceptLocal_accepted[OF inv va c]) (rule that)
  have f: "peers m = peers (nodes w a)" "nodeID m = nodeID (nodes w a)" "sender m = sender (nodes w a)"
    "replayCache m = replayCache (nodes w a)" using m(2) by (simp_all add: same_links_def)
  have p: "peerIDsExcept m [] = [?nb]" using only name f by (simp add: peerIDsExcept_def)
  let ?w = "tick (put w a m)" and ?i = "NewINVMessage (randID E (rng w)) (clock m) 30 ?t"
  have "andThen (send (OnMessage E k) ?w a ?nb ?i) (\<lambda>w. Some (w, Inr ())) = Some (w', r)"
    using r m(4) by (simp add: p nextID_def)
  then obtain r1 where v: "send (OnMessage E k) ?w a ?nb ?i = Some (w', r1)"
    by (cases rule: andThen_SomeE) auto
  have l': "link ?w a b" using l(1) ab f by (simp add: link_def)
  have nb: "?nb = nodeID (nodes ?w b)" using ab by simp
  obtain ss where ss: "OnMessage E k (put ?w a (m\<lparr>sent := ss\<rparr>)) b (nodeID m) ?i = Some (w', r1)"
    using v send_link[OF l', of "OnMessage E k" ?i] ab by auto
  let ?u = "put ?w a (m\<lparr>sent := ss\<rparr>)"
  have u: "nodes ?u b = nodes w b" using ab by simp
  have mi: "node_inv (crypt E) (m\<lparr>sent := ss\<rparr>)"
    by (rule node_inv_cong[OF m(1)]) (use node_invD(4)[OF m(1)] in simp_all)
  have st': "txs (m\<lparr>sent := ss\<rparr>) ?t = Some (normalizeTransfer (crypt E) x)"
  proof -
    have "txs m ?t = Some (normalizeTransfer (crypt E) x)"
      using m(3) st by (cases "txs (nodes w a) ?t") auto
    then show ?thesis using txs_cong[of "m\<lparr>sent := ss\<rparr>" m] by simp
  qed
  show ?thesis
  proof (rule INV_stores[OF _ ab])
    show "world_inv E ?u" using inv mi by (simp add: world_inv_def)
    show "link ?u a b" "link ?u b a" using l ab f by (simp_all add: link_def)
    show "\<not> IsSeen (replayCache (nodes ?u b)) (MessageID ?i)"
      unfolding u using fresh by (simp add: fresh_exchange_def new_message_defs)
    show "\<not> IsSeen (replayCache (nodes ?u a)) (randID E (rng ?u))"
      "\<not> IsSeen (replayCache (nodes ?u b)) (randID E (rng ?u + 1))" "randID E (rng ?u + 1) \<noteq> MessageID ?i"
      using fresh ab f by (simp_all add: fresh_exchange_def new_message_defs)
    show "mType ?i = INV" "DecodeINVID (Payload ?i) = Inr ?t"
      using t by (simp_all add: new_message_defs DecodeINVID_def EncodeINVID_def)
    show "length ?t = 32" by (rule t)
    show "txs (nodes ?u a) ?t = Some (normalizeTransfer (crypt E) x)" using st' by simp
    show "wire_ok (crypt E) (normalizeTransfer (crypt E) x)" by (rule wire_ok_normalize[OF x])
    show "validateTransfer (crypt E) (nodes ?u b)
        (normalizeTransfer (crypt E) (normalizeTransfer (crypt E) x)) = Inr ()" unfolding u using vb by simp
    show "OnMessage E k ?u b (nodeID (nodes ?u a)) ?i = Some (w', r1)" using ss by simp
  qed
qed

section \<open>Replay\<close>

text \<open>
  \<open>remembers T n i\<close>: the node's clock is before \<open>T\<close>, and every mark of the identifier \<open>i\<close>, the one in
  the cache or a new one, expires at \<open>T\<close> or later (an expiry time of 0 or less never does).
\<close>

definition lasts :: "int \<Rightarrow> int64 \<Rightarrow> bool" where
  "lasts T e \<longleftrightarrow> sint e \<le> 0 \<or> T \<le> sint e"

definition mark_expiry :: "replay_cache \<Rightarrow> int64" where
  "mark_expiry c = (if sint (defaultTTL c) > 0 then rcNow c + defaultTTL c else 0)"

definition remembers :: "int \<Rightarrow> node \<Rightarrow> message_id \<Rightarrow> bool" where
  "remembers T n i \<longleftrightarrow> cache_wf (replayCache n) \<and> sint (clock n) < T \<and> lasts T (mark_expiry (replayCache n))
     \<and> (\<exists>e. map_of (seen (replayCache n)) i = Some e \<and> lasts T e)"

lemma lasts_not_expired: "lasts T e \<Longrightarrow> sint t < T \<Longrightarrow> \<not> expired t e"
  by (auto simp: lasts_def expired_def)

lemma mark_expiry_frame [simp]:
  "mark_expiry (MarkSeen c i) = mark_expiry c" "mark_expiry (PruneExpired c t) = mark_expiry c"
  by (simp_all add: mark_expiry_def)

lemma seen_MarkSeen: "seen (MarkSeen c i) = mput i (mark_expiry c) (seen c)"
  by (simp add: MarkSeen_def mark_expiry_def Let_def)

lemma remembers_cong:
  "remembers T n i \<Longrightarrow> replayCache m = replayCache n \<Longrightarrow> clock m = clock n \<Longrightarrow> remembers T m i"
  by (simp add: remembers_def)

lemma remembers_prune:
  assumes "remembers T n i" and "sint t < T"
  shows "remembers T (n\<lparr>replayCache := PruneExpired (replayCache n) t\<rparr>) i"
proof -
  from assms(1) obtain e where e: "map_of (seen (replayCache n)) i = Some e" "lasts T e"
    and wf: "cache_wf (replayCache n)" unfolding remembers_def by blast
  have "map_of (seen (PruneExpired (replayCache n) t)) i = Some e"
    using PruneExpired_get[OF wf, of t i] e lasts_not_expired[OF e(2) assms(2)] by simp
  then show ?thesis using assms(1) e(2) by (simp add: remembers_def)
qed

lemma remembers_mark:
  assumes "cache_wf (replayCache n)" and "sint (clock n) < T" and "lasts T (mark_expiry (replayCache n))"
    and "i = j \<or> remembers T n i"
  shows "remembers T (n\<lparr>replayCache := MarkSeen (replayCache n) j\<rparr>) i"
  using assms by (auto simp: remembers_def seen_MarkSeen gm.get_put)

lemma nstep_remembers:
  assumes "nstep E n m" and inv: "node_inv (crypt E) n" and r: "remembers T n i"
  shows "remembers T m i"
  using assms(1)
proof cases
  case ns_prune
  have "sint (clock n) < T" using r by (simp add: remembers_def)
  then show ?thesis using remembers_prune[OF r] ns_prune by simp
next
  case (ns_mark j)
  have "cache_wf (replayCache n)" and "sint (clock n) < T" and "lasts T (mark_expiry (replayCache n))"
    using r by (simp_all add: remembers_def)
  then show ?thesis using remembers_mark r ns_mark by simp
next
  case (ns_store x f)
  obtain k where "m = k" "same_links n k"
    using accept_effect[OF inv ns_store(3), of f] ns_store(1) by (metis fst_conv)
  then show ?thesis using remembers_cong[OF r] by (simp add: same_links_def)
next
  case (ns_proof t p)
  show ?thesis
    by (rule proof_effect[OF inv, of t p]) (use ns_proof r in \<open>simp add: remembers_def\<close>)
qed (use remembers_cong[OF r] in simp)

lemma wsteps_remember:
  assumes "(wstep E)\<^sup>*\<^sup>* w v" and "world_inv E w" and "remembers T (nodes w a) i"
  shows "remembers T (nodes v a) i"
  using assms
proof (induction rule: rtranclp_induct)
  case (step u v)
  have n: "node_inv (crypt E) (nodes u b)" for b
    using wsteps_keep[OF step.hyps(1) step.prems(1)] by (simp add: world_inv_def)
  show ?case using step.hyps(2) step.IH[OF step.prems]
    by (cases rule: wstep.cases) (auto intro: nstep_remembers n)
qed

text \<open>Events that leave the clocks before \<open>T\<close> and the marks of \<open>a\<close> lasting until then.\<close>

fun quiet :: "int \<Rightarrow> nat \<Rightarrow> event \<Rightarrow> bool" where
  "quiet T a (SetNow b t) \<longleftrightarrow> b = a \<longrightarrow> sint t < T"
| "quiet T a (WallClock b t) \<longleftrightarrow> b \<noteq> a"
| "quiet T a _ \<longleftrightarrow> True"

lemma exec_remembers:
  assumes "exec E k w ev = Some (v, r)" and inv: "world_inv E w" and rem: "remembers T (nodes w a) i"
    and q: "quiet T a ev"
  shows "remembers T (nodes v a) i"
proof (cases ev)
  case (Receive b f m)
  then show ?thesis using wsteps_remember[OF OnMessage_steps inv rem] assms(1) by simp
next
  case (Submit b x)
  then have "AcceptLocalTransfer E k w b x = Some (v, r)" using assms(1) by simp
  from AcceptLocalTransfer_steps[OF this] show ?thesis
  proof (elim disjE exE conjE)
    fix m
    assume l: "lstep E (nodes w b) m" and s: "(wstep E)\<^sup>*\<^sup>* (put w b m) v"
    have n: "node_inv (crypt E) (nodes w b)" using inv by (simp add: world_inv_def)
    have "replayCache m = replayCache (nodes w b) \<and> clock m = clock (nodes w b)"
      using lstep_keeps(3)[OF l n] by (auto simp: same_links_def)
    then have "remembers T (nodes (put w b m) a) i"
      using rem by (cases "a = b") (simp_all add: remembers_def)
    then show ?thesis
      using wsteps_remember[OF s world_inv_put[OF inv lstep_keeps(1)[OF l n]]] by blast
  qed (use rem in simp)
next
  case (SetNow b t)
  then show ?thesis using assms by (auto simp: SetNowFunc_def remembers_def)
next
  case (WallClock b t)
  then show ?thesis using assms by auto
qed (use assms in \<open>auto simp: SeedValue_def AddPeer_def AddPeerID_def SetSender_def Let_def
    intro: remembers_cong\<close>)

lemma run_remembers:
  assumes "run E evs w = Some v" and "world_inv E w" and "remembers T (nodes w a) i"
    and "\<forall>(k, ev) \<in> set evs. quiet T a ev"
  shows "remembers T (nodes v a) i"
proof -
  have "world_inv E v \<and> remembers T (nodes v a) i"
    by (rule run_invariant[OF assms(1), where I = "\<lambda>v. world_inv E v \<and> remembers T (nodes v a) i"])
      (use assms(2-4) in \<open>auto intro: exec_world_inv exec_remembers\<close>)
  then show ?thesis by simp
qed

lemma remembered_dropped:
  assumes "remembers T (nodes w a) (MessageID msg)"
  shows "OnMessage E (Suc k) w a f msg
     = Some (put w a ((nodes w a)\<lparr>replayCache := PruneExpired (replayCache (nodes w a)) (clock (nodes w a))\<rparr>), Inr ())"
proof -
  have "sint (clock (nodes w a)) < T" using assms by (simp add: remembers_def)
  from remembers_prune[OF assms this]
  have "IsSeen (PruneExpired (replayCache (nodes w a)) (clock (nodes w a))) (MessageID msg)"
    by (auto simp: remembers_def IsSeen_def)
  then show ?thesis by (simp add: Let_def)
qed

lemma OnMessage_remembers:
  assumes inv: "world_inv E w" and new: "\<not> IsSeen (replayCache (nodes w a)) (MessageID msg)"
    and T: "sint (clock (nodes w a)) < T" "lasts T (mark_expiry (replayCache (nodes w a)))"
    and r: "OnMessage E k w a f msg = Some (w', r)"
  shows "remembers T (nodes w' a) (MessageID msg)"
proof -
  obtain j where k: "k = Suc j" using OnMessage_Suc[OF r] by blast
  have n: "node_inv (crypt E) (nodes w a)" using inv by (simp add: world_inv_def)
  note wf = node_invD(4)[OF n]
  let ?n1 = "(nodes w a)\<lparr>replayCache := PruneExpired (replayCache (nodes w a)) (clock (nodes w a))\<rparr>"
  let ?n2 = "?n1\<lparr>replayCache := MarkSeen (replayCache ?n1) (MessageID msg)\<rparr>"
  have "\<not> IsSeen (replayCache ?n1) (MessageID msg)" using new IsSeen_pruned[OF wf] by auto
  then have d: "dispatch E (send (OnMessage E j)) (put w a ?n2) a f msg = Some (w', r)"
    using r k by (simp add: Let_def)
  have "remembers T ?n2 (MessageID msg)" using wf T by (intro remembers_mark) simp_all
  moreover have "node_inv (crypt E) ?n2" by (rule node_inv_cong[OF n]) (use wf in simp_all)
  then have "world_inv E (put w a ?n2)" by (rule world_inv_put[OF inv])
  ultimately show ?thesis
    using wsteps_remember[OF net.dispatch_steps[OF d], of T a "MessageID msg"] by simp
qed

end
