(* ===== verification/Node_Scores.thy ===== *)
theory Node_Scores
  imports Node_Runs
begin

text \<open>
  The ranges of the scores of \<open>node/selection.go\<close> and \<open>node/finality.go\<close> on binary64 numbers: no
  score is a NaN or an infinity, so the choice of the best is a choice by a total order, and its
  result is maximal. The amounts and tiers of \<open>finalityThreshold\<close>.
\<close>

section \<open>What the environment is assumed to do\<close>

text \<open>
  \<open>math.Log\<close> of a number from 1 up is finite, not negative and below 1024 (the logarithm of the
  largest binary64 number is below 710), and a \<open>range\<close> loop visits every entry once.
\<close>

definition log_ok :: "env \<Rightarrow> bool" where
  "log_ok E \<longleftrightarrow> (\<forall>a. 1 \<le> a \<longrightarrow> in_range 0 1024 (mathLog E (Fin a)))"

definition order_ok :: "env \<Rightarrow> bool" where
  "order_ok E \<longleftrightarrow> (\<forall>t m. mset (proofOrder E t m) = mset m)"

lemma order_ok_length: "order_ok E \<Longrightarrow> length (proofOrder E t m) = length m"
  unfolding order_ok_def by (metis size_mset)

section \<open>Rounding of negative numbers\<close>

lemma rhe_neg: "rhe (- y) = - rhe y"
proof (cases "y = of_int \<lfloor>y\<rfloor>")
  case True
  then obtain m where "y = of_int m" by blast
  then show ?thesis using rhe_of_int[of m] rhe_of_int[of "- m"] by simp
next
  case False
  have lo: "of_int \<lfloor>y\<rfloor> < y" using False of_int_floor_le[of y] by (metis order_le_less)
  have hi: "y < of_int \<lfloor>y\<rfloor> + 1" by linarith
  have "\<lfloor>- y\<rfloor> = - \<lfloor>y\<rfloor> - 1" using lo hi by (intro floor_unique) simp_all
  then show ?thesis by (auto simp: rhe_def Let_def)
qed

lemma rnd_neg: "rnd (- x) = - rnd x"
proof -
  obtain a b where q: "quotient_of x = (a, b)" by fastforce
  then have b: "0 < b" by (rule quotient_of_denom_pos)
  have qn: "quotient_of (- x) = (- a, b)" using q by (simp add: rat_uminus_code)
  have u: "ulp_exp (- a) b = ulp_exp a b" by (simp add: ulp_exp_def)
  obtain n d where nd: "scaled a b (ulp_exp a b) = (n, d)" by fastforce
  then have nd': "scaled (- a) b (ulp_exp a b) = (- n, d)" by (auto simp: scaled_def split: if_splits)
  have "0 < d" by (rule scaled_ratio(1)[OF b nd])
  then have "div_half_even (- n) d = - div_half_even n d" by (simp add: div_half_even_rhe rhe_neg)
  then show ?thesis by (simp add: rnd_def q qn u nd nd' Let_def)
qed

lemma overflows_neg: "overflows (- r) = overflows r"
proof -
  obtain a b where q: "quotient_of r = (a, b)" by fastforce
  then have "quotient_of (- r) = (- a, b)" by (simp add: rat_uminus_code)
  then show ?thesis by (simp add: overflows_def q)
qed

lemma f64_of_int_neg:
  assumes "0 < n" and "n \<le> 2 ^ 63"
  shows "f64_of_int (- n) = Fin (- rnd (of_int n))" and "1 \<le> rnd (of_int n)"
proof -
  have n: "(of_int n :: rat) \<le> of_int (2 ^ 63)" using assms(2) by (simp only: of_int_le_iff)
  have "rnd (of_int n) \<le> rnd (of_int (2 ^ 63))" using assms n by (intro rnd_mono) simp_all
  also have "\<dots> = of_int (2 ^ 63)" using rnd_pow2[of 63] by (simp add: pow2_nat)
  also have "\<dots> \<le> big" by (simp add: big_def)
  finally have "\<not> overflows (rnd (of_int n))" using assms by (intro overflows_bound rnd_nonneg) simp_all
  then show "f64_of_int (- n) = Fin (- rnd (of_int n))"
    by (simp add: f64_of_int_def f64_round_def rnd_neg overflows_neg)
  show "1 \<le> rnd (of_int n)" using rnd_mono[of 1 "of_int n"] assms by simp
qed

section \<open>Component scores\<close>

lemma in_range_const:
  assumes "0 \<le> x" and "x \<le> 1"
  shows "in_range 0 1 (f64_const x)"
  unfolding f64_const_def using assms by (intro in_range_round_le) simp_all

lemma stabilityTau_Fin: "stabilityTau = Fin 30"
  using f64_of_int_exact[of 30] by (simp add: stabilityTau_def f64_const_def f64_of_int_def)

lemma timeStability_range: "in_range 0 1 (timeStability n t)"
proof (cases "map_of (txStore n) t")
  case None
  then show ?thesis by (simp add: timeStability_def in_range_def)
next
  case (Some r)
  obtain d where d: "d = sint (clock n - FirstSeen r)" by blast
  let ?age = "if flt (f64_of_int d) (f64_const 0) then f64_const 0 else f64_of_int d"
  have b: "- (2 ^ 63) \<le> d" "d < 2 ^ 63" using sint_bounds unfolding d by blast+
  obtain a where a: "?age = Fin a" "0 \<le> a"
  proof (cases "d < 0")
    case True
    then have "f64_of_int d = Fin (- rnd (of_int (- d)))" and "1 \<le> rnd (of_int (- d))"
      using f64_of_int_neg[of "- d"] b by simp_all
    then show thesis using that[of 0] by simp
  next
    case False
    have "(of_int d :: rat) \<le> of_int (2 ^ 63)" using b by (simp only: of_int_le_iff)
    also have "\<dots> \<le> big" by (simp add: big_def)
    finally have "f64_of_int d = Fin (rnd (of_int d))"
      using False by (simp add: f64_of_int_def f64_round_small)
    then show thesis using that[of "rnd (of_int d)"] False rnd_nonneg[of "of_int d"] by simp
  qed
  have "timeStability n t = (if fle stabilityTau ?age then f64_const 1 else fdiv ?age stabilityTau)"
    using Some by (simp add: timeStability_def Let_def d)
  also have "in_range 0 1 \<dots>"
  proof (cases "30 \<le> a")
    case True
    then show ?thesis unfolding a(1) stabilityTau_Fin by (auto simp: fle_def in_range_def)
  next
    case False
    then show ?thesis using a(2) in_range_fdiv_unit[of a 30]
      unfolding a(1) stabilityTau_Fin by (simp add: fle_def)
  qed
  finally show ?thesis .
qed

lemma distanceWeight_range: "in_range 0 1 (distanceWeight d)"
  unfolding distanceWeight_def by (auto simp del: f64_const_one intro!: in_range_const)

lemma in_range_count_add:
  assumes "in_range 0 (of_nat i) w" and "in_range 0 1 x" and "i + 1 < 2 ^ 53"
  shows "in_range 0 (of_nat (i + 1)) (fadd w x)"
proof -
  have e: "(of_nat i + 1 :: rat) = of_int (int (i + 1))" by simp
  have "rnd (of_nat i + 1) = of_nat i + 1"
    unfolding e using assms(3) by (intro rnd_of_int) auto
  moreover have "(of_nat i + 1 :: rat) \<le> big"
  proof -
    have "(of_int (int (i + 1)) :: rat) \<le> of_int (2 ^ 60)" using assms(3) by (simp only: of_int_le_iff) simp
    then show ?thesis using numeral_le_big e by simp
  qed
  ultimately show ?thesis using in_range_fadd[OF assms(1,2)] by (simp add: add.commute)
qed

lemma proofWeight_loop_range:
  "in_range 0 (of_nat i) w \<Longrightarrow> i + length ps < 2 ^ 53 \<Longrightarrow>
     in_range 0 (of_nat (i + length ps)) (proofWeight_loop w ps)"
proof (induction ps arbitrary: i w)
  case (Cons q ps)
  obtain k p where q: "q = (k, p)" by fastforce
  have "in_range 0 (of_nat (i + 1)) (if \<not> prSeen p \<or> prConflict p then w
      else fadd w (distanceWeight (prDistance p)))"
    using Cons.prems in_range_count_add[OF Cons.prems(1) distanceWeight_range]
      in_range_weaken[OF Cons.prems(1), of 0 "of_nat (i + 1)"] by auto
  from Cons.IH[OF this] Cons.prems(2) q show ?case
    by (cases "prSeen p \<and> \<not> prConflict p") (auto simp: add_ac)
qed simp

lemma proofWeight_range:
  assumes "order_ok E" and "length (mget0 (proofStore n) t) < 2 ^ 53"
  shows "in_range 0 (of_nat (length (mget0 (proofStore n) t))) (proofWeight E n t)"
  using proofWeight_loop_range[of 0 "f64_const 0" "proofOrder E t (mget0 (proofStore n) t)"] assms
  by (simp add: proofWeight_def order_ok_length in_range_def)

text \<open>\<open>w / (w + 1)\<close> stays in the unit interval after rounding, because rounding is monotone.\<close>

lemma neighborhood_range:
  assumes "in_range 0 h w" and "h + 1 \<le> big"
  shows "in_range 0 1 (fdiv w (fadd w proofSmoothing))"
proof -
  from assms(1) obtain a where a: "w = Fin a" "rnd a = a" "0 \<le> a" "a \<le> h" by (auto simp: in_range_def)
  have s: "fadd w proofSmoothing = Fin (rnd (a + 1))"
    using a assms(2) by (simp add: proofSmoothing_def f64_round_small)
  have "a \<le> rnd (a + 1)" using rnd_mono[of a "a + 1"] a by simp
  moreover have "1 \<le> rnd (a + 1)" using rnd_mono[of 1 "a + 1"] a by simp
  ultimately have "in_range 0 1 (fdiv (Fin a) (Fin (rnd (a + 1))))"
    using a(3) by (intro in_range_fdiv_unit) simp_all
  then show ?thesis using s a(1) by simp
qed

lemma firstSeen_range:
  assumes "rank + 1 < 2 ^ 53"
  shows "in_range 0 1 (fdiv (f64_const 1) (fadd (f64_const 1) (f64_of_int (int rank))))"
proof -
  have "f64_of_int (int rank) = Fin (of_int (int rank))" using assms by (intro f64_of_int_exact) auto
  moreover have "fadd (Fin (of_int 1)) (Fin (of_int (int rank))) = Fin (of_int (1 + int rank))"
    using assms by (intro fadd_of_int_exact) auto
  ultimately have "fadd (f64_const 1) (f64_of_int (int rank)) = Fin (of_int (1 + int rank))" by simp
  then show ?thesis by (simp del: of_int_add fdiv.simps) (intro in_range_fdiv_unit, auto)
qed

lemma log_count_range:
  assumes "log_ok E" and "len < 2 ^ 53 - 1"
  shows "in_range 0 1024 (mathLog E (fadd (f64_const 1) (f64_of_int (int len))))"
proof -
  have "f64_of_int (int len) = Fin (of_int (int len))" using assms(2) by (intro f64_of_int_exact) auto
  moreover have "fadd (Fin (of_int 1)) (Fin (of_int (int len))) = Fin (of_int (1 + int len))"
    using assms(2) by (intro fadd_of_int_exact) auto
  ultimately have "fadd (f64_const 1) (f64_of_int (int len)) = Fin (of_int (1 + int len))" by simp
  then show ?thesis using assms(1) by (simp add: log_ok_def)
qed

text \<open>The number of entries of a map or list of the node, small enough to be exact in binary64.\<close>

definition few :: "nat \<Rightarrow> bool" where
  "few n \<longleftrightarrow> n < 2 ^ 52"

definition sizes_ok :: "node \<Rightarrow> hash \<Rightarrow> bool" where
  "sizes_ok n t \<longleftrightarrow> few (length (mget0 (proofStore n) t)) \<and> few (length (mget0 (peerObservations n) t))"

lemma cleanliness_loop_range:
  assumes "c = Fin (of_int a)" and "m = Fin (of_int b)" and "0 \<le> a" and "a \<le> b"
    and "b + int (length ps) < 2 ^ 53"
  shows "\<exists>a'. cleanliness_loop c m ps = (Fin (of_int a'), Fin (of_int (b + int (length ps))))
     \<and> a \<le> a' \<and> a' \<le> b + int (length ps)"
  using assms
proof (induction ps arbitrary: c m a b)
  case (Cons q ps)
  obtain k p where q: "q = (k, p)" by fastforce
  let ?a = "if prConflict p then a + 1 else a"
  have one: "fadd (Fin (of_int x)) (f64_const 1) = Fin (of_int (x + 1))" if "0 \<le> x" "x + 1 < 2 ^ 53" for x
    using fadd_of_int_exact[of x 1] that by simp
  have c: "(if prConflict p then fadd c (f64_const 1) else c) = Fin (of_int ?a)"
    using Cons.prems one[of a] by simp
  have m: "fadd m (f64_const 1) = Fin (of_int (b + 1))"
    using Cons.prems one[of b] by simp
  from Cons.IH[OF c m] Cons.prems show ?case by (force simp: q)
qed auto

lemma conflictCleanliness_range:
  assumes o: "order_ok E" and ne: "cset n i \<noteq> []" and few: "few (length (cset n i))"
    "few (length (mget0 (proofStore n) t))"
  shows "in_range 0 1 (conflictCleanliness E n i t)"
proof -
  let ?len = "int (length (cset n i))" and ?ps = "proofOrder E t (mget0 (proofStore n) t)"
  have len: "1 \<le> ?len" using ne by (cases "cset n i") simp_all
  have lps: "length ?ps = length (mget0 (proofStore n) t)" by (rule order_ok_length[OF o])
  have b: "?len - 1 + int (length ?ps) + 1 < 2 ^ 53" using few by (simp add: lps few_def)
  have m: "f64_of_int (?len - 1) = Fin (of_int (?len - 1))" using len b ne by (intro f64_of_int_exact) simp_all
  obtain a where a: "0 \<le> a" "a \<le> ?len - 1"
    "(if ?len > 1 then fadd (f64_const 0) (f64_of_int (?len - 1)) else f64_const 0) = Fin (of_int a)"
  proof (cases "?len > 1")
    case True
    have "fadd (Fin (of_int 0)) (Fin (of_int (?len - 1))) = Fin (of_int (0 + (?len - 1)))"
      using len b ne by (intro fadd_of_int_exact) simp_all
    then show thesis using that[of "?len - 1"] len ne True m by simp
  next
    case False
    show thesis by (rule that[of 0]) (use False len ne in simp_all)
  qed
  obtain a' where a': "cleanliness_loop (Fin (of_int a)) (Fin (of_int (?len - 1))) ?ps
      = (Fin (of_int a'), Fin (of_int (?len - 1 + int (length ?ps))))"
    "a \<le> a'" "a' \<le> ?len - 1 + int (length ?ps)"
    using cleanliness_loop_range[OF refl refl a(1,2), of ?ps] b by auto
  let ?m = "?len - 1 + int (length ?ps)"
  have "fadd (Fin (of_int ?m)) (Fin (of_int 1)) = Fin (of_int (?m + 1))"
    using len b ne by (intro fadd_of_int_exact) simp_all
  then have "conflictCleanliness E n i t = fsub (Fin 1) (fdiv (Fin (of_int a')) (Fin (of_int (?m + 1))))"
    unfolding conflictCleanliness_def Let_def a(3) unfolding m a'(1) prod.case f64_const_one of_int_1
    by (simp only:)
  moreover have "in_range 0 1 (fdiv (Fin (of_int a')) (Fin (of_int (?m + 1))))"
    using a a' len by (intro in_range_fdiv_unit) (simp_all only: of_int_0_le_iff of_int_le_iff of_int_0_less_iff)
  ultimately show ?thesis using in_range_one_minus by simp
qed

section \<open>The score of a transfer\<close>

lemma in_range_unit_weight:
  assumes "0 \<le> c" and "c \<le> 1" and "in_range 0 1 x"
  shows "in_range 0 1 (fmul (f64_const c) x)"
  using in_range_fmul[OF in_range_const[OF assms(1,2)] assms(3)] by simp

lemma in_range_log_weight:
  assumes "0 \<le> c" and "c \<le> 1" and "in_range 0 1024 x"
  shows "in_range 0 1024 (fmul (f64_const c) x)"
proof -
  have "rnd 1024 = 1024" using rnd_of_int[of 1024] by simp
  then show ?thesis using in_range_fmul[OF in_range_const[OF assms(1,2)] assms(3)] by (simp add: big_def)
qed

lemma in_range_plus:
  assumes "in_range 0 (of_int h) x" and "in_range 0 (of_int k) y" and "0 \<le> h" and "0 \<le> k" and "h + k < 2 ^ 53"
  shows "in_range 0 (of_int (h + k)) (fadd x y)"
proof -
  have r: "rnd (of_int h + of_int k) = of_int h + of_int k"
    using rnd_of_int[of "h + k"] assms(3-5) by simp
  have "(of_int (h + k) :: rat) \<le> of_int (2 ^ 60)" using assms(5) by (simp only: of_int_le_iff) simp
  then have "(of_int h + of_int k :: rat) \<le> big" using numeral_le_big by simp
  then show ?thesis using in_range_fadd[OF assms(1,2) r] by simp
qed

lemma weighted_sum_range:
  assumes "in_range 0 1 a" and "in_range 0 1024 b" and "in_range 0 1 c" and "in_range 0 1 d" and "in_range 0 1 e"
  shows "in_range 0 1028 (fadd (fadd (fadd (fadd (fmul weightFirstSeen a) (fmul weightPropagation b))
     (fmul weightTime c)) (fmul weightProof d)) (fmul weightConflict e))"
proof -
  have 1: "in_range 0 (of_int 1) (fmul weightFirstSeen a)" "in_range 0 (of_int 1) (fmul weightTime c)"
    "in_range 0 (of_int 1) (fmul weightProof d)" "in_range 0 (of_int 1) (fmul weightConflict e)"
    unfolding weightFirstSeen_def weightTime_def weightProof_def weightConflict_def of_int_1
    using assms by (auto intro!: in_range_unit_weight)
  have 2: "in_range 0 (of_int 1024) (fmul weightPropagation b)"
    unfolding weightPropagation_def of_int_numeral using assms by (auto intro!: in_range_log_weight)
  note s1 = in_range_plus[OF 1(1) 2]
  note s2 = in_range_plus[OF s1 1(2)]
  note s3 = in_range_plus[OF s2 1(3)]
  from in_range_plus[OF s3 1(4)] show ?thesis by simp
qed

definition score_ok :: "score_breakdown \<Rightarrow> bool" where
  "score_ok s \<longleftrightarrow> in_range 0 1028 (Score s) \<and> in_range 0 1 (FirstSeenScore s)
     \<and> in_range 0 1024 (PropagationScore s) \<and> in_range 0 1 (TimeStabilityScore s)
     \<and> in_range 0 1 (NeighborhoodScore s) \<and> in_range 0 1 (ConflictCleanliness s)"

lemma score_ok_finite: "score_ok s \<Longrightarrow> finite_score s"
  unfolding score_ok_def finite_score_def by (blast dest: in_range_Fin)

lemma few_neighborhood:
  assumes "order_ok E" and "few (length (mget0 (proofStore n) t))"
  shows "in_range 0 1 (fdiv (proofWeight E n t) (fadd (proofWeight E n t) proofSmoothing))"
proof (rule neighborhood_range[OF proofWeight_range[OF assms(1)]])
  let ?l = "length (mget0 (proofStore n) t)"
  show "?l < 2 ^ 53" using assms(2) by (simp add: few_def)
  have "(of_int (int ?l + 1) :: rat) \<le> of_int (2 ^ 60)"
    using assms(2) by (simp only: of_int_le_iff few_def) simp
  then show "of_nat ?l + 1 \<le> big" using numeral_le_big by simp
qed

lemma scoreTx_ok:
  assumes E: "log_ok E" "order_ok E" and ne: "cset n i \<noteq> []" "few (length (cset n i))"
    and r: "rank < length ranked" "length ranked \<le> length (cset n i)" and t: "sizes_ok n (ranked ! rank)"
  shows "score_ok (scoreTx E n i ranked rank)"
proof -
  let ?t = "ranked ! rank"
  have rank: "rank + 1 < 2 ^ 53" using r ne(2) by (simp add: few_def)
  have few: "few (length (mget0 (proofStore n) ?t))" "few (length (mget0 (peerObservations n) ?t))"
    using t by (simp_all add: sizes_ok_def)
  note f = firstSeen_range[OF rank]
  have p: "in_range 0 1024 (mathLog E (fadd (f64_const 1) (f64_of_int (int (length (mget0 (peerObservations n) ?t))))))"
    using few(2) by (intro log_count_range[OF E(1)]) (simp add: few_def)
  note s = timeStability_range[of n ?t]
  note h = few_neighborhood[OF E(2) few(1)]
  note w = weighted_sum_range[OF f p s h conflictCleanliness_range[OF E(2) ne few(1)]]
  show ?thesis
    unfolding score_ok_def scoreTx_def Let_def score_breakdown.simps
    using f p s h conflictCleanliness_range[OF E(2) ne few(1)] w by blast
qed

end
