(* ===== verification/Node_Choice.thy ===== *)
theory Node_Choice
  imports Node_Scores
begin

text \<open>
  What the selection promises, on top of the ranges of \<open>Node_Scores\<close>: the transfer chosen for an
  input is a best one; when the choice does not depend on the order in which Go visits a map, and
  that in general it may; the amount a transfer is classified by.
\<close>

section \<open>Confidence\<close>

lemma weightLogCount_range:
  assumes "log_ok E" and "few cnt"
  shows "in_range 0 1024 (weightLogCount E cnt)"
proof (cases "cnt = 0")
  case True
  then show ?thesis by (simp add: weightLogCount_def in_range_def)
next
  case False
  then show ?thesis using log_count_range[OF assms(1), of cnt] assms(2)
    by (simp add: weightLogCount_def few_def)
qed

lemma computeConfidence_range:
  assumes "log_ok E" and "order_ok E" and "sizes_ok n t"
  shows "in_range 0 1026 (computeConfidence E n t)"
proof -
  have few: "few (length (mget0 (proofStore n) t))" "few (length (mget0 (peerObservations n) t))"
    using assms(3) by (simp_all add: sizes_ok_def)
  have 1: "in_range 0 (of_int 1024)
      (fmul confidencePropagation (propagationScore E (mget0 (peerObservations n) t)))"
    unfolding confidencePropagation_def propagationScore_def of_int_numeral
    using weightLogCount_range[OF assms(1) few(2)] by (intro in_range_log_weight) simp_all
  have 2: "in_range 0 (of_int 1) (fmul confidenceTime (timeStability n t))"
    unfolding confidenceTime_def of_int_1 using timeStability_range by (intro in_range_unit_weight) simp_all
  have 3: "in_range 0 (of_int 1) (fmul confidenceProof
      (fdiv (proofWeight E n t) (fadd (proofWeight E n t) proofSmoothing)))"
    unfolding confidenceProof_def of_int_1 using few_neighborhood[OF assms(2) few(1)]
    by (intro in_range_unit_weight) simp_all
  note s = in_range_plus[OF 1 2]
  from in_range_plus[OF s 3] show ?thesis by (simp add: computeConfidence_def Let_def)
qed

section \<open>The best candidate\<close>

definition candidates_ok :: "node \<Rightarrow> hash \<Rightarrow> bool" where
  "candidates_ok n i \<longleftrightarrow> few (length (cset n i)) \<and> (\<forall>t \<in> set (cset n i). sizes_ok n t)"

lemma ranked_stored:
  assumes "conf_inv n"
  obtains rs where "rankByArrival n (cset n i) = Inr rs" and "mset rs = mset (cset n i)"
proof -
  have "\<forall>t \<in> set (cset n i). hasTransfer n t"
    using conf_invD(1)[OF assms] by (auto simp: txs_hasTransfer)
  then show thesis using that rankByArrival_stored rankByArrival_mset_eq by blast
qed

lemma selectBest_best:
  assumes E: "log_ok E" "order_ok E" and inv: "conf_inv n" and ne: "cset n i \<noteq> []"
    and ok: "candidates_ok n i"
  obtains rs b where "rankByArrival n (cset n i) = Inr rs" and "mset rs = mset (cset n i)"
    and "selectBest E n i (cset n i) = Inr b" and "sbTxID b \<in> set (cset n i)"
    and "pick.maximal_in (all_scores E n i rs) b"
proof -
  obtain rs where rs: "rankByArrival n (cset n i) = Inr rs" "mset rs = mset (cset n i)"
    using ranked_stored[OF inv] .
  have len: "length rs = length (cset n i)" using rs(2) by (rule mset_eq_length)
  have "finite_score s" if s: "s \<in> all_scores E n i rs" for s
  proof -
    from s obtain k where k: "s = scoreTx E n i rs k" "k < length rs" by (auto simp: all_scores_def)
    have "rs ! k \<in> set (cset n i)" using k(2) mset_eq_setD[OF rs(2)] nth_mem by blast
    then have "sizes_ok n (rs ! k)" using ok by (simp add: candidates_ok_def)
    then have "score_ok s" unfolding k(1)
      using ok k(2) len by (intro scoreTx_ok[OF E ne]) (simp_all add: candidates_ok_def)
    then show ?thesis by (rule score_ok_finite)
  qed
  moreover have "rs \<noteq> []" using len ne by auto
  ultimately obtain b where b: "selectBest E n i (cset n i) = Inr b" "pick.maximal_in (all_scores E n i rs) b"
    using selectBest_maximal[OF rs(1)] by blast
  show thesis by (rule that[OF rs b(1) selectBest_member[OF b(1)] b(2)])
qed

section \<open>The order of map iteration\<close>

definition usable :: "proof_record \<Rightarrow> bool" where
  "usable p \<longleftrightarrow> prSeen p \<and> \<not> prConflict p"

text \<open>The distances of the proofs that count, in the order in which they are visited.\<close>

definition counted :: "(peer_id \<times> proof_record) list \<Rightarrow> int64 list" where
  "counted ps = map (prDistance \<circ> prod.snd) (filter (usable \<circ> prod.snd) ps)"

lemma proofWeight_loop_fold: "proofWeight_loop w ps = fold (\<lambda>d w. fadd w (distanceWeight d)) (counted ps) w"
  by (induction w ps rule: proofWeight_loop.induct) (simp_all add: counted_def usable_def)

lemma counted_rev: "counted (rev ps) = rev (counted ps)"
  by (simp add: counted_def rev_map rev_filter)

lemma counted_sort: "counted (sort_key (prDistance \<circ> prod.snd) ps) = sort (counted ps)"
  unfolding counted_def filter_sort by (rule properties_for_sort[symmetric]) simp_all

text \<open>Proofs of direct neighbours weigh 1 each, and sums of ones are exact.\<close>

definition near :: "node \<Rightarrow> hash \<Rightarrow> bool" where
  "near n t \<longleftrightarrow> (\<forall>(k, p) \<in> set (mget0 (proofStore n) t). usable p \<longrightarrow> prDistance p = 0 \<or> prDistance p = 1)"

lemma proofWeight_loop_near:
  assumes "\<forall>(k, p) \<in> set ps. usable p \<longrightarrow> prDistance p = 0 \<or> prDistance p = 1"
    and "a + length ps < 2 ^ 53"
  shows "proofWeight_loop (Fin (of_nat a)) ps = Fin (of_nat (a + length (filter (usable \<circ> prod.snd) ps)))"
  using assms
proof (induction ps arbitrary: a)
  case (Cons q ps)
  obtain k p where q: "q = (k, p)" by fastforce
  show ?case
  proof (cases "usable p")
    case True
    then have "distanceWeight (prDistance p) = Fin (of_int 1)"
      using Cons.prems(1) q by (auto simp: distanceWeight_def)
    moreover have "fadd (Fin (of_int (int a))) (Fin (of_int 1)) = Fin (of_int (int a + 1))"
      using Cons.prems(2) by (intro fadd_of_int_exact) auto
    then have "fadd (Fin (of_nat a)) (Fin (of_int 1)) = Fin (of_nat (a + 1))" by (simp add: add.commute)
    ultimately show ?thesis using Cons.IH[of "a + 1"] Cons.prems True q by (simp add: usable_def)
  next
    case False
    then show ?thesis using Cons.IH[of a] Cons.prems q by (auto simp: usable_def)
  qed
qed simp

lemma proofWeight_near:
  assumes "order_ok E" and "near n t" and "few (length (mget0 (proofStore n) t))"
  shows "proofWeight E n t
     = Fin (of_nat (length (filter (usable \<circ> prod.snd) (mget0 (proofStore n) t))))"
proof -
  let ?m = "mget0 (proofStore n) t"
  have m: "mset (proofOrder E t ?m) = mset ?m" using assms(1) by (simp add: order_ok_def)
  then have "length (filter (usable \<circ> prod.snd) (proofOrder E t ?m)) = length (filter (usable \<circ> prod.snd) ?m)"
    by (metis mset_filter size_mset)
  moreover have "\<forall>(k, p) \<in> set (proofOrder E t ?m). usable p \<longrightarrow> prDistance p = 0 \<or> prDistance p = 1"
    using assms(2) unfolding near_def mset_eq_setD[OF m] .
  ultimately show ?thesis
    using proofWeight_loop_near[of "proofOrder E t ?m" 0] assms(3) order_ok_length[OF assms(1), of t ?m]
    by (simp add: proofWeight_def few_def)
qed

lemma cleanliness_loop_exact:
  assumes "a + length ps < 2 ^ 53" and "b + int (length ps) < 2 ^ 53" and "0 \<le> b"
  shows "cleanliness_loop (Fin (of_nat a)) (Fin (of_int b)) ps
     = (Fin (of_nat (a + length (filter (prConflict \<circ> prod.snd) ps))), Fin (of_int (b + int (length ps))))"
  using assms
proof (induction ps arbitrary: a b)
  case (Cons q ps)
  obtain k p where q: "q = (k, p)" by fastforce
  have "fadd (Fin (of_int (int a))) (Fin (of_int 1)) = Fin (of_int (int a + 1))"
    using Cons.prems by (intro fadd_of_int_exact) auto
  then have 1: "fadd (Fin (of_nat a)) (Fin 1) = Fin (of_nat (a + 1))" by (simp add: add.commute)
  have "fadd (Fin (of_int b)) (Fin (of_int 1)) = Fin (of_int (b + 1))"
    using Cons.prems by (intro fadd_of_int_exact) auto
  then have 2: "fadd (Fin (of_int b)) (Fin 1) = Fin (of_int (b + 1))" by simp
  show ?case using Cons.IH[of "a + 1" "b + 1"] Cons.IH[of a "b + 1"] Cons.prems 1 2 q
    by (simp add: add_ac)
qed simp

lemma conflict_start:
  assumes "cset n i \<noteq> []" and "few (length (cset n i))"
  obtains a where "a < 2 ^ 52"
    and "(if int (length (cset n i)) > 1
          then fadd (f64_const 0) (f64_of_int (int (length (cset n i)) - 1)) else f64_const 0) = Fin (of_nat a)"
proof (cases "int (length (cset n i)) > 1")
  case True
  let ?a = "length (cset n i) - 1"
  have e: "int (length (cset n i)) - 1 = int ?a" using True by (simp add: of_nat_diff)
  have "f64_of_int (int ?a) = Fin (of_int (int ?a))"
    using assms(2) by (intro f64_of_int_exact) (auto simp: few_def)
  moreover have "fadd (Fin (of_int 0)) (Fin (of_int (int ?a))) = Fin (of_int (0 + int ?a))"
    using assms(2) by (intro fadd_of_int_exact) (auto simp: few_def)
  ultimately have "fadd (f64_const 0) (f64_of_int (int ?a)) = Fin (of_nat ?a)" by simp
  then show thesis using that[of ?a] True assms(2) unfolding e by (simp add: few_def)
next
  case False
  then have "length (cset n i) \<le> 1" by simp
  then show thesis by (intro that[of 0]) simp_all
qed

lemma cleanliness_order_free:
  assumes E: "order_ok E" "order_ok F" and ne: "cset n i \<noteq> []" "few (length (cset n i))"
    and few: "few (length (mget0 (proofStore n) t))"
  shows "conflictCleanliness E n i t = conflictCleanliness F n i t"
proof -
  let ?len = "int (length (cset n i))" and ?m = "mget0 (proofStore n) t"
  obtain a where a: "a < 2 ^ 52" "(if ?len > 1 then fadd (f64_const 0) (f64_of_int (?len - 1)) else f64_const 0)
      = Fin (of_nat a)" by (rule conflict_start[OF ne])
  have len: "0 \<le> ?len - 1" using ne(1) by (cases "cset n i") simp_all
  have m: "f64_of_int (?len - 1) = Fin (of_int (?len - 1))"
    using len ne(2) by (intro f64_of_int_exact) (auto simp: few_def)
  have c: "cleanliness_loop (Fin (of_nat a)) (Fin (of_int (?len - 1))) (proofOrder G t ?m)
      = (Fin (of_nat (a + length (filter (prConflict \<circ> prod.snd) ?m))), Fin (of_int (?len - 1 + int (length ?m))))"
    if G: "order_ok G" for G
  proof -
    have p: "mset (proofOrder G t ?m) = mset ?m" using G by (simp add: order_ok_def)
    then have f: "length (filter (prConflict \<circ> prod.snd) (proofOrder G t ?m))
        = length (filter (prConflict \<circ> prod.snd) ?m)" by (metis mset_filter size_mset)
    show ?thesis
      using cleanliness_loop_exact[of a "proofOrder G t ?m" "?len - 1"] a(1) len few ne(2)
      by (simp only: f order_ok_length[OF G] few_def) simp
  qed
  show ?thesis unfolding conflictCleanliness_def Let_def a(2) unfolding m c[OF E(1)] c[OF E(2)] ..
qed

lemma best_loop_cong:
  assumes "\<And>k. k \<in> set ranks \<Longrightarrow> f k = g k"
  shows "best_loop f b ranks = best_loop g b ranks"
  using assms by (induction ranks arbitrary: b) (simp_all add: Let_def)

lemma scoreTx_order_free:
  assumes E: "order_ok E" "order_ok F" "mathLog E = mathLog F" and ne: "cset n i \<noteq> []" "few (length (cset n i))"
    and t: "near n (ranked ! k)" "few (length (mget0 (proofStore n) (ranked ! k)))"
  shows "scoreTx E n i ranked k = scoreTx F n i ranked k"
proof -
  have "proofWeight E n (ranked ! k) = proofWeight F n (ranked ! k)"
    using proofWeight_near[OF E(1) t] proofWeight_near[OF E(2) t] by simp
  then show ?thesis
    by (simp add: scoreTx_def Let_def E(3) cleanliness_order_free[OF E(1,2) ne t(2)])
qed

lemma selectBest_order_free:
  assumes E: "order_ok E" "order_ok F" "mathLog E = mathLog F" and ne: "cset n i \<noteq> []"
    and ok: "candidates_ok n i" and near: "\<forall>t \<in> set (cset n i). near n t"
  shows "selectBest E n i (cset n i) = selectBest F n i (cset n i)"
proof (cases "rankByArrival n (cset n i)")
  case (Inr rs)
  have set: "set rs = set (cset n i)" using mset_eq_setD[OF rankByArrival_mset_eq[OF Inr]] .
  have s: "scoreTx E n i rs k = scoreTx F n i rs k" if "k < length rs" for k
  proof (rule scoreTx_order_free[OF E ne])
    have "rs ! k \<in> set (cset n i)" using that nth_mem set by blast
    then show "near n (rs ! k)" "few (length (mget0 (proofStore n) (rs ! k)))"
      using near ok by (simp_all add: candidates_ok_def sizes_ok_def)
    show "few (length (cset n i))" using ok by (simp add: candidates_ok_def)
  qed
  show ?thesis
  proof (cases "rs = []")
    case False
    then have "scoreTx E n i rs 0 = scoreTx F n i rs 0" using s by simp
    moreover have "best_loop (scoreTx E n i rs) b [1..<length rs] = best_loop (scoreTx F n i rs) b [1..<length rs]"
      for b by (rule best_loop_cong) (simp add: s)
    ultimately show ?thesis using Inr by (simp add: selectBest_def)
  qed (simp add: selectBest_def Inr)
qed (simp add: selectBest_def)

section \<open>Amounts and tiers\<close>

lemma amount_loop_sum: "amount_loop acc vs = acc + of_nat (sum_list (map (unat \<circ> Amount) vs))"
  by (induction vs arbitrary: acc) (simp_all add: add.assoc)

definition total_amount :: "transfer \<Rightarrow> nat" where
  "total_amount t = sum_list (map (unat \<circ> Amount) (Outputs t))"

lemma transferAmount_mod: "unat (transferAmount t) = total_amount t mod 2 ^ 64"
  by (simp add: transferAmount_def amount_loop_sum total_amount_def unat_of_nat take_bit_eq_mod)

lemma transferAmount_exact: "total_amount t < 2 ^ 64 \<Longrightarrow> unat (transferAmount t) = total_amount t"
  by (simp add: transferAmount_mod)

lemma tier_cases:
  "finalityThreshold t =
     (if unat (transferAmount t) < 50000 then thresholdSmall
      else if unat (transferAmount t) < 500000 then thresholdMedium else thresholdLarge)"
  by (simp add: finalityThreshold_def Let_def tierSmallMax_def tierMediumMax_def word_less_nat_alt)

lemma thresholds_ordered:
  shows "fle thresholdSmall thresholdMedium" and "fle thresholdMedium thresholdLarge"
    and "fle thresholdSmall thresholdLarge"
    and "fle thresholdSmall thresholdSmall" and "fle thresholdMedium thresholdMedium"
    and "fle thresholdLarge thresholdLarge"
  by code_simp+

end
