(* ===== verification/Node_Kept.thy ===== *)
theory Node_Kept
  imports Node_Runs
begin

text \<open>
  The contract of a property of nodes that the abstract steps keep: it holds through every call and
  in every reachable state. Each such property of the development is an interpretation.
\<close>

section \<open>What every step of a node keeps\<close>

text \<open>A property of a node that the abstract steps keep holds through every call.\<close>

locale kept_by_steps =
  fixes E :: env and I :: "node \<Rightarrow> bool"
  assumes keeps_nstep: "nstep E n m \<Longrightarrow> node_inv (crypt E) n \<Longrightarrow> I n \<Longrightarrow> I m"
    and keeps_lstep: "lstep E n m \<Longrightarrow> node_inv (crypt E) n \<Longrightarrow> I n \<Longrightarrow> I m"
begin

lemma wsteps_keep_prop:
  assumes "(wstep E)\<^sup>*\<^sup>* w v" and "world_inv E w" and "I (nodes w a)"
  shows "I (nodes v a)"
proof -
  have "world_inv E v \<and> I (nodes v a)"
    using assms
  proof (induction rule: rtranclp_induct)
    case (step u v)
    then have u: "world_inv E u" "I (nodes u a)" by simp_all
    have "I (nodes v a)"
      using step.hyps(2)
    proof cases
      case (ws_node b m)
      have "node_inv (crypt E) (nodes u b)" using u(1) by (simp add: world_inv_def)
      then show ?thesis using keeps_nstep[OF ws_node(2)] u(2) ws_node(1) by (cases "b = a") simp_all
    qed (use u(2) in simp)
    then show ?case using wstep_keeps(1)[OF step.hyps(2) u(1)] by simp
  qed simp
  then show ?thesis ..
qed

lemma on_message_keeps:
  "OnMessage E k w b p msg = Some (v, r) \<Longrightarrow> world_inv E w \<Longrightarrow> I (nodes w a) \<Longrightarrow> I (nodes v a)"
  by (rule wsteps_keep_prop[OF OnMessage_steps])

lemma accept_local_keeps:
  assumes "AcceptLocalTransfer E k w b x = Some (v, r)" and inv: "world_inv E w" and a: "I (nodes w a)"
  shows "I (nodes v a)"
  using AcceptLocalTransfer_steps[OF assms(1)]
proof (elim disjE exE conjE)
  fix m
  assume l: "lstep E (nodes w b) m" and s: "(wstep E)\<^sup>*\<^sup>* (put w b m) v"
  have n: "node_inv (crypt E) (nodes w c)" for c using inv by (simp add: world_inv_def)
  have "world_inv E (put w b m)" using lstep_keeps(1)[OF l n] n by (simp add: world_inv_def)
  moreover have "I (nodes (put w b m) a)" using keeps_lstep[OF l n] a by (cases "b = a") simp_all
  ultimately show ?thesis by (rule wsteps_keep_prop[OF s])
qed (use a in simp)

end

text \<open>What setup and the passing of time do to a node.\<close>

inductive set_up :: "prims \<Rightarrow> node \<Rightarrow> node \<Rightarrow> bool" for P where
  su_seed: "set_up P n (SeedValue P n v)"
| su_peer: "set_up P n (AddPeer n p b)"
| su_peer_id: "set_up P n (AddPeerID n p)"
| su_sender: "set_up P n (SetSender n f)"
| su_now: "set_up P n (SetNowFunc n t)"
| su_wall: "set_up P n (n\<lparr>replayCache := (replayCache n)\<lparr>rcNow := t\<rparr>\<rparr>)"

inductive_cases set_upE: "set_up P n m"

locale kept_by_runs = kept_by_steps +
  assumes keeps_set_up: "set_up (crypt E) n m \<Longrightarrow> node_inv (crypt E) n \<Longrightarrow> I n \<Longrightarrow> I m"
    and keeps_new: "I (NewNode i t)"
begin

lemma exec_keeps_prop:
  assumes "exec E k w ev = Some (v, r)" and inv: "world_inv E w" and a: "I (nodes w a)"
  shows "I (nodes v a)"
proof -
  have n: "node_inv (crypt E) (nodes w b)" for b using inv by (simp add: world_inv_def)
  have put: "I (nodes (put w b m) a)" if "set_up (crypt E) (nodes w b) m" for b m
    using keeps_set_up[OF that n] a by (cases "b = a") simp_all
  show ?thesis
  proof (cases ev)
    case (Receive b f m)
    then show ?thesis using on_message_keeps assms by simp
  next
    case (Submit b x)
    then show ?thesis using accept_local_keeps assms by simp
  qed (use assms(1) put set_up.intros in auto)
qed

lemma reachable_keeps:
  assumes "reachable E w"
  shows "I (nodes w a)"
proof -
  from assms obtain w0 evs where w0: "initial w0" "run E evs w0 = Some w" by (auto simp: reachable_def)
  have "I (nodes w0 a)" using w0(1) keeps_new unfolding initial_def by metis
  then have "world_inv E w \<and> I (nodes w a)"
    using initial_inv[OF w0(1)]
    by (intro run_invariant[OF w0(2), where I = "\<lambda>v. world_inv E v \<and> I (nodes v a)"])
      (auto intro: exec_world_inv exec_keeps_prop)
  then show ?thesis ..
qed

end

end
