(* ===== verification/Node_Inspect.thy ===== *)
theory Node_Inspect
  imports Node_Kept
begin

text \<open>
  The read-only views of \<open>node/inspect.go\<close>. Each collects the entries of a map, in whatever order Go
  visits it, and sorts them by their key; the keys are all different, so the order of the visit
  does not show. An association list of the model has one entry per key (\<open>maps_wf\<close>).
\<close>

section \<open>Views\<close>

record selected_lineage_entry =
  seInput :: hash
  seTxID :: hash
  seScore :: f64
  seUpdatedAt :: int64

record finality_entry =
  feTxID :: hash
  feState :: finality_state
  feAmount :: uint64

record conflict_set_entry =
  ceInput :: hash
  ceTxIDs :: "hash list"

definition PeerCount :: "node \<Rightarrow> nat" where
  "PeerCount n = length (peers n)"

definition TransferCount :: "node \<Rightarrow> nat" where
  "TransferCount n = length (txStore n)"

definition ConflictSetCount :: "node \<Rightarrow> nat" where
  "ConflictSetCount n = length (conflictSets n)"

definition SelectedLineageCount :: "node \<Rightarrow> nat" where
  "SelectedLineageCount n = length (selectedLineage n)"

definition ValueAt :: "node \<Rightarrow> hash \<Rightarrow> web4_value option" where
  "ValueAt n valueID = map_of (valueStore n) valueID"

definition Values :: "node \<Rightarrow> web4_value list" where
  "Values n = sort_key vID (map snd (valueStore n))"

fun lineage_entries :: "(hash, selected_lineage) go_map \<Rightarrow> selected_lineage_entry list" where
  "lineage_entries [] = []"
| "lineage_entries ((input, selected) # m) =
     \<lparr>seInput = input, seTxID = slTxID selected, seScore = slScore selected,
      seUpdatedAt = UpdatedAt selected\<rparr> # lineage_entries m"

definition SelectedLineages :: "node \<Rightarrow> selected_lineage_entry list" where
  "SelectedLineages n = sort_key seInput (lineage_entries (selectedLineage n))"

text \<open>\<open>n.txStore[txID].Tx\<close> dereferences the record of the transfer.\<close>

fun finality_entries :: "node \<Rightarrow> (hash, finality_state) go_map \<Rightarrow> error + finality_entry list" where
  "finality_entries n [] = Inr []"
| "finality_entries n ((txID, state) # m) =
     (case map_of (txStore n) txID of
        None \<Rightarrow> Inl PanicNilDeref
      | Some r \<Rightarrow>
          bindE (finality_entries n m) (\<lambda>es.
            Inr (\<lparr>feTxID = txID, feState = state, feAmount = transferAmount (Tx r)\<rparr> # es)))"

definition FinalityEntries :: "node \<Rightarrow> error + finality_entry list" where
  "FinalityEntries n =
     bindE (finality_entries n (finalityState n)) (\<lambda>es. Inr (sort_key feTxID es))"

fun conflict_entries :: "(hash, hash list) go_map \<Rightarrow> conflict_set_entry list" where
  "conflict_entries [] = []"
| "conflict_entries ((input, txIDs) # m) = \<lparr>ceInput = input, ceTxIDs = sort txIDs\<rparr> # conflict_entries m"

definition ConflictSetEntries :: "node \<Rightarrow> conflict_set_entry list" where
  "ConflictSetEntries n = sort_key ceInput (conflict_entries (conflictSets n))"

section \<open>One entry per key\<close>

definition maps_wf :: "node \<Rightarrow> bool" where
  "maps_wf n \<longleftrightarrow> mwf (txStore n) \<and> mwf (valueStore n) \<and> mwf (conflictSets n) \<and> mwf (selectedLineage n)
     \<and> mwf (finalityState n) \<and> mwf (peers n)"

lemma mwf_put [simp]: "mwf m \<Longrightarrow> mwf (mput k v m)"
  by (simp add: distinct_update)

lemma mwf_del [simp]: "mwf m \<Longrightarrow> mwf (mdel k m)"
  by (simp add: distinct_delete)

lemma maps_wf_observePeer [simp]: "maps_wf n \<Longrightarrow> maps_wf (observePeer n t f)"
  by (simp add: maps_wf_def observePeer_def Let_def distinct_update split: option.split)

lemma maps_wf_setSeenCount [simp]: "maps_wf n \<Longrightarrow> maps_wf (setSeenCount n t)"
  by (simp add: maps_wf_def setSeenCount_def distinct_update split: option.split)

lemma maps_wf_storeOutputs [simp]: "maps_wf n \<Longrightarrow> maps_wf (storeOutputs n vs)"
  by (induction vs arbitrary: n) (simp_all add: maps_wf_def distinct_update)

lemma maps_wf_addConflict [simp]: "maps_wf n \<Longrightarrow> maps_wf (addConflictMembership n t is)"
  by (induction "is" arbitrary: n) (simp_all add: maps_wf_def Let_def distinct_update)

lemma maps_wf_upsert: "maps_wf n \<Longrightarrow> upsertTransfer P n x c f = (m, t, ins) \<Longrightarrow> maps_wf m"
proof -
  assume n: "maps_wf n" and u: "upsertTransfer P n x c f = (m, t, ins)"
  have "maps_wf (inserted_node P n x c f)"
    unfolding inserted_node_def Let_def
    by (intro maps_wf_addConflict maps_wf_setSeenCount maps_wf_observePeer maps_wf_storeOutputs)
      (use n in \<open>simp add: maps_wf_def distinct_update\<close>)
  then show ?thesis using u n by (auto simp: upsertTransfer_cases Let_def split: if_splits)
qed

lemma maps_wf_updateFinality [simp]: "maps_wf n \<Longrightarrow> maps_wf (updateFinalityForTransfer E n t)"
  by (simp add: updateFinality_eq maps_wf_def distinct_update split: option.split)

lemma maps_wf_fold [simp]:
  "maps_wf n \<Longrightarrow> maps_wf (fold (\<lambda>t n. updateFinalityForTransfer E n t) ts n)"
  by (induction ts arbitrary: n) simp_all

lemma maps_wf_recompute_input: "maps_wf n \<Longrightarrow> recomputeSelectionForInput E n i = Inr m \<Longrightarrow> maps_wf m"
  by (auto simp: recomputeSelectionForInput_def Let_def bindE_Inr_iff maps_wf_def[of "n\<lparr>selectedLineage := _\<rparr>"]
      distinct_update distinct_delete intro!: maps_wf_fold split: if_splits) (simp_all add: maps_wf_def)

lemma maps_wf_recompute_inputs: "maps_wf n \<Longrightarrow> recompute_inputs E n is = Inr m \<Longrightarrow> maps_wf m"
  by (induction "is" arbitrary: n) (auto simp: bindE_Inr_iff dest: maps_wf_recompute_input)

lemma maps_wf_recompute: "maps_wf n \<Longrightarrow> recomputeSelectionForTransfer E n t = Inr m \<Longrightarrow> maps_wf m"
  by (auto simp: recomputeSelectionForTransfer_def bindE_Inr_iff dest: maps_wf_recompute_inputs
      split: option.splits)

lemma maps_wf_cong:
  assumes "maps_wf n" and "txStore m = txStore n" and "valueStore m = valueStore n"
    and "conflictSets m = conflictSets n" and "selectedLineage m = selectedLineage n"
    and "finalityState m = finalityState n" and "peers m = peers n"
  shows "maps_wf m"
  using assms by (simp add: maps_wf_def)

lemma maps_wf_accept:
  assumes "maps_wf n"
  shows "maps_wf (fst (upsert_and_recompute E n x c f))"
proof -
  obtain k t ins where u: "upsertTransfer (crypt E) n x c f = (k, t, ins)" by (metis prod.exhaust)
  have k: "maps_wf k" by (rule maps_wf_upsert[OF assms u])
  show ?thesis
  proof (cases "recomputeSelectionForTransfer E k t")
    case (Inl e)
    then show ?thesis using u k by (simp add: upsert_and_recompute_def)
  next
    case (Inr m)
    then show ?thesis using u maps_wf_recompute[OF k Inr] by (simp add: upsert_and_recompute_def)
  qed
qed

lemma maps_wf_proof:
  assumes "maps_wf n"
  shows "maps_wf (fst (proof_and_recompute E n t p))"
proof -
  have u: "maps_wf (updateProof n t p)" by (rule maps_wf_cong[OF assms]) (simp_all add: updateProof_def)
  show ?thesis
  proof (cases "recomputeSelectionForTransfer E (updateProof n t p) t")
    case (Inl e)
    then show ?thesis using u by (simp add: proof_and_recompute_def Let_def)
  next
    case (Inr m)
    then show ?thesis using u maps_wf_recompute[OF u Inr] by (simp add: proof_and_recompute_def Let_def)
  qed
qed

lemma nstep_maps:
  assumes "nstep E n m" and "maps_wf n"
  shows "maps_wf m"
  using assms(1)
proof cases
  case (ns_store x f)
  then show ?thesis using maps_wf_accept[OF assms(2)] by simp
next
  case (ns_proof t p)
  then show ?thesis using maps_wf_proof[OF assms(2)] by simp
qed (use assms(2) in \<open>auto intro: maps_wf_cong\<close>)

lemma lstep_maps:
  assumes "lstep E n m" and "maps_wf n"
  shows "maps_wf m"
  using assms(1)
proof cases
  case (ls_local x tr)
  have "maps_wf (n\<lparr>inputTracker := tr\<rparr>)" by (rule maps_wf_cong[OF assms(2)]) simp_all
  then show ?thesis unfolding ls_local(1) by (rule maps_wf_accept)
qed

lemma setup_maps: "set_up P n m \<Longrightarrow> maps_wf n \<Longrightarrow> maps_wf m"
  by (erule set_upE) (simp_all add: maps_wf_def SeedValue_def AddPeer_def AddPeerID_def SetSender_def
      SetNowFunc_def Let_def)

lemma NewNode_maps: "maps_wf (NewNode i t)"
  by (simp add: maps_wf_def NewNode_def)

interpretation maps: kept_by_runs E maps_wf for E
  by unfold_locales (auto intro: nstep_maps lstep_maps setup_maps NewNode_maps)

lemmas reachable_maps = maps.reachable_keeps

section \<open>What the views show\<close>

lemma sorted_keys:
  assumes "map k xs = ks" and "distinct ks"
  shows "sorted_wrt (<) (map k (sort_key k xs))"
proof -
  have "mset (map k (sort_key k xs)) = mset ks" by (simp flip: assms(1))
  then have "distinct (map k (sort_key k xs))" using assms(2) mset_eq_imp_distinct_iff by blast
  then show ?thesis using sorted_sort_key[of k xs] by (simp add: strict_sorted_iff)
qed

lemma map_of_mem: "mwf m \<Longrightarrow> (k, v) \<in> set m \<longleftrightarrow> map_of m k = Some v"
  by (metis map_of_SomeD map_of_is_SomeI)

lemma lineage_entries_map:
  "lineage_entries m = map (\<lambda>(i, s). \<lparr>seInput = i, seTxID = slTxID s, seScore = slScore s,
     seUpdatedAt = UpdatedAt s\<rparr>) m"
  by (induction m rule: lineage_entries.induct) simp_all

lemma conflict_entries_map:
  "conflict_entries m = map (\<lambda>(i, ts). \<lparr>ceInput = i, ceTxIDs = sort ts\<rparr>) m"
  by (induction m rule: conflict_entries.induct) simp_all

lemma finality_entries_map:
  assumes "\<forall>(t, s) \<in> set m. map_of (txStore n) t \<noteq> None"
  shows "finality_entries n m = Inr (map (\<lambda>(t, s). \<lparr>feTxID = t, feState = s,
     feAmount = transferAmount (the (Transfer n t))\<rparr>) m)"
  using assms by (induction n m rule: finality_entries.induct) (auto simp: Transfer_def)

text \<open>Each view lists every entry once, in ascending order of its key.\<close>

lemma Values_view:
  assumes "maps_wf n" and "val_inv P n"
  shows "sorted_wrt (<) (map vID (Values n))" and "v \<in> set (Values n) \<longleftrightarrow> ValueAt n (vID v) = Some v"
proof -
  have m: "mwf (valueStore n)" using assms(1) by (simp add: maps_wf_def)
  have id: "vID u = h" if "(h, u) \<in> set (valueStore n)" for h u
    using that assms(2) map_of_mem[OF m] unfolding val_inv_def by blast
  have "map vID (map snd (valueStore n)) = map fst (valueStore n)" using id by (auto simp: list.map_comp)
  then show "sorted_wrt (<) (map vID (Values n))" using m unfolding Values_def by (rule sorted_keys)
  show "v \<in> set (Values n) \<longleftrightarrow> ValueAt n (vID v) = Some v"
  proof -
    have "v \<in> set (Values n) \<longleftrightarrow> (\<exists>h. (h, v) \<in> set (valueStore n))"
      by (force simp: Values_def)
    also have "\<dots> \<longleftrightarrow> (vID v, v) \<in> set (valueStore n)" using id[of _ v] by blast
    also have "\<dots> \<longleftrightarrow> ValueAt n (vID v) = Some v" unfolding ValueAt_def by (rule map_of_mem[OF m])
    finally show ?thesis .
  qed
qed

lemma SelectedLineages_view:
  assumes "maps_wf n"
  shows "sorted_wrt (<) (map seInput (SelectedLineages n))"
    and "(\<exists>e \<in> set (SelectedLineages n). seInput e = i \<and> seTxID e = t) \<longleftrightarrow> SelectedForInput n i = Some t"
proof -
  have m: "mwf (selectedLineage n)" using assms by (simp add: maps_wf_def)
  have "map seInput (lineage_entries (selectedLineage n)) = map fst (selectedLineage n)"
    by (auto simp: lineage_entries_map)
  then show "sorted_wrt (<) (map seInput (SelectedLineages n))"
    using m unfolding SelectedLineages_def by (rule sorted_keys)
  show "(\<exists>e \<in> set (SelectedLineages n). seInput e = i \<and> seTxID e = t) \<longleftrightarrow> SelectedForInput n i = Some t"
    using map_of_mem[OF m] by (force simp: SelectedLineages_def lineage_entries_map SelectedForInput_def)
qed

lemma ConflictSetEntries_view:
  assumes "maps_wf n"
  shows "sorted_wrt (<) (map ceInput (ConflictSetEntries n))"
    and "e \<in> set (ConflictSetEntries n) \<Longrightarrow> ceTxIDs e = sort (ConflictSet n (ceInput e))"
    and "ConflictSet n i \<noteq> [] \<Longrightarrow> i \<in> ceInput ` set (ConflictSetEntries n)"
proof -
  have m: "mwf (conflictSets n)" using assms by (simp add: maps_wf_def)
  have "map ceInput (conflict_entries (conflictSets n)) = map fst (conflictSets n)"
    by (auto simp: conflict_entries_map)
  then show "sorted_wrt (<) (map ceInput (ConflictSetEntries n))"
    using m unfolding ConflictSetEntries_def by (rule sorted_keys)
  show "e \<in> set (ConflictSetEntries n) \<Longrightarrow> ceTxIDs e = sort (ConflictSet n (ceInput e))"
    using map_of_mem[OF m] by (auto simp: ConflictSetEntries_def conflict_entries_map ConflictSet_def mget0_def)
  show "ConflictSet n i \<noteq> [] \<Longrightarrow> i \<in> ceInput ` set (ConflictSetEntries n)"
    using map_of_mem[OF m]
    by (force simp: ConflictSetEntries_def conflict_entries_map ConflictSet_def mget0_def split: option.splits)
qed

lemma FinalityEntries_view:
  assumes "maps_wf n" and "fin_inv {} n"
  obtains es where "FinalityEntries n = Inr es" and "sorted_wrt (<) (map feTxID es)"
    and "\<And>e. e \<in> set es \<longleftrightarrow> FinalityForTransfer n (feTxID e) = Some (feState e)
          \<and> feAmount e = transferAmount (the (Transfer n (feTxID e)))"
proof -
  have m: "mwf (finalityState n)" using assms(1) by (simp add: maps_wf_def)
  let ?es = "map (\<lambda>(t, s). \<lparr>feTxID = t, feState = s,
     feAmount = transferAmount (the (Transfer n t))\<rparr>) (finalityState n)"
  have "\<forall>(t, s) \<in> set (finalityState n). map_of (txStore n) t \<noteq> None"
    using assms(2) map_of_mem[OF m] by (force simp: fin_inv_def txs_def)
  then have "FinalityEntries n = Inr (sort_key feTxID ?es)"
    by (simp add: FinalityEntries_def finality_entries_map)
  moreover have "map feTxID ?es = map fst (finalityState n)" by auto
  then have "sorted_wrt (<) (map feTxID (sort_key feTxID ?es))" using m by (rule sorted_keys)
  moreover have "e \<in> set (sort_key feTxID ?es) \<longleftrightarrow> FinalityForTransfer n (feTxID e) = Some (feState e)
          \<and> feAmount e = transferAmount (the (Transfer n (feTxID e)))" for e
    using map_of_mem[OF m, of "feTxID e" "feState e"] by (force simp: FinalityForTransfer_def image_iff)
  ultimately show thesis by (rule that)
qed

end
