(* ===== verification/Transport_Frame.thy ===== *)
theory Transport_Frame
  imports Node_Runs
begin

text \<open>
  The wire format of \<open>transport/transport.go\<close> and the handshake of \<open>transport/tcp.go\<close>. An
  \<open>io.Reader\<close> is the list of chunks its successive \<open>Read\<close> calls have available; a call returns at
  most one chunk, and the end of the list is the end of the stream.
\<close>

section \<open>io.ReadFull\<close>

type_synonym reader = "bytes list"

text \<open>\<open>acc\<close> is what has been read into the buffer, \<open>n\<close> the room left in it.\<close>

function readFull :: "bytes \<Rightarrow> nat \<Rightarrow> reader \<Rightarrow> error + (bytes \<times> reader)" where
  "readFull acc n r =
     (if n = 0 then Inr (acc, r)
      else case r of
             [] \<Rightarrow> Inl (if acc = [] then ReadEOF else ReadUnexpectedEOF)
           | c # r \<Rightarrow>
               if length c \<le> n then readFull (acc @ c) (n - length c) r
               else Inr (acc @ take n c, drop n c # r))"
  by pat_completeness auto
termination by (relation "measure (\<lambda>(acc, n, r). length r)") auto

declare readFull.simps [simp del]

text \<open>The result depends on the bytes of the stream alone, not on how they were cut into chunks.\<close>

lemma readFull_enough:
  assumes "n \<le> length (concat r)"
  shows "\<exists>r'. readFull acc n r = Inr (acc @ take n (concat r), r') \<and> concat r' = drop n (concat r)"
  using assms
proof (induction acc n r rule: readFull.induct)
  case (1 acc n r)
  show ?case
  proof (cases "n = 0")
    case False
    then obtain c cs where r: "r = c # cs" using 1(2) by (cases r) auto
    show ?thesis
    proof (cases "length c \<le> n")
      case True
      then have "n - length c \<le> length (concat cs)" using 1(2) r by simp
      from 1(1)[OF False r True this] show ?thesis
        using True False r by (subst readFull.simps) auto
    qed (use False r in \<open>simp add: readFull.simps\<close>)
  qed (simp add: readFull.simps)
qed

lemma readFull_short:
  assumes "length (concat r) < n"
  shows "readFull acc n r = Inl (if acc @ concat r = [] then ReadEOF else ReadUnexpectedEOF)"
  using assms
proof (induction acc n r rule: readFull.induct)
  case (1 acc n r)
  then have n: "n \<noteq> 0" by simp
  show ?case
  proof (cases r)
    case Nil
    then show ?thesis using n by (simp add: readFull.simps)
  next
    case (Cons c cs)
    then have c: "length c \<le> n" and "length (concat cs) < n - length c" using 1(2) by simp_all
    from 1(1)[OF n Cons c this(2)] show ?thesis
      using n Cons c by (subst readFull.simps) simp
  qed
qed

section \<open>Frames (transport.go)\<close>

definition maxFrameSize :: nat where "maxFrameSize = 16777216"

definition EncodeMessageFrame :: "message \<Rightarrow> bytes" where
  "EncodeMessageFrame msg =
     (let payload = EncodeMessage msg in put_u32 (of_nat (length payload)) @ payload)"

definition DecodeMessageFrame :: "reader \<Rightarrow> error + (message \<times> reader)" where
  "DecodeMessageFrame r =
     bindE (readFull [] 4 r) (\<lambda>(lengthBuf, r).
       let frameLen = get_u32 lengthBuf
       in if unat frameLen > maxFrameSize then Inl (FrameTooLarge (unat frameLen))
          else bindE (readFull [] (unat frameLen) r) (\<lambda>(payload, r).
               bindE (DecodeMessage payload) (\<lambda>msg. Inr (msg, r))))"

definition AttachNode ::
  "node \<Rightarrow> (peer_id \<Rightarrow> message \<Rightarrow> error option) \<Rightarrow> error option \<Rightarrow> node \<times> (error + unit)" where
  "AttachNode n trSend trStart =
     (let n = SetSender n (Some trSend)
      in case trStart of
           Some e \<Rightarrow> (SetSender n None, Inl e)
         | None \<Rightarrow> (n, Inr ()))"

text \<open>A message that fits a frame.\<close>

definition frame_ok :: "message \<Rightarrow> bool" where
  "frame_ok m \<longleftrightarrow> message_ok m \<and> length (EncodeMessage m) \<le> maxFrameSize"

lemma length_frame: "length (EncodeMessageFrame m) = 4 + length (EncodeMessage m)"
  by (simp add: EncodeMessageFrame_def Let_def)

lemma get_frame_len:
  assumes "length (EncodeMessage m) < 2 ^ 32"
  shows "unat (get_u32 (take 4 (EncodeMessageFrame m @ s))) = length (EncodeMessage m)"
  using unat_of_nat_u32[OF assms] by (simp add: EncodeMessageFrame_def Let_def)

text \<open>A frame followed by anything decodes to its message and leaves the rest.\<close>

lemma frame_decodes:
  assumes m: "frame_ok m" and r: "concat r = EncodeMessageFrame m @ s"
  shows "\<exists>r'. DecodeMessageFrame r = Inr (m, r') \<and> concat r' = s"
proof -
  let ?e = "EncodeMessage m"
  have small: "length ?e \<le> maxFrameSize" and ok: "message_ok m" using m by (simp_all add: frame_ok_def)
  then have len: "unat (get_u32 (take 4 (concat r))) = length ?e"
    unfolding r by (intro get_frame_len) (simp add: maxFrameSize_def)
  obtain r1 where r1: "readFull [] 4 r = Inr (take 4 (concat r), r1)" "concat r1 = drop 4 (concat r)"
    using readFull_enough[of 4 r "[]"] r length_frame[of m] by auto
  have d: "concat r1 = ?e @ s" unfolding r1(2) r by (simp add: EncodeMessageFrame_def Let_def)
  obtain r2 where r2: "readFull [] (length ?e) r1 = Inr (?e, r2)" "concat r2 = s"
    using readFull_enough[of "length ?e" r1 "[]"] d by auto
  have "DecodeMessage ?e = Inr m" using ok by (rule message_payload.decode_encode)
  then have "DecodeMessageFrame r = Inr (m, r2)"
    using small by (simp add: DecodeMessageFrame_def r1(1) len Let_def r2(1))
  then show ?thesis using r2(2) by blast
qed

text \<open>Nothing else decodes.\<close>

lemma readFull_Inr:
  assumes "readFull [] n r = Inr (b, r')"
  shows "length b = n" and "concat r = b @ concat r'"
proof -
  have n: "n \<le> length (concat r)" using readFull_short[of r n "[]"] assms by (cases "n \<le> length (concat r)") auto
  from readFull_enough[OF n, of "[]"] assms have "b = take n (concat r)" and "concat r' = drop n (concat r)" by auto
  then show "length b = n" and "concat r = b @ concat r'" using n by simp_all
qed

lemma frame_decodes_only:
  assumes "DecodeMessageFrame r = Inr (m, r')"
  shows "frame_ok m" and "concat r = EncodeMessageFrame m @ concat r'"
proof -
  from assms obtain lb r1 where l: "readFull [] 4 r = Inr (lb, r1)"
    and l2: "(let frameLen = get_u32 lb in if unat frameLen > maxFrameSize then Inl (FrameTooLarge (unat frameLen))
          else bindE (readFull [] (unat frameLen) r1) (\<lambda>(payload, r).
               bindE (DecodeMessage payload) (\<lambda>msg. Inr (msg, r)))) = Inr (m, r')"
    unfolding DecodeMessageFrame_def by (elim bindE_pairE)
  then have small: "unat (get_u32 lb) \<le> maxFrameSize" by (auto simp: Let_def split: if_splits)
  with l2 have "bindE (readFull [] (unat (get_u32 lb)) r1) (\<lambda>(payload, r).
               bindE (DecodeMessage payload) (\<lambda>msg. Inr (msg, r))) = Inr (m, r')" by (simp add: Let_def)
  then obtain p r2 where p: "readFull [] (unat (get_u32 lb)) r1 = Inr (p, r2)"
    and d: "bindE (DecodeMessage p) (\<lambda>msg. Inr (msg, r2)) = Inr (m, r')" by (elim bindE_pairE)
  then have dm: "DecodeMessage p = Inr m" and r2: "r2 = r'" by (auto simp: bindE_Inr_iff)
  note lb = readFull_Inr[OF l] and pl = readFull_Inr[OF p] and mo = message_payload.decode_ok[OF dm]
  have "put_u32 (of_nat (length p)) = lb"
    using put_get_u32[OF lb(1)] pl(1) by simp
  then have "lb @ p = EncodeMessageFrame m" using mo by (simp add: EncodeMessageFrame_def Let_def)
  then show "concat r = EncodeMessageFrame m @ concat r'" using lb(2) pl(2) r2 by simp
  show "frame_ok m" using mo pl(1) small by (simp add: frame_ok_def)
qed

lemma frame_too_large:
  assumes "maxFrameSize < length (EncodeMessage m)" and "length (EncodeMessage m) < 2 ^ 32"
    and "concat r = EncodeMessageFrame m @ s"
  shows "DecodeMessageFrame r = Inl (FrameTooLarge (length (EncodeMessage m)))"
proof -
  obtain r1 where r1: "readFull [] 4 r = Inr (take 4 (concat r), r1)"
    using readFull_enough[of 4 r "[]"] assms(3) length_frame[of m] by auto
  have "unat (get_u32 (take 4 (concat r))) = length (EncodeMessage m)"
    unfolding assms(3) by (rule get_frame_len[OF assms(2)])
  then show ?thesis using assms(1) by (simp add: DecodeMessageFrame_def r1 Let_def)
qed

section \<open>The receive loop of readLoop\<close>

text \<open>
  The messages handed to the handler until a frame fails to decode, and the error that ends the
  loop. Every frame takes at least four bytes of the stream.
\<close>

function serve :: "reader \<Rightarrow> message list \<times> error" where
  "serve r =
     (case DecodeMessageFrame r of
        Inl e \<Rightarrow> ([], e)
      | Inr (msg, r') \<Rightarrow> (let (ms, e) = serve r' in (msg # ms, e)))"
  by pat_completeness auto
termination
proof (relation "measure (\<lambda>r. length (concat r))")
  fix r x msg r'
  assume "DecodeMessageFrame r = Inr x" and "(msg, r') = x"
  then have "DecodeMessageFrame r = Inr (msg, r')" by simp
  from frame_decodes_only(2)[OF this] show "(r', r) \<in> measure (\<lambda>r. length (concat r))"
    by (simp add: length_frame)
qed simp

declare serve.simps [simp del]

lemma serve_frames:
  assumes "\<forall>m \<in> set ms. frame_ok m" and "concat r = concat (map EncodeMessageFrame ms)"
  shows "serve r = (ms, ReadEOF)"
  using assms
proof (induction ms arbitrary: r)
  case Nil
  then have c: "concat r = []" by (simp only: list.map concat.simps)
  have "readFull [] 4 r = Inl ReadEOF" using readFull_short[of r 4 "[]"] by (simp only: c) simp
  then show ?case by (simp add: serve.simps[of r] DecodeMessageFrame_def)
next
  case (Cons m ms)
  then obtain r' where "DecodeMessageFrame r = Inr (m, r')" "concat r' = concat (map EncodeMessageFrame ms)"
    using frame_decodes[of m r "concat (map EncodeMessageFrame ms)"] by auto
  then show ?case using Cons.IH[of r'] Cons.prems(1) by (simp add: serve.simps[of r])
qed

lemma serve_sound:
  "serve r = (ms, e) \<Longrightarrow> \<exists>r'. concat r = concat (map EncodeMessageFrame ms) @ concat r'
     \<and> (\<forall>m \<in> set ms. frame_ok m) \<and> DecodeMessageFrame r' = Inl e"
proof (induction r arbitrary: ms rule: serve.induct)
  case (1 r)
  show ?case
  proof (cases "DecodeMessageFrame r")
    case (Inl e')
    then show ?thesis using 1(2) by (intro exI[of _ r]) (simp add: serve.simps[of r])
  next
    case (Inr p)
    obtain m r' where p: "p = (m, r')" by fastforce
    obtain ms' where ms: "serve r' = (ms', e)" "ms = m # ms'"
      using 1(2) Inr p by (auto simp: serve.simps[of r] split: prod.splits)
    from 1(1)[OF Inr _ ms(1)] p obtain r2 where
      "concat r' = concat (map EncodeMessageFrame ms') @ concat r2" "\<forall>m \<in> set ms'. frame_ok m"
      "DecodeMessageFrame r2 = Inl e" by blast
    then show ?thesis
      using frame_decodes_only[of r m r'] Inr p ms(2) by (intro exI[of _ r2]) simp
  qed
qed

section \<open>Handshake (tcp.go)\<close>

definition maxHandshakeAddrLen :: nat where "maxHandshakeAddrLen = 1024"

text \<open>\<open>uint16(len(addr))\<close> wraps at 64 KiB.\<close>

definition encodeHandshake :: "string \<Rightarrow> bytes" where
  "encodeHandshake addr = put_u16 (of_nat (length addr)) @ string_bytes addr"

definition decodeHandshake :: "reader \<Rightarrow> error + (string \<times> reader)" where
  "decodeHandshake r =
     bindE (readFull [] 2 r) (\<lambda>(lengthBuf, r).
       let len = unat (get_u16 lengthBuf)
       in if len = 0 then Inl EmptyPeerAddress
          else if len > maxHandshakeAddrLen then Inl (PeerAddressTooLong len)
          else bindE (readFull [] len r) (\<lambda>(buf, r). Inr (bytes_string buf, r)))"

lemma handshake_decodes:
  assumes "addr \<noteq> []" and "length addr \<le> maxHandshakeAddrLen"
    and r: "concat r = encodeHandshake addr @ s"
  shows "\<exists>r'. decodeHandshake r = Inr (addr, r') \<and> concat r' = s"
proof -
  have len: "unat (get_u16 (take 2 (concat r))) = length addr"
    using assms(2) unfolding r encodeHandshake_def
    by (simp add: unat_of_nat take_bit_eq_mod maxHandshakeAddrLen_def)
  obtain r1 where r1: "readFull [] 2 r = Inr (take 2 (concat r), r1)" "concat r1 = drop 2 (concat r)"
    using readFull_enough[of 2 r "[]"] r by (auto simp: encodeHandshake_def)
  have "concat r1 = string_bytes addr @ s" unfolding r1(2) r by (simp add: encodeHandshake_def)
  then obtain r2 where "readFull [] (length addr) r1 = Inr (string_bytes addr, r2)" "concat r2 = s"
    using readFull_enough[of "length addr" r1 "[]"] by auto
  then show ?thesis using assms(1,2) by (simp add: decodeHandshake_def r1(1) len Let_def)
qed

lemma handshake_bounds:
  assumes "decodeHandshake r = Inr (addr, r')"
  shows "addr \<noteq> []" and "length addr \<le> maxHandshakeAddrLen" and "concat r = encodeHandshake addr @ concat r'"
proof -
  from assms obtain lb r1 where l: "readFull [] 2 r = Inr (lb, r1)"
    and l2: "(let len = unat (get_u16 lb) in if len = 0 then Inl EmptyPeerAddress
          else if len > maxHandshakeAddrLen then Inl (PeerAddressTooLong len)
          else bindE (readFull [] len r1) (\<lambda>(buf, r). Inr (bytes_string buf, r))) = Inr (addr, r')"
    unfolding decodeHandshake_def by (elim bindE_pairE)
  let ?n = "unat (get_u16 lb)"
  from l2 have n: "?n \<noteq> 0" "?n \<le> maxHandshakeAddrLen"
    and "bindE (readFull [] ?n r1) (\<lambda>(buf, r). Inr (bytes_string buf, r)) = Inr (addr, r')"
    by (auto simp: Let_def split: if_splits)
  then obtain b where b: "readFull [] ?n r1 = Inr (b, r')" "addr = bytes_string b"
    by (elim bindE_pairE) simp
  note lb = readFull_Inr[OF l] and bb = readFull_Inr[OF b(1)]
  have a: "length addr = ?n" using bb(1) b(2) by (simp add: bytes_string_def)
  then show "addr \<noteq> []" and "length addr \<le> maxHandshakeAddrLen" using n by auto
  have "put_u16 (of_nat (length addr)) = lb" using put_get_u16[OF lb(1)] a by simp
  then show "concat r = encodeHandshake addr @ concat r'"
    using lb(2) bb(2) b(2) by (simp add: encodeHandshake_def)
qed

end
