(* ===== verification/Scenario.thy ===== *)
theory Scenario
  imports Node_Gossip Node_Choice Node_Inspect Transport_Frame
begin

text \<open>
  A concrete network for the witnesses of the properties: two nodes \<open>a\<close> and \<open>b\<close> that know a value
  owned by one key, and transfers that spend it. The primitives are concrete functions with the
  shape of the real ones: a 32-byte digest, a signature that names its key.
\<close>

section \<open>Environment\<close>

definition demo_prims :: prims where
  "demo_prims = \<lparr>Sum256 = (\<lambda>b. replicate 32 (b ! (length b - 57))),
     ed25519_Sign = (\<lambda>priv msg. priv), ed25519_Verify = (\<lambda>pub msg sig. pub = sig)\<rparr>"

definition demo_env :: env where
  "demo_env = \<lparr>crypt = demo_prims, mathLog = (\<lambda>x. Fin 1), proofOrder = (\<lambda>t m. m),
     randID = (\<lambda>n. of_nat n # replicate 15 7)\<rparr>"

definition demo_key :: bytes where
  "demo_key = replicate 32 9"

definition demo_value :: "uint64 \<Rightarrow> web4_value" where
  "demo_value n = \<lparr>vID = [], Amount = n, Unit = [], Owner = demo_key, Expiry = 0, Depth = 0\<rparr>"

definition demo_input :: hash where
  "demo_input = replicate 32 5"

definition demo_tx :: "uint64 \<Rightarrow> transfer" where
  "demo_tx n = \<lparr>tID = replicate 32 (ucast n), Inputs = [demo_input],
     Outputs = [(demo_value n)\<lparr>vID := replicate 32 (ucast n)\<rparr>], Sig = demo_key, Timestamp = 0\<rparr>"

lemma demo_env_simps [simp]:
  shows "crypt demo_env = demo_prims" and "mathLog demo_env x = Fin 1" and "proofOrder demo_env t m = m"
  by (simp_all add: demo_env_def)

lemma demo_log_ok: "log_ok demo_env"
  using rnd_of_int[of 1] by (simp add: log_ok_def in_range_def)

lemma demo_order_ok: "order_ok demo_env"
  by (simp add: order_ok_def)

text \<open>The digests and encodings the witnesses need, evaluated once.\<close>

lemma demo_value_id: "ComputeValueID demo_prims (demo_value 5) = demo_input"
  by code_simp

lemma demo_ids:
  shows "ComputeTransferID demo_prims (demo_tx 3) = replicate 32 3"
    and "ComputeTransferID demo_prims (demo_tx 4) = replicate 32 4"
  by code_simp+

lemma demo_normal:
  shows "normalizeTransfer demo_prims (demo_tx 3) = demo_tx 3"
    and "normalizeTransfer demo_prims (demo_tx 4) = demo_tx 4"
  by code_simp+

lemma demo_output_ids:
  shows "demo_input \<notin> ComputeValueID demo_prims ` set (Outputs (demo_tx 3))"
    and "demo_input \<notin> ComputeValueID demo_prims ` set (Outputs (demo_tx 4))"
  by code_simp+

lemma demo_wire:
  shows "wire_ok demo_prims (demo_tx 3)" and "wire_ok demo_prims (demo_tx 4)"
proof -
  have "length (EncodeTransfer (demo_tx 3)) = 104" "length (EncodeTransfer (demo_tx 4)) = 104"
    "ComputeValueID demo_prims (demo_value 3) = replicate 32 3"
    "ComputeValueID demo_prims (demo_value 4) = replicate 32 4" by code_simp+
  moreover have "Unit (demo_value n) = []" "Owner (demo_value n) = demo_key" "length demo_key = 32" for n
    by (simp_all add: demo_value_def demo_key_def)
  ultimately show "wire_ok demo_prims (demo_tx 3)" and "wire_ok demo_prims (demo_tx 4)"
    by (simp_all add: wire_ok_def content_ok_def value_ok_def) (simp_all add: demo_tx_def demo_input_def value_ok_def)
qed

text \<open>A node that knows the value accepts both transfers.\<close>

lemma demo_valid:
  assumes "map_of (valueStore n) demo_input = Some v" and "Owner v = demo_key" and "clock n = 100"
  shows "validateTransfer demo_prims n (demo_tx 3) = Inr ()"
    and "validateTransfer demo_prims n (demo_tx 4) = Inr ()"
proof -
  have k: "demo_key \<noteq> []" "length demo_key = 32" by (simp_all add: demo_key_def)
  show "validateTransfer demo_prims n (demo_tx 3) = Inr ()"
    and "validateTransfer demo_prims n (demo_tx 4) = Inr ()"
    using assms k by (simp_all add: validateTransfer_iff demo_tx_def demo_value_def resolveSigner_def
        VerifyCanonicalTransfer_def VerifyTransfer_def) (simp_all add: demo_prims_def)
qed

section \<open>Networks\<close>

definition demo_start :: world where
  "demo_start = \<lparr>nodes = (\<lambda>_. NewNode ''b'' 100)(0 := NewNode ''a'' 100), rng = 0\<rparr>"

lemma demo_initial: "initial demo_start"
  unfolding initial_def by (metis demo_start_def fun_upd_apply world.select_convs(1))

text \<open>Two connected peers, and a node without peers, all knowing the value.\<close>

definition demo_setup :: "(nat \<times> event) list" where
  "demo_setup = [(0, Connect 0 1), (0, Connect 1 0), (0, Seed 0 (demo_value 5)), (0, Seed 1 (demo_value 5))]"

definition demo_seeded :: "peer_id \<Rightarrow> peer_id \<Rightarrow> nat \<Rightarrow> node" where
  "demo_seeded i p b = (NewNode i 100)\<lparr>peers := [(p, Some b)],
     valueStore := [(demo_input, (demo_value 5)\<lparr>vID := demo_input\<rparr>)]\<rparr>"

definition demo_pair :: world where
  "demo_pair = put (put demo_start 0 (demo_seeded ''a'' ''b'' 1)) 1 (demo_seeded ''b'' ''a'' 0)"

lemma demo_pair_run: "run demo_env demo_setup demo_start = Some demo_pair"
proof -
  have "SeedValue demo_prims n (demo_value 5) = n\<lparr>valueStore := mput demo_input
      ((demo_value 5)\<lparr>vID := demo_input\<rparr>) (valueStore n)\<rparr>" for n
    by (simp add: SeedValue_def demo_value_id)
  then show ?thesis
    by (simp add: demo_setup_def demo_pair_def demo_seeded_def demo_start_def AddPeer_def NewNode_def
        put_def fun_eq_iff)
qed

definition demo_alone :: world where
  "demo_alone = put demo_start 0 (SeedValue demo_prims (NewNode ''a'' 100) (demo_value 5))"

lemma demo_alone_run: "run demo_env [(0, Seed 0 (demo_value 5))] demo_start = Some demo_alone"
  by (simp add: demo_alone_def demo_start_def)

lemma demo_reachable: shows "reachable demo_env demo_pair" and "reachable demo_env demo_alone"
  using demo_initial demo_pair_run demo_alone_run unfolding reachable_def by blast+

lemma demo_nodes:
  shows "nodes demo_pair 0 = demo_seeded ''a'' ''b'' 1" and "nodes demo_pair 1 = demo_seeded ''b'' ''a'' 0"
    and "rng demo_pair = 0" and "nodes demo_pair (Suc 0) = demo_seeded ''b'' ''a'' 0"
  by (simp_all add: demo_pair_def demo_start_def)

lemma demo_net_ok: "net_ok demo_env {0, 1} demo_pair"
proof -
  have "txs (nodes demo_pair a) t = None" for a t
    by (simp add: txs_def demo_pair_def demo_start_def demo_seeded_def NewNode_def)
  then show ?thesis
    using reachable_world_inv[OF demo_reachable(1)] demo_nodes
    by (auto simp: net_ok_def closed_net_def stored_wire_def demo_seeded_def split: if_splits)
qed

lemma demo_pair_valid:
  assumes "a \<in> {0, 1}"
  shows "validateTransfer demo_prims (nodes demo_pair a) (demo_tx 3) = Inr ()"
  using assms demo_nodes
  by (auto intro!: demo_valid(1)[where v = "(demo_value 5)\<lparr>vID := demo_input\<rparr>"]
      simp: demo_seeded_def NewNode_def demo_value_def)

lemma demo_spendable: "ConsumeInputs (inputTracker (nodes demo_pair 0)) (Inputs (demo_tx 3))
    = Inr \<lparr>consumed = [(demo_input, ())]\<rparr>"
  by (simp add: demo_nodes demo_seeded_def NewNode_def demo_tx_def ConsumeInputs_def IsConsumed_def
      NewInputTracker_def)

text \<open>Three nodes in a line: \<open>a\<close> and \<open>c\<close> do not know each other.\<close>

definition demo_line_start :: world where
  "demo_line_start = \<lparr>nodes = (\<lambda>_. NewNode ''c'' 100)(0 := NewNode ''a'' 100, 1 := NewNode ''b'' 100), rng = 0\<rparr>"

definition demo_line_setup :: "(nat \<times> event) list" where
  "demo_line_setup = [(0, Connect 0 1), (0, Connect 1 0), (0, Connect 1 2), (0, Connect 2 1),
     (0, Seed 0 (demo_value 5)), (0, Seed 1 (demo_value 5)), (0, Seed 2 (demo_value 5))]"

definition demo_line :: world where
  "demo_line = put (put (put demo_line_start 0 (demo_seeded ''a'' ''b'' 1))
     1 ((demo_seeded ''b'' ''a'' 0)\<lparr>peers := [(''a'', Some 0), (''c'', Some 2)]\<rparr>)) 2 (demo_seeded ''c'' ''b'' 1)"

lemma demo_line_reachable: "reachable demo_env demo_line"
proof -
  have "initial demo_line_start"
    unfolding initial_def by (metis demo_line_start_def fun_upd_apply world.select_convs(1))
  moreover have "SeedValue demo_prims n (demo_value 5) = n\<lparr>valueStore := mput demo_input
      ((demo_value 5)\<lparr>vID := demo_input\<rparr>) (valueStore n)\<rparr>" for n
    by (simp add: SeedValue_def demo_value_id)
  then have "run demo_env demo_line_setup demo_line_start = Some demo_line"
    by (simp add: demo_line_setup_def demo_line_def demo_seeded_def demo_line_start_def AddPeer_def NewNode_def
        put_def fun_eq_iff)
  ultimately show ?thesis unfolding reachable_def by blast
qed

lemma demo_line_nodes:
  shows "nodes demo_line 0 = demo_seeded ''a'' ''b'' 1"
    and "nodes demo_line 1 = (demo_seeded ''b'' ''a'' 0)\<lparr>peers := [(''a'', Some 0), (''c'', Some 2)]\<rparr>"
    and "nodes demo_line 2 = demo_seeded ''c'' ''b'' 1" and "rng demo_line = 0"
  by (simp_all add: demo_line_def demo_line_start_def)

lemma demo_line_ok:
  shows "net_ok demo_env {0, 1, 2} demo_line" and "txs (nodes demo_line a) t = None"
    and "replayCache (nodes demo_line a) = newReplayCacheWithClock 60 100"
    and "a \<in> {0, 1, 2} \<Longrightarrow> validateTransfer demo_prims (nodes demo_line a) (demo_tx 3) = Inr ()"
proof -
  show t: "txs (nodes demo_line a) t = None" for a t
    by (simp add: txs_def demo_line_def demo_line_start_def demo_seeded_def NewNode_def)
  show "replayCache (nodes demo_line a) = newReplayCacheWithClock 60 100"
    by (simp add: demo_line_def demo_line_start_def demo_seeded_def NewNode_def)
  show "net_ok demo_env {0, 1, 2} demo_line"
    using reachable_world_inv[OF demo_line_reachable] demo_line_nodes t
    by (auto simp: net_ok_def closed_net_def stored_wire_def demo_seeded_def split: if_splits)
  show "a \<in> {0, 1, 2} \<Longrightarrow> validateTransfer demo_prims (nodes demo_line a) (demo_tx 3) = Inr ()"
    using demo_line_nodes
    by (auto intro!: demo_valid(1)[where v = "(demo_value 5)\<lparr>vID := demo_input\<rparr>"]
        simp: demo_seeded_def NewNode_def demo_value_def)
qed

section \<open>Two conflicting transfers\<close>

definition demo_msg :: message where
  "demo_msg = NewTXMessage (replicate 16 8) 100 30 (demo_tx 4)"

lemma demo_tx_of: "tx_of demo_prims demo_msg = Inr (demo_tx 4)"
  using tx_of_new[OF demo_wire(2)] demo_ids(2) by (simp add: demo_msg_def demo_tx_def)

text \<open>
  The node without peers stores the transfer of 3 submitted to it, and then the transfer of 4 that
  spends the same value and comes from a peer.
\<close>

lemma demo_conflict:
  "\<exists>w1 w2. AcceptLocalTransfer demo_env 1 demo_alone 0 (demo_tx 3) = Some (w1, Inr ())
     \<and> OnMessage demo_env 1 w1 0 ''c'' demo_msg = Some (w2, Inr ())
     \<and> txs (nodes w1 0) (replicate 32 3) = Some (demo_tx 3)
     \<and> replayCache (nodes w1 0) = newReplayCacheWithClock 60 100
     \<and> clock (nodes w1 0) = 100
     \<and> proofStore (nodes w1 0) = []
     \<and> txs (nodes w1 0) (replicate 32 4) = None
     \<and> (\<forall>a. sender (nodes w1 a) = None)
     \<and> txs (nodes w2 0) (replicate 32 3) = Some (demo_tx 3)
     \<and> txs (nodes w2 0) (replicate 32 4) = Some (demo_tx 4)
     \<and> reachable demo_env w1
     \<and> reachable demo_env w2"
proof -
  let ?n = "nodes demo_alone 0"
  have inv: "world_inv demo_env demo_alone" by (rule reachable_world_inv[OF demo_reachable(2)])
  have n: "?n = (NewNode ''a'' 100)\<lparr>valueStore := [(demo_input, (demo_value 5)\<lparr>vID := demo_input\<rparr>)]\<rparr>"
    by (simp add: demo_alone_def SeedValue_def demo_value_id NewNode_def)
  have v3: "validateTransfer demo_prims ?n (demo_tx 3) = Inr ()"
    by (rule demo_valid(1)[where v = "(demo_value 5)\<lparr>vID := demo_input\<rparr>"])
      (simp_all add: n NewNode_def demo_value_def)
  have c3: "ConsumeInputs (inputTracker ?n) (Inputs (demo_tx 3)) = Inr \<lparr>consumed = [(demo_input, ())]\<rparr>"
    by (simp add: n NewNode_def demo_tx_def ConsumeInputs_def IsConsumed_def NewInputTracker_def)
  have none: "txs ?n t = None" for t by (simp add: n txs_def NewNode_def)
  have v3': "validateTransfer (crypt demo_env) ?n (normalizeTransfer (crypt demo_env) (demo_tx 3)) = Inr ()"
    using v3 by (simp add: demo_normal)
  obtain m where a: "node_inv (crypt demo_env) m"
    and l: "same_links (?n\<lparr>inputTracker := \<lparr>consumed = [(demo_input, ())]\<rparr>\<rparr>) m"
    and t: "txs m = (if txs ?n (ComputeTransferID (crypt demo_env) (demo_tx 3)) = None
       then (txs ?n)(ComputeTransferID (crypt demo_env) (demo_tx 3) \<mapsto> normalizeTransfer (crypt demo_env) (demo_tx 3))
       else txs ?n)"
    and r: "AcceptLocalTransfer demo_env 1 demo_alone 0 (demo_tx 3) = broadcastINV demo_env
       (send (OnMessage demo_env 1)) (put demo_alone 0 m) 0 30
       (ComputeTransferID (crypt demo_env) (demo_tx 3)) (peerIDsExcept m [])"
    and vs: "\<And>h. h \<notin> ComputeValueID (crypt demo_env) ` set (Outputs (demo_tx 3)) \<Longrightarrow>
       map_of (valueStore m) h = map_of (valueStore ?n) h"
    by (rule AcceptLocal_accepted[OF inv v3' c3, where k = 1]) (rule that)
  have m: "same_links (?n\<lparr>inputTracker := \<lparr>consumed = [(demo_input, ())]\<rparr>\<rparr>) m"
    "txs m = (txs ?n)(replicate 32 3 \<mapsto> demo_tx 3)"
    "map_of (valueStore m) demo_input = map_of (valueStore ?n) demo_input"
    using l t vs[of demo_input] none demo_output_ids(1) by (simp_all add: demo_ids demo_normal)
  have f: "peers m = []" "clock m = 100" "replayCache m = newReplayCacheWithClock 60 100" "proofStore m = []"
    using m(1) by (simp_all add: same_links_def n NewNode_def)
  have s: "sender m = None" "sender (nodes demo_alone b) = None" for b
    using m(1) by (simp_all add: same_links_def demo_alone_def demo_start_def SeedValue_def NewNode_def Let_def)
  let ?w1 = "put demo_alone 0 m"
  have r1: "AcceptLocalTransfer demo_env 1 demo_alone 0 (demo_tx 3) = Some (?w1, Inr ())"
    using r f(1) by (simp add: peerIDsExcept_def)
  then have "run demo_env [(1, Submit 0 (demo_tx 3))] demo_alone = Some ?w1" by simp
  then have reach1: "reachable demo_env ?w1" by (rule reachable_run[OF demo_reachable(2)])
  have v4: "validateTransfer demo_prims (nodes ?w1 0) (demo_tx 4) = Inr ()"
    by (rule demo_valid(2)[where v = "(demo_value 5)\<lparr>vID := demo_input\<rparr>"])
      (use m(3) f(2) in \<open>simp_all add: n demo_value_def\<close>)
  have v4': "validateTransfer (crypt demo_env) (nodes ?w1 0) (normalizeTransfer (crypt demo_env) (demo_tx 4)) = Inr ()"
    using v4 by (simp add: demo_normal)
  have id4: "\<not> IsSeen (replayCache (nodes ?w1 0)) (MessageID demo_msg)"
    by (simp add: f IsSeen_def newReplayCacheWithClock_def)
  have tx4: "mType demo_msg = TX" "tx_of (crypt demo_env) demo_msg = Inr (demo_tx 4)"
    using demo_tx_of by (simp_all add: demo_msg_def new_message_defs)
  obtain k where k: "peers k = peers m" "txs k = (txs m)(replicate 32 4 \<mapsto> demo_tx 4)"
    "OnMessage demo_env 1 ?w1 0 ''c'' demo_msg = broadcastINV demo_env (send (OnMessage demo_env 0))
       (put ?w1 0 k) 0 (TTL demo_msg) (replicate 32 4) (peerIDsExcept k ''c'')"
    using TX_accepted[OF reachable_world_inv[OF reach1] id4 tx4 v4', of 0 "''c''"] m(2) none
    by (auto simp: demo_normal demo_ids)
  let ?w2 = "put ?w1 0 k"
  have r2: "OnMessage demo_env 1 ?w1 0 ''c'' demo_msg = Some (?w2, Inr ())"
    using k(1,3) f(1) by (simp add: peerIDsExcept_def)
  then have "run demo_env [(1, Receive 0 ''c'' demo_msg)] ?w1 = Some ?w2" by simp
  then have reach2: "reachable demo_env ?w2" by (rule reachable_run[OF reach1])
  show ?thesis
    by (intro exI[of _ ?w1] exI[of _ ?w2] conjI r1 r2 reach1 reach2)
      (use none s in \<open>simp_all add: m(2) k(2) f\<close>)
qed

end
