(* ===== verification/Node_Types.thy ===== *)
theory Node_Types
  imports Node_Inspect
begin

text \<open>
  What kinds of things a node's stores hold. In Go a \<open>Hash\<close> is an array of 32 bytes and a
  \<open>TransferStatus\<close> one of three constants by convention; in the model both are lists, and
  \<open>node_typed\<close> says that only such lists ever get into a store, wherever the code may put one.
\<close>

section \<open>The types of the stores\<close>

definition hash_typed :: "hash \<Rightarrow> bool" where
  "hash_typed h \<longleftrightarrow> length h = 32"

definition value_typed :: "web4_value \<Rightarrow> bool" where
  "value_typed v \<longleftrightarrow> hash_typed (vID v)"

definition transfer_typed :: "transfer \<Rightarrow> bool" where
  "transfer_typed x \<longleftrightarrow> hash_typed (tID x) \<and> list_all hash_typed (Inputs x) \<and> list_all value_typed (Outputs x)"

definition node_typed :: "node \<Rightarrow> bool" where
  "node_typed n \<longleftrightarrow>
     list_all (\<lambda>(t, r). hash_typed t \<and> transfer_typed (Tx r) \<and> SeenCount r = length (Peers r)) (txStore n)
   \<and> list_all (\<lambda>(h, v). hash_typed h \<and> value_typed v) (valueStore n)
   \<and> list_all (\<lambda>(i, ts). hash_typed i \<and> ts \<noteq> [] \<and> list_all hash_typed ts) (conflictSets n)
   \<and> list_all (\<lambda>(i, l). hash_typed i \<and> hash_typed (slTxID l)) (selectedLineage n)
   \<and> list_all (\<lambda>(t, s). hash_typed t \<and> Status s \<in> {StatusPending, StatusSelected, StatusFinal}) (finalityState n)
   \<and> list_all (\<lambda>(t, ps). hash_typed t) (peerObservations n)
   \<and> list_all (\<lambda>(t, ps). hash_typed t) (proofStore n)
   \<and> (\<forall>h \<in> consumed_set (inputTracker n). hash_typed h)"

section \<open>Values are only added\<close>

lemma validate_known:
  assumes "validateTransfer P n x = Inr ()" and "i \<in> set (Inputs x)"
  shows "map_of (valueStore n) i \<noteq> None"
proof -
  obtain owner where "resolveSigner_loop n [] (Inputs x) = Inr owner" "length owner = 32"
    using assms(1) by (auto simp: validateTransfer_iff resolveSigner_def)
  then show ?thesis using resolveSigner_loop_all[of n "[]" "Inputs x" owner] assms(2) by fastforce
qed

lemma output_of_id:
  assumes "h \<in> ComputeValueID P ` set (Outputs x)"
  obtains u where "u \<in> set (Outputs (normalizeTransfer P x))" and "h = vID u"
proof -
  from assms obtain y where "y \<in> set (Outputs x)" "h = ComputeValueID P y" by blast
  then show thesis by (intro that[of "y\<lparr>vID := ComputeValueID P y\<rparr>"]) auto
qed

lemma accept_keeps_values:
  assumes inv: "node_inv (crypt E) n" and v: "validateTransfer (crypt E) n (normalizeTransfer (crypt E) x) = Inr ()"
    and m: "upsert_and_recompute E n (normalizeTransfer (crypt E) x) (EncodeTransfer x) f = (m, r)"
    and h: "map_of (valueStore n) h \<noteq> None"
  shows "map_of (valueStore m) h \<noteq> None"
proof (cases "txs n (ComputeTransferID (crypt E) x) = None \<and> h \<in> ComputeValueID (crypt E) ` set (Outputs x)")
  case True
  then obtain u where u: "u \<in> set (Outputs (normalizeTransfer (crypt E) x))" "h = vID u" using output_of_id by blast
  obtain k where k: "upsert_and_recompute E n (normalizeTransfer (crypt E) x) (EncodeTransfer x) f
      = (k, Inr (ComputeTransferID (crypt E) x, txs n (ComputeTransferID (crypt E) x) = None))"
    "node_inv (crypt E) k" "txs k = (if txs n (ComputeTransferID (crypt E) x) = None
       then (txs n)(ComputeTransferID (crypt E) x \<mapsto> normalizeTransfer (crypt E) x) else txs n)"
    by (rule accept_effect[OF inv v])
  then have "txs m (ComputeTransferID (crypt E) x) = Some (normalizeTransfer (crypt E) x)" "val_inv (crypt E) m"
    using True m core_invD(3)[OF node_invD(1)[OF k(2)]] by simp_all
  then show ?thesis using u unfolding val_inv_def by blast
next
  case False
  then show ?thesis using accept_values[OF m, of h] h by auto
qed

section \<open>Inputs are known values\<close>

text \<open>What the invariant of a node leaves open: inputs, spent or not, are values of the store.\<close>

definition links_known :: "node \<Rightarrow> bool" where
  "links_known n \<longleftrightarrow> (\<forall>t x i. txs n t = Some x \<longrightarrow> i \<in> set (Inputs x) \<longrightarrow> map_of (valueStore n) i \<noteq> None)
     \<and> (\<forall>h \<in> consumed_set (inputTracker n). map_of (valueStore n) h \<noteq> None)
     \<and> (\<forall>t. map_of (proofStore n) t \<noteq> None \<longrightarrow> hash_typed t)
     \<and> (\<forall>i. map_of (conflictSets n) i \<noteq> Some [])"

lemma links_known_cong:
  assumes "links_known n" and "txs m = txs n" and "inputTracker m = inputTracker n"
    and "valueStore m = valueStore n" and "proofStore m = proofStore n" and "conflictSets m = conflictSets n"
  shows "links_known m"
  using assms by (simp add: links_known_def)

lemma conflicts_nonempty:
  "(\<And>i. map_of (conflictSets n) i \<noteq> Some []) \<Longrightarrow> map_of (conflictSets (addConflictMembership n t is)) i \<noteq> Some []"
  by (induction "is" arbitrary: n) (simp_all add: Let_def gm.get_put)

lemma accept_conflicts:
  assumes m: "upsert_and_recompute E n (normalizeTransfer (crypt E) x) c f = (m, r)"
    and "\<And>i. map_of (conflictSets n) i \<noteq> Some []"
  shows "map_of (conflictSets m) i \<noteq> Some []"
proof -
  obtain k t ins where u: "upsertTransfer (crypt E) n (normalizeTransfer (crypt E) x) c f = (k, t, ins)"
    and d: "derived_only k m"
    by (rule accept_derived[OF m])
  have "map_of (conflictSets k) i \<noteq> Some []"
    using u assms(2) conflicts_nonempty
    by (auto simp: upsertTransfer_cases inserted_node_def Let_def frame_simps split: if_splits)
  then show ?thesis by (simp add: derived_onlyD(3)[OF d])
qed

lemma accept_links:
  assumes inv: "node_inv (crypt E) n" and k: "links_known n"
    and v: "validateTransfer (crypt E) n (normalizeTransfer (crypt E) x) = Inr ()"
  shows "links_known (fst (upsert_and_recompute E n (normalizeTransfer (crypt E) x) (EncodeTransfer x) f))"
proof -
  let ?P = "crypt E" and ?t = "ComputeTransferID (crypt E) x" and ?x = "normalizeTransfer (crypt E) x"
  obtain m where m: "upsert_and_recompute E n ?x (EncodeTransfer x) f = (m, Inr (?t, txs n ?t = None))"
    "same_links n m" "txs m = (if txs n ?t = None then (txs n)(?t \<mapsto> ?x) else txs n)"
    by (rule accept_effect[OF inv v, of f])
  note keep = accept_keeps_values[OF inv v m(1)]
  have "map_of (valueStore m) i \<noteq> None" if "txs m t = Some y" "i \<in> set (Inputs y)" for t y i
  proof (rule keep)
    show "map_of (valueStore n) i \<noteq> None"
      using that m(3) k validate_known[OF v, of i] unfolding links_known_def by (auto split: if_splits)
  qed
  moreover have "inputTracker m = inputTracker n" "proofStore m = proofStore n"
    using m(2) by (simp_all add: same_links_def)
  moreover have "map_of (conflictSets m) i \<noteq> Some []" for i
    using accept_conflicts[OF m(1)] k unfolding links_known_def by blast
  ultimately have "links_known m" using k keep unfolding links_known_def by metis
  then show ?thesis using m(1) by simp
qed

lemma nstep_links:
  assumes "nstep E n m" and inv: "node_inv (crypt E) n" and k: "links_known n"
  shows "links_known m"
  using assms(1)
proof cases
  case (ns_store x f)
  then show ?thesis using accept_links[OF inv k] by simp
next
  case (ns_proof t p)
  note d = derived_onlyD[OF proof_derived[of n t p E]]
  have "txs (updateProof n t p) = txs n" by (simp add: fun_eq_iff txs_def updateProof_def)
  then show ?thesis using k ns_proof unfolding links_known_def ns_proof(1) d
    by (auto simp: updateProof_def gm.get_put hash_typed_def)
qed (auto intro!: links_known_cong[OF k] simp: txs_def)

lemma lstep_links:
  assumes "lstep E n m" and inv: "node_inv (crypt E) n" and k: "links_known n"
  shows "links_known m"
  using assms(1)
proof cases
  case (ls_local x tk)
  let ?n = "n\<lparr>inputTracker := tk\<rparr>"
  have "node_inv (crypt E) ?n" by (rule node_inv_cong[OF inv]) (use node_invD(4)[OF inv] in simp_all)
  moreover have "links_known ?n"
    using k validate_known[OF ls_local(2)] ConsumeInputs_set[OF ls_local(3)]
    unfolding links_known_def by (auto simp: txs_def)
  moreover have "validateTransfer (crypt E) ?n (normalizeTransfer (crypt E) x) = Inr ()"
    using ls_local(2) validateTransfer_cong[of ?n n] by simp
  ultimately show ?thesis using accept_links ls_local(1) by blast
qed

lemma set_up_links:
  assumes "set_up P n m" and k: "links_known n"
  shows "links_known m"
  using assms(1)
proof cases
  case (su_seed v)
  then show ?thesis using k by (auto simp: links_known_def SeedValue_def Let_def txs_def gm.get_put)
qed (auto intro!: links_known_cong[OF k] simp: txs_def AddPeer_def AddPeerID_def SetSender_def SetNowFunc_def)

interpretation known: kept_by_runs E links_known for E
proof unfold_locales
  show "links_known (NewNode i t)" for i t
    by (simp add: links_known_def NewNode_def txs_def NewInputTracker_def consumed_set_def IsConsumed_def)
qed (auto intro: nstep_links lstep_links set_up_links)

section \<open>Every store is typed\<close>

lemma links_typed:
  assumes sha: "\<And>b. length (Sum256 P b) = 32" and inv: "node_inv P n" and maps: "maps_wf n" and k: "links_known n"
  shows "node_typed n"
proof -
  note core = core_invD[OF node_invD(1)[OF inv]]
  have val: "hash_typed h" if h: "map_of (valueStore n) h \<noteq> None" for h
  proof -
    obtain v where "map_of (valueStore n) h = Some v" using h by blast
    then have "h = ComputeValueID P v" using core(3) by (simp add: val_inv_def)
    then show ?thesis using sha by (simp add: hash_typed_def ComputeValueID_def)
  qed
  have tx: "hash_typed t \<and> transfer_typed x" if x: "txs n t = Some x" for t x
  proof -
    have "transfer_wf P t x" by (rule rec_invD(1)[OF core(1) x])
    then show ?thesis using k x val sha
      by (auto simp: transfer_wf_def transfer_typed_def value_typed_def hash_typed_def links_known_def list_all_iff
          ComputeTransferID_def ComputeValueID_def)
  qed
  have known: "hash_typed t" if "txs n t \<noteq> None" for t using that tx by blast
  have spent: "hash_typed i \<and> hash_typed t" if t: "t \<in> set (cset n i)" for i t
  proof -
    from t obtain x where x: "txs n t = Some x" "i \<in> set (Inputs x)" using conf_invD(1)[OF core(2)] by blast
    then have "hash_typed i" using k val unfolding links_known_def by blast
    then show ?thesis using known x(1) by blast
  qed
  have at: "(h, y) \<in> set kv \<Longrightarrow> mwf kv \<Longrightarrow> map_of kv h = Some y" for h y and kv :: "('a \<times> 'b) list" by simp
  note wf = maps[unfolded maps_wf_def]
  show ?thesis
    unfolding node_typed_def list_all_iff
  proof (intro conjI ballI)
    fix e assume e: "e \<in> set (txStore n)"
    obtain t r where r: "e = (t, r)" by fastforce
    then have "map_of (txStore n) t = Some r" using e wf by simp
    then show "case e of (t, r) \<Rightarrow> hash_typed t \<and> transfer_typed (Tx r) \<and> SeenCount r = length (Peers r)"
      using tx[of t "Tx r"] rec_invD(2)[OF core(1)] r by (auto simp: txs_def record_wf_def)
  next
    fix e assume e: "e \<in> set (valueStore n)"
    obtain h v where r: "e = (h, v)" by fastforce
    then have "map_of (valueStore n) h = Some v" using e wf by simp
    then show "case e of (h, v) \<Rightarrow> hash_typed h \<and> value_typed v"
      using val[of h] core(3) r by (auto simp: val_inv_def value_typed_def)
  next
    fix e assume e: "e \<in> set (conflictSets n)"
    obtain i ts where r: "e = (i, ts)" by fastforce
    then have m: "map_of (conflictSets n) i = Some ts" using e wf by simp
    then have "ts \<noteq> []" "cset n i = ts" using k by (auto simp: links_known_def mget0_def)
    then show "case e of (i, ts) \<Rightarrow> hash_typed i \<and> ts \<noteq> [] \<and> Ball (set ts) hash_typed"
      using spent[of _ i] r by (cases ts) auto
  next
    fix e assume e: "e \<in> set (selectedLineage n)"
    obtain i l where r: "e = (i, l)" by fastforce
    then have "selected_on n i = Some (slTxID l)" using e wf by (simp add: selected_on_def)
    then show "case e of (i, l) \<Rightarrow> hash_typed i \<and> hash_typed (slTxID l)"
      using spent node_invD(2)[OF inv] r by (auto simp: sel_inv_def)
  next
    fix e assume e: "e \<in> set (finalityState n)"
    obtain t s where r: "e = (t, s)" by fastforce
    then have m: "map_of (finalityState n) t = Some s" using e wf by simp
    note fin = node_invD(3)[OF inv]
    obtain x where x: "txs n t = Some x" using fin m unfolding fin_inv_def by blast
    then have "status_agrees n t x" using fin unfolding fin_inv_def by blast
    then show "case e of (t, s) \<Rightarrow> hash_typed t \<and> Status s \<in> {StatusPending, StatusSelected, StatusFinal}"
      using m r known[of t] x by (auto simp: status_agrees_def)
  next
    fix e assume e: "e \<in> set (peerObservations n)"
    obtain t s where r: "e = (t, s)" by fastforce
    then have "map_of (peerObservations n) t \<noteq> None" using e by (auto simp: map_of_eq_None_iff intro: rev_image_eqI)
    then show "case e of (t, ps) \<Rightarrow> hash_typed t" using rec_invD(3)[OF core(1)] known r by auto
  next
    fix e assume e: "e \<in> set (proofStore n)"
    obtain t s where r: "e = (t, s)" by fastforce
    then have "map_of (proofStore n) t \<noteq> None" using e by (auto simp: map_of_eq_None_iff intro: rev_image_eqI)
    then show "case e of (t, ps) \<Rightarrow> hash_typed t" using k r by (auto simp: links_known_def)
  next
    fix h assume "h \<in> consumed_set (inputTracker n)"
    then show "hash_typed h" using k val by (auto simp: links_known_def)
  qed
qed

lemma reachable_typed:
  assumes "\<And>b. length (Sum256 (crypt E) b) = 32" and "reachable E w"
  shows "node_typed (nodes w a)"
  by (rule links_typed[OF assms(1) reachable_node_inv[OF assms(2)] reachable_maps[OF assms(2)]
        known.reachable_keeps[OF assms(2)]])

end
