(* ===== verification/Node_Exchange.thy ===== *)
theory Node_Exchange
  imports Node_Gossip
begin

text \<open>
  The exchange of INV, GET and TX in full: what it leaves at both nodes, and what a broadcast to peers
  that know only the sender leaves in the network.
\<close>

section \<open>More fuel gives the same result\<close>

lemma AcceptLocal_more_fuel:
  assumes "AcceptLocalTransfer E k w a x = Some z" and "k \<le> l"
  shows "AcceptLocalTransfer E l w a x = Some z"
proof -
  have "refines_delivery (OnMessage E k) (OnMessage E l)"
    using OnMessage_fuel[OF assms(2)] unfolding refines_delivery_def by blast
  from broadcast_refines[OF send_refines[OF this]] show ?thesis
    using assms(1) by (auto simp: AcceptLocalTransfer_def Let_def split: sum.splits prod.splits)
qed

section \<open>Identifiers that have not been used\<close>

definition unseen :: "env \<Rightarrow> nat \<Rightarrow> nat \<Rightarrow> node \<Rightarrow> bool" where
  "unseen E r s n \<longleftrightarrow> (\<forall>i. r \<le> i \<longrightarrow> i < s \<longrightarrow> \<not> IsSeen (replayCache n) (randID E i))"

lemma unseen_later: "unseen E r s n \<Longrightarrow> r \<le> q \<Longrightarrow> unseen E q s n"
  by (simp add: unseen_def)

lemma unseen_cong: "unseen E r s n \<Longrightarrow> replayCache m = replayCache n \<Longrightarrow> unseen E r s m"
  by (simp add: unseen_def)

text \<open>A message with an identifier of its own is dispatched, and uses up this identifier only.\<close>

lemma OnMessage_fresh:
  assumes inv: "world_inv E w" and ids: "inj_on (randID E) {..<s}" and un: "unseen E i s (nodes w a)" "i < s"
    and id: "MessageID msg = randID E i"
  obtains c where "world_inv E (put w a ((nodes w a)\<lparr>replayCache := c\<rparr>))"
    and "unseen E (Suc i) s ((nodes w a)\<lparr>replayCache := c\<rparr>)"
    and "\<And>k f. OnMessage E (Suc k) w a f msg
       = dispatch E (send (OnMessage E k)) (put w a ((nodes w a)\<lparr>replayCache := c\<rparr>)) a f msg"
proof -
  let ?c1 = "PruneExpired (replayCache (nodes w a)) (clock (nodes w a))"
  let ?c2 = "MarkSeen ?c1 (MessageID msg)"
  have wf: "cache_wf (replayCache (nodes w a))" using inv node_invD(4) unfolding world_inv_def by blast
  have 1: "\<not> IsSeen ?c1 (MessageID msg)" using un id IsSeen_pruned[OF wf] by (auto simp: unseen_def)
  show thesis
  proof (rule that[of ?c2])
    show "world_inv E (put w a ((nodes w a)\<lparr>replayCache := ?c2\<rparr>))" using wf by (intro world_inv_fields(2)[OF inv]) simp
    show "unseen E (Suc i) s ((nodes w a)\<lparr>replayCache := ?c2\<rparr>)"
      unfolding unseen_def
    proof (intro allI impI)
      fix j assume j: "Suc i \<le> j" "j < s"
      then have "randID E j \<noteq> randID E i" using ids un(2) unfolding inj_on_def by (metis Suc_n_not_le_n lessThan_iff)
      moreover have "\<not> IsSeen ?c1 (randID E j)"
        using un(1) j IsSeen_pruned[OF wf] unfolding unseen_def by (meson Suc_leD)
      ultimately show "\<not> IsSeen (replayCache ((nodes w a)\<lparr>replayCache := ?c2\<rparr>)) (randID E j)"
        by (simp add: IsSeen_MarkSeen id)
    qed
    show "OnMessage E (Suc k) w a f msg
       = dispatch E (send (OnMessage E k)) (put w a ((nodes w a)\<lparr>replayCache := ?c2\<rparr>)) a f msg" for k f
      using 1 by (simp add: Let_def)
  qed
qed

section \<open>The exchange with a leaf\<close>

text \<open>The fields of a node that an exchange leaves alone.\<close>

definition same_ends :: "node \<Rightarrow> node \<Rightarrow> bool" where
  "same_ends n m \<longleftrightarrow> nodeID m = nodeID n \<and> sender m = sender n \<and> peers m = peers n \<and> clock m = clock n"

lemma TX_leaf:
  assumes inv: "world_inv E w" and ids: "inj_on (randID E) {..<s}" and un: "unseen E i s (nodes w b)" "i < s"
    and leaf: "map fst (peers (nodes w b)) = [f]" and x: "wire_ok (crypt E) x"
    and v: "validateTransfer (crypt E) (nodes w b) (normalizeTransfer (crypt E) x) = Inr ()"
    and new: "txs (nodes w b) (ComputeTransferID (crypt E) x) = None"
  obtains m where "world_inv E (put w b m)" and "same_ends (nodes w b) m" and "sent m = sent (nodes w b)"
    and "unseen E (Suc i) s m"
    and "txs m = (txs (nodes w b))(ComputeTransferID (crypt E) x \<mapsto> (normalizeTransfer (crypt E) x)\<lparr>Timestamp := 0\<rparr>)"
    and "\<And>k. OnMessage E (Suc k) w b f (NewTXMessage (randID E i) ts ttl x) = Some (put w b m, Inr ())"
proof -
  let ?t = "ComputeTransferID (crypt E) x" and ?msg = "NewTXMessage (randID E i) ts ttl x"
  let ?x = "x\<lparr>tID := ComputeTransferID (crypt E) x, Timestamp := 0\<rparr>"
  obtain c where c: "world_inv E (put w b ((nodes w b)\<lparr>replayCache := c\<rparr>))"
      "unseen E (Suc i) s ((nodes w b)\<lparr>replayCache := c\<rparr>)"
    and o: "\<And>k f. OnMessage E (Suc k) w b f ?msg
       = dispatch E (send (OnMessage E k)) (put w b ((nodes w b)\<lparr>replayCache := c\<rparr>)) b f ?msg"
    by (rule OnMessage_fresh[OF inv ids un, of ?msg]) (auto simp: new_message_defs)
  let ?n = "(nodes w b)\<lparr>replayCache := c\<rparr>"
  have i: "node_inv (crypt E) ?n" using c(1) unfolding world_inv_def by (metis put_simps(1))
  have v': "validateTransfer (crypt E) ?n (normalizeTransfer (crypt E) ?x) = Inr ()"
    using v validateTransfer_cong[of ?n "nodes w b"] by (simp add: normalize_meta)
  have tx: "txs ?n = txs (nodes w b)" by (simp add: txs_def fun_eq_iff)
  obtain m where m: "upsert_and_recompute E ?n (normalizeTransfer (crypt E) ?x) (EncodeTransfer ?x) f
      = (m, Inr (ComputeTransferID (crypt E) ?x, txs ?n (ComputeTransferID (crypt E) ?x) = None))"
    "node_inv (crypt E) m" "same_links ?n m"
    "txs m = (if txs ?n (ComputeTransferID (crypt E) ?x) = None
       then (txs ?n)(ComputeTransferID (crypt E) ?x \<mapsto> normalizeTransfer (crypt E) ?x) else txs ?n)"
    by (rule accept_effect[OF i v'])
  have p: "peerIDsExcept m f = []" using m(3) leaf by (simp add: same_links_def peerIDsExcept_def)
  show thesis
  proof (rule that[of m])
    show "world_inv E (put w b m)" by (rule world_inv_put[OF inv m(2)])
    show "same_ends (nodes w b) m" "sent m = sent (nodes w b)" using m(3) by (simp_all add: same_links_def same_ends_def)
    show "unseen E (Suc i) s m" by (rule unseen_cong[OF c(2)]) (use m(3) in \<open>simp add: same_links_def\<close>)
    show "txs m = (txs (nodes w b))(?t \<mapsto> (normalizeTransfer (crypt E) x)\<lparr>Timestamp := 0\<rparr>)"
      using m(4) new tx by (simp add: normalize_meta)
    show "OnMessage E (Suc k) w b f ?msg = Some (put w b m, Inr ())" for k
    proof -
      have "mType ?msg = TX" by (simp add: new_message_defs)
      then show ?thesis
        using o[of k f] tx_of_new[OF x] v' m(1) new tx p by (simp add: dispatch_def handleTX_eq)
    qed
  qed
qed

text \<open>\<open>b\<close> and \<open>a\<close> are peers by pointers, and \<open>b\<close> knows nobody else.\<close>

definition leaf :: "world \<Rightarrow> nat \<Rightarrow> nat \<Rightarrow> bool" where
  "leaf w a b \<longleftrightarrow> a \<noteq> b \<and> link w a b \<and> link w b a \<and> map fst (peers (nodes w b)) = [nodeID (nodes w a)]"

lemma leaf_cong:
  assumes "leaf w a b" and "same_ends (nodes w a) (nodes v a)" and "same_ends (nodes w b) (nodes v b)"
  shows "leaf v a b"
  using assms by (simp add: leaf_def link_def same_ends_def)

text \<open>\<open>b\<close> would take the transfer \<open>x\<close>, and does not have it.\<close>

definition wants :: "prims \<Rightarrow> node \<Rightarrow> transfer \<Rightarrow> bool" where
  "wants P n x \<longleftrightarrow> validateTransfer P n (normalizeTransfer P x) = Inr () \<and> txs n (ComputeTransferID P x) = None"

lemma wants_cong: "wants P n x \<Longrightarrow> wants P (n\<lparr>replayCache := c, sent := ms\<rparr>) x"
  using validateTransfer_cong[of "n\<lparr>replayCache := c, sent := ms\<rparr>" n P "normalizeTransfer P x"]
    txs_cong[of "n\<lparr>replayCache := c, sent := ms\<rparr>" n] by (simp add: wants_def)

lemma GET_leaf:
  assumes inv: "world_inv E w" and ids: "inj_on (randID E) {..<s}" and ab: "leaf w a b"
    and una: "unseen E i s (nodes w a)" "i < s" and unb: "unseen E (rng w) s (nodes w b)" "rng w < s"
    and x: "txs (nodes w a) (ComputeTransferID (crypt E) x) = Some x" "wire_ok (crypt E) x"
    and t: "length (ComputeTransferID (crypt E) x) = 32" and new: "wants (crypt E) (nodes w b) x"
  obtains c m w' where "w' = put (put (tick w) a ((nodes w a)\<lparr>replayCache := c, sent := sent (nodes w a) @
        [\<lparr>To = nodeID (nodes w b), sMessage = NewTXMessage (randID E (rng w)) (clock (nodes w a)) ttl x\<rparr>]\<rparr>)) b m"
    and "world_inv E w'" and "unseen E (Suc i) s (nodes w' a)" and "unseen E (Suc (rng w)) s m"
    and "same_ends (nodes w b) m" and "sent m = sent (nodes w b)"
    and "txs m = (txs (nodes w b))(ComputeTransferID (crypt E) x \<mapsto> (normalizeTransfer (crypt E) x)\<lparr>Timestamp := 0\<rparr>)"
    and "\<And>k. OnMessage E (Suc (Suc k)) w a (nodeID (nodes w b))
           (NewGETMessage (randID E i) ts ttl (ComputeTransferID (crypt E) x)) = Some (w', Inr ())"
proof -
  let ?t = "ComputeTransferID (crypt E) x" and ?nb = "nodeID (nodes w b)"
  let ?msg = "NewGETMessage (randID E i) ts ttl ?t" and ?m = "NewTXMessage (randID E (rng w)) (clock (nodes w a)) ttl x"
  have ne: "a \<noteq> b" and l: "link w a b" and lf: "map fst (peers (nodes w b)) = [nodeID (nodes w a)]"
    using ab by (simp_all add: leaf_def)
  obtain c where c: "world_inv E (put w a ((nodes w a)\<lparr>replayCache := c\<rparr>))"
      "unseen E (Suc i) s ((nodes w a)\<lparr>replayCache := c\<rparr>)"
    and o: "\<And>k f. OnMessage E (Suc k) w a f ?msg
       = dispatch E (send (OnMessage E k)) (put w a ((nodes w a)\<lparr>replayCache := c\<rparr>)) a f ?msg"
    by (rule OnMessage_fresh[OF inv ids una, of ?msg]) (auto simp: new_message_defs)
  let ?n = "(nodes w a)\<lparr>replayCache := c, sent := sent (nodes w a) @ [\<lparr>To = ?nb, sMessage = ?m\<rparr>]\<rparr>"
  let ?v = "put (tick w) a ?n"
  have "node_inv (crypt E) ((nodes w a)\<lparr>replayCache := c\<rparr>)" using c(1) unfolding world_inv_def by (metis put_simps(1))
  from node_invD(4)[OF this] have cw: "cache_wf c" by simp
  have iv: "world_inv E ?v" by (rule world_inv_fields(3)[OF inv cw])
  have b: "nodes ?v b = nodes w b" using ne by simp
  obtain m where m: "world_inv E (put ?v b m)" "same_ends (nodes w b) m" "sent m = sent (nodes w b)"
    "unseen E (Suc (rng w)) s m"
    "txs m = (txs (nodes w b))(?t \<mapsto> (normalizeTransfer (crypt E) x)\<lparr>Timestamp := 0\<rparr>)"
    "\<And>k. OnMessage E (Suc k) ?v b (nodeID (nodes w a)) ?m = Some (put ?v b m, Inr ())"
    by (rule TX_leaf[OF iv ids, of "rng w" b, unfolded b, OF unb lf x(2)])
      (use new in \<open>auto simp: wants_def\<close>)
  show thesis
  proof (rule that[of "put ?v b m" c m])
    show "unseen E (Suc i) s (nodes (put ?v b m) a)"
      by (rule unseen_cong[OF c(2)]) (use ne in simp)
    show "OnMessage E (Suc (Suc k)) w a ?nb ?msg = Some (put ?v b m, Inr ())" for k
    proof -
      obtain rc where rc: "map_of (txStore (nodes w a)) ?t = Some rc" "Tx rc = x" using x(1) by (auto simp: txs_def)
      let ?u = "tick (put w a ((nodes w a)\<lparr>replayCache := c\<rparr>))"
      have l': "link ?u a b" using l ne by (simp add: link_def)
      have u: "put ?u a ((nodes ?u a)\<lparr>sent := sent (nodes ?u a) @ [\<lparr>To = nodeID (nodes ?u b), sMessage = ?m\<rparr>]\<rparr>) = ?v"
        using ne by (simp add: put_def tick_def)
      have ty: "mType ?msg = GET" "DecodeGETID (Payload ?msg) = Inr ?t" "TTL ?msg = ttl"
        using t by (simp_all add: new_message_defs DecodeGETID_def EncodeGETID_def)
      have "nextID E (put w a k) = randID E (rng w)" for k by (simp add: nextID_def)
      then have "OnMessage E (Suc (Suc k)) w a ?nb ?msg = send (OnMessage E (Suc k)) ?u a (nodeID (nodes ?u b)) ?m"
        using o[of "Suc k" ?nb] rc ty ne by (simp add: dispatch_def handleGET_def)
      also have "\<dots> = OnMessage E (Suc k) ?v b (nodeID (nodes w a)) ?m" unfolding send_link[OF l'] u by simp
      finally show ?thesis using m(6)[of k] by simp
    qed
  qed (use m iv in simp_all)
qed

text \<open>
  What an exchange about \<open>x\<close> between \<open>a\<close> and \<open>b\<close> has done from \<open>w\<close> to \<open>w'\<close>: \<open>a\<close> has sent the messages
  \<open>msgs\<close>, \<open>b\<close> has asked for the transfer and has it, and nobody else has noticed.
\<close>

definition exchanged :: "env \<Rightarrow> world \<Rightarrow> nat \<Rightarrow> nat \<Rightarrow> transfer \<Rightarrow> sent_message list \<Rightarrow> world \<Rightarrow> bool" where
  "exchanged E w a b x msgs w' \<longleftrightarrow>
     (\<forall>q. q \<noteq> a \<longrightarrow> q \<noteq> b \<longrightarrow> nodes w' q = nodes w q)
   \<and> (\<exists>c. nodes w' a = (nodes w a)\<lparr>replayCache := c, sent := sent (nodes w a) @ msgs\<rparr>)
   \<and> same_ends (nodes w b) (nodes w' b)
   \<and> (\<exists>msg. sent (nodes w' b) = sent (nodes w b) @ [\<lparr>To = nodeID (nodes w a), sMessage = msg\<rparr>] \<and> mType msg = GET)
   \<and> txs (nodes w' b) = (txs (nodes w b))(ComputeTransferID (crypt E) x \<mapsto> (normalizeTransfer (crypt E) x)\<lparr>Timestamp := 0\<rparr>)"

lemma INV_leaf:
  assumes inv: "world_inv E w" and ids: "inj_on (randID E) {..<s}" and ab: "leaf w a b"
    and una: "unseen E (rng w) s (nodes w a)" and unb: "unseen E i s (nodes w b)" "i \<le> rng w" and s: "rng w + 1 < s"
    and x: "txs (nodes w a) (ComputeTransferID (crypt E) x) = Some x" "wire_ok (crypt E) x"
    and t: "length (ComputeTransferID (crypt E) x) = 32" and new: "wants (crypt E) (nodes w b) x"
  obtains msg w' where "exchanged E w a b x [\<lparr>To = nodeID (nodes w b), sMessage = msg\<rparr>] w'" and "mType msg = TX"
    and "world_inv E w'" and "rng w' = rng w + 2"
    and "unseen E (rng w') s (nodes w' a)" and "unseen E (rng w') s (nodes w' b)"
    and "\<And>k. OnMessage E (Suc (Suc (Suc k))) w b (nodeID (nodes w a))
           (NewINVMessage (randID E i) ts ttl (ComputeTransferID (crypt E) x)) = Some (w', Inr ())"
proof -
  let ?t = "ComputeTransferID (crypt E) x" and ?na = "nodeID (nodes w a)"
  let ?msg = "NewINVMessage (randID E i) ts ttl ?t" and ?m = "NewGETMessage (randID E (rng w)) (clock (nodes w b)) ttl ?t"
  have ne: "a \<noteq> b" and l: "link w b a" using ab by (simp_all add: leaf_def)
  have i: "i < s" using unb(2) s by simp
  obtain c where c: "world_inv E (put w b ((nodes w b)\<lparr>replayCache := c\<rparr>))"
      "unseen E (Suc i) s ((nodes w b)\<lparr>replayCache := c\<rparr>)"
    and o: "\<And>k f. OnMessage E (Suc k) w b f ?msg
       = dispatch E (send (OnMessage E k)) (put w b ((nodes w b)\<lparr>replayCache := c\<rparr>)) b f ?msg"
    by (rule OnMessage_fresh[OF inv ids unb(1) i, of ?msg]) (auto simp: new_message_defs)
  let ?n = "(nodes w b)\<lparr>replayCache := c, sent := sent (nodes w b) @ [\<lparr>To = ?na, sMessage = ?m\<rparr>]\<rparr>"
  let ?v = "put (tick w) b ?n"
  have "node_inv (crypt E) ((nodes w b)\<lparr>replayCache := c\<rparr>)" using c(1) unfolding world_inv_def by (metis put_simps(1))
  from node_invD(4)[OF this] have "cache_wf c" by simp
  from world_inv_fields(3)[OF inv this] have iv: "world_inv E ?v" .
  have a: "nodes ?v a = nodes w a" and b: "nodes ?v b = ?n" using ne by simp_all
  have lf: "leaf ?v a b" by (rule leaf_cong[OF ab]) (use ne in \<open>simp_all add: same_ends_def\<close>)
  have un: "unseen E (Suc (rng w)) s ?n"
    by (rule unseen_cong[OF unseen_later[OF c(2)]]) (use unb(2) in simp_all)
  have r: "rng w < s" "rng ?v = Suc (rng w)" "Suc (rng w) < s" using s by simp_all
  obtain d m w' where w': "w' = put (put (tick ?v) a ((nodes w a)\<lparr>replayCache := d, sent := sent (nodes w a) @
        [\<lparr>To = nodeID ?n, sMessage = NewTXMessage (randID E (rng ?v)) (clock (nodes w a)) ttl x\<rparr>]\<rparr>)) b m"
    and m: "world_inv E w'" "unseen E (Suc (rng w)) s (nodes w' a)" "unseen E (Suc (rng ?v)) s m"
      "same_ends ?n m" "sent m = sent ?n" "txs m = (txs ?n)(?t \<mapsto> (normalizeTransfer (crypt E) x)\<lparr>Timestamp := 0\<rparr>)"
      "\<And>k. OnMessage E (Suc (Suc k)) ?v a (nodeID ?n) ?m = Some (w', Inr ())"
    by (rule GET_leaf[OF iv ids lf, of "rng w", unfolded a b, OF una r(1) _ _ x t wants_cong[OF new], where ttl = ttl and ts = "clock (nodes w b)"])
      (use un r in \<open>auto simp: put_def\<close>)
  show thesis
  proof (rule that[of "NewTXMessage (randID E (rng ?v)) (clock (nodes w a)) ttl x" w'])
    show "exchanged E w a b x [\<lparr>To = nodeID (nodes w b), sMessage = NewTXMessage (randID E (rng ?v)) (clock (nodes w a)) ttl x\<rparr>] w'"
      unfolding exchanged_def
    proof (intro conjI)
      show "\<exists>msg. sent (nodes w' b) = sent (nodes w b) @ [\<lparr>To = ?na, sMessage = msg\<rparr>] \<and> mType msg = GET"
        using w' m(5) by (intro exI[of _ ?m]) (simp add: new_message_defs)
      show "\<exists>c. nodes w' a = (nodes w a)\<lparr>replayCache := c, sent := sent (nodes w a)
           @ [\<lparr>To = nodeID (nodes w b), sMessage = NewTXMessage (randID E (rng ?v)) (clock (nodes w a)) ttl x\<rparr>]\<rparr>"
        using w' ne by auto
      show "txs (nodes w' b) = (txs (nodes w b))(?t \<mapsto> (normalizeTransfer (crypt E) x)\<lparr>Timestamp := 0\<rparr>)"
      proof -
        have "txs ?n = txs (nodes w b)" by (rule ext, rule txs_cong) simp
        then show ?thesis using w' m(6) by simp
      qed
    qed (use w' m(4) in \<open>simp_all add: same_ends_def\<close>)
    show "mType (NewTXMessage (randID E (rng ?v)) (clock (nodes w a)) ttl x) = TX" by (simp add: new_message_defs)
    show "unseen E (rng w') s (nodes w' a)" by (rule unseen_later[OF m(2)]) (use w' in simp)
    show "unseen E (rng w') s (nodes w' b)" using m(3) w' by simp
    show "OnMessage E (Suc (Suc (Suc k))) w b ?na ?msg = Some (w', Inr ())" for k
    proof -
      let ?u = "tick (put w b ((nodes w b)\<lparr>replayCache := c\<rparr>))"
      have l': "link ?u b a" using l ne by (simp add: link_def)
      have u: "put ?u b ((nodes ?u b)\<lparr>sent := sent (nodes ?u b) @ [\<lparr>To = nodeID (nodes ?u a), sMessage = ?m\<rparr>]\<rparr>) = ?v"
        using ne by (simp add: put_def tick_def)
      have ty: "mType ?msg = INV" "DecodeINVID (Payload ?msg) = Inr ?t" "TTL ?msg = ttl"
        using t by (simp_all add: new_message_defs DecodeINVID_def EncodeINVID_def)
      have "\<not> hasTransfer (nodes w b) ?t" using new by (simp add: wants_def txs_hasTransfer)
      then have h: "\<not> hasTransfer ((nodes w b)\<lparr>replayCache := c\<rparr>) ?t" by (simp add: hasTransfer_def)
      have "nextID E (put w b k) = randID E (rng w)" for k by (simp add: nextID_def)
      then have "OnMessage E (Suc (Suc (Suc k))) w b ?na ?msg = send (OnMessage E (Suc (Suc k))) ?u b (nodeID (nodes ?u a)) ?m"
        using o[of "Suc (Suc k)" ?na] h ty ne by (simp add: dispatch_def handleINV_def)
      also have "\<dots> = OnMessage E (Suc (Suc k)) ?v a (nodeID (nodes w b)) ?m" unfolding send_link[OF l'] u by simp
      finally show ?thesis using m(7)[of k] by simp
    qed
  qed (use w' m in simp_all)
qed

lemma exchange:
  assumes inv: "world_inv E w" and ids: "inj_on (randID E) {..<s}" and ab: "leaf w a b"
    and una: "unseen E (rng w) s (nodes w a)" and unb: "unseen E (rng w) s (nodes w b)" and s: "rng w + 2 < s"
    and x: "txs (nodes w a) (ComputeTransferID (crypt E) x) = Some x" "wire_ok (crypt E) x"
    and t: "length (ComputeTransferID (crypt E) x) = 32" and new: "wants (crypt E) (nodes w b) x"
  obtains i msg w' where "exchanged E w a b x [\<lparr>To = nodeID (nodes w b), sMessage = i\<rparr>,
        \<lparr>To = nodeID (nodes w b), sMessage = msg\<rparr>] w'" and "mType i = INV" and "mType msg = TX"
    and "world_inv E w'" and "rng w' = rng w + 3"
    and "unseen E (rng w') s (nodes w' a)" and "unseen E (rng w') s (nodes w' b)"
    and "\<And>k. send (OnMessage E (Suc (Suc (Suc k)))) (tick w) a (nodeID (nodes w b))
           (NewINVMessage (randID E (rng w)) ts ttl (ComputeTransferID (crypt E) x)) = Some (w', Inr ())"
proof -
  let ?t = "ComputeTransferID (crypt E) x" and ?nb = "nodeID (nodes w b)"
  let ?m = "NewINVMessage (randID E (rng w)) ts ttl ?t"
  let ?n = "(nodes w a)\<lparr>sent := sent (nodes w a) @ [\<lparr>To = ?nb, sMessage = ?m\<rparr>]\<rparr>"
  let ?v = "put (tick w) a ?n"
  have ne: "a \<noteq> b" and l: "link w a b" using ab by (simp_all add: leaf_def)
  have "node_inv (crypt E) (nodes w a)" using inv by (simp add: world_inv_def)
  from node_invD(4)[OF this] have iv: "world_inv E ?v" by (rule world_inv_fields(1)[OF inv])
  have a: "nodes ?v a = ?n" and b: "nodes ?v b = nodes w b" and r: "rng ?v = rng w + 1" using ne by simp_all
  have lf: "leaf ?v a b" by (rule leaf_cong[OF ab]) (use ne in \<open>simp_all add: same_ends_def\<close>)
  have "unseen E (rng ?v) s ?n" by (rule unseen_cong[OF unseen_later[OF una]]) simp_all
  note un = this
  have st: "txs ?n ?t = Some x" using x(1) txs_cong[of ?n "nodes w a"] by simp
  have q: "rng w \<le> rng ?v" "rng ?v + 1 < s" using s r by simp_all
  obtain msg w' where e: "exchanged E ?v a b x [\<lparr>To = ?nb, sMessage = msg\<rparr>] w'"
    and m: "mType msg = TX" "world_inv E w'" "rng w' = rng ?v + 2"
      "unseen E (rng w') s (nodes w' a)" "unseen E (rng w') s (nodes w' b)"
      "\<And>k. OnMessage E (Suc (Suc (Suc k))) ?v b (nodeID ?n) ?m = Some (w', Inr ())"
    by (rule INV_leaf[OF iv ids lf, unfolded a b, OF un unb q st x(2) t new, of ts ttl]) (rule that)
  show thesis
  proof (rule that[of ?m msg w'])
    show "exchanged E w a b x [\<lparr>To = ?nb, sMessage = ?m\<rparr>, \<lparr>To = ?nb, sMessage = msg\<rparr>] w'"
      using e ne by (auto simp: exchanged_def)
    show "send (OnMessage E (Suc (Suc (Suc k)))) (tick w) a ?nb ?m = Some (w', Inr ())" for k
    proof -
      have l': "link (tick w) a b" using l by (simp add: link_def)
      show ?thesis using send_link[OF l', of "OnMessage E (Suc (Suc (Suc k)))" ?m] m(6)[of k] by simp
    qed
  qed (use m r in \<open>simp_all add: new_message_defs\<close>)
qed

section \<open>A broadcast to leaves\<close>

definition told :: "sent_message list \<Rightarrow> peer_id \<Rightarrow> 64 word \<Rightarrow> bool" where
  "told ms to ty \<longleftrightarrow> (\<exists>m \<in> set ms. To m = to \<and> mType (sMessage m) = ty)"

lemma told_simps [simp]:
  "told (ms @ ns) to ty \<longleftrightarrow> told ms to ty \<or> told ns to ty"
  "told (m # ms) to ty \<longleftrightarrow> To m = to \<and> mType (sMessage m) = ty \<or> told ms to ty"
  by (auto simp: told_def)

text \<open>What a broadcast of \<open>x\<close> from \<open>a\<close> to the nodes \<open>bs\<close> has done.\<close>

definition spread :: "env \<Rightarrow> world \<Rightarrow> nat \<Rightarrow> nat list \<Rightarrow> transfer \<Rightarrow> world \<Rightarrow> bool" where
  "spread E w a bs x w' \<longleftrightarrow>
     (\<forall>q. q \<noteq> a \<longrightarrow> q \<notin> set bs \<longrightarrow> nodes w' q = nodes w q)
   \<and> (\<exists>c msgs. nodes w' a = (nodes w a)\<lparr>replayCache := c, sent := sent (nodes w a) @ msgs\<rparr>
        \<and> (\<forall>b \<in> set bs. told msgs (nodeID (nodes w b)) INV \<and> told msgs (nodeID (nodes w b)) TX))
   \<and> (\<forall>b \<in> set bs. same_ends (nodes w b) (nodes w' b)
        \<and> told (sent (nodes w' b)) (nodeID (nodes w a)) GET
        \<and> txs (nodes w' b) = (txs (nodes w b))(ComputeTransferID (crypt E) x \<mapsto> (normalizeTransfer (crypt E) x)\<lparr>Timestamp := 0\<rparr>))"

lemma spread_Nil: "spread E w a [] x w"
  unfolding spread_def by (auto intro!: exI[of _ "replayCache (nodes w a)"] exI[of _ "[]"])

lemma spread_Cons:
  assumes e: "exchanged E w a b x [i, m] v" and s: "spread E v a bs x w'"
    and "To i = nodeID (nodes w b)" "mType (sMessage i) = INV" "To m = nodeID (nodes w b)" "mType (sMessage m) = TX"
    and "b \<notin> set bs" and "a \<notin> set bs" and "a \<noteq> b"
  shows "spread E w a (b # bs) x w'"
proof -
  have o: "nodes v q = nodes w q" if "q \<noteq> a" "q \<noteq> b" for q using e that by (simp add: exchanged_def)
  obtain c where c: "nodes v a = (nodes w a)\<lparr>replayCache := c, sent := sent (nodes w a) @ [i, m]\<rparr>"
    using e by (auto simp: exchanged_def)
  obtain d msgs where d: "nodes w' a = (nodes v a)\<lparr>replayCache := d, sent := sent (nodes v a) @ msgs\<rparr>"
    and t: "\<forall>q \<in> set bs. told msgs (nodeID (nodes v q)) INV \<and> told msgs (nodeID (nodes v q)) TX"
    using s by (auto simp: spread_def)
  have b: "nodes w' b = nodes v b" using s assms(7,9) by (simp add: spread_def)
  have q: "nodes v q = nodes w q" if "q \<in> set bs" for q using o that assms(7,8) by metis
  have eb: "same_ends (nodes w b) (nodes v b) \<and> told (sent (nodes v b)) (nodeID (nodes w a)) GET
      \<and> txs (nodes v b) = (txs (nodes w b))(ComputeTransferID (crypt E) x \<mapsto> (normalizeTransfer (crypt E) x)\<lparr>Timestamp := 0\<rparr>)"
    using e by (auto simp: exchanged_def)
  have sb: "\<forall>q \<in> set bs. same_ends (nodes w q) (nodes w' q) \<and> told (sent (nodes w' q)) (nodeID (nodes w a)) GET
      \<and> txs (nodes w' q) = (txs (nodes w q))(ComputeTransferID (crypt E) x \<mapsto> (normalizeTransfer (crypt E) x)\<lparr>Timestamp := 0\<rparr>)"
    using s q c by (simp add: spread_def)
  show ?thesis
    unfolding spread_def
  proof (intro conjI)
    show "\<forall>q. q \<noteq> a \<longrightarrow> q \<notin> set (b # bs) \<longrightarrow> nodes w' q = nodes w q" using s o by (simp add: spread_def)
    show "\<exists>c msgs. nodes w' a = (nodes w a)\<lparr>replayCache := c, sent := sent (nodes w a) @ msgs\<rparr>
        \<and> (\<forall>b \<in> set (b # bs). told msgs (nodeID (nodes w b)) INV \<and> told msgs (nodeID (nodes w b)) TX)"
      using c d t q assms(3-6) by (intro exI[of _ d] exI[of _ "[i, m] @ msgs"]) simp
  qed (use eb sb b in simp)
qed

lemma broadcast_leaves:
  assumes "world_inv E w" and ids: "inj_on (randID E) {..<s}" and "rng w + 3 * length bs \<le> s"
    and "unseen E (rng w) s (nodes w a)" and "distinct bs"
    and x: "wire_ok (crypt E) x" and t: "length (ComputeTransferID (crypt E) x) = 32"
    and "txs (nodes w a) (ComputeTransferID (crypt E) x) = Some x"
    and "\<And>b. b \<in> set bs \<Longrightarrow> leaf w a b \<and> unseen E (rng w) s (nodes w b) \<and> wants (crypt E) (nodes w b) x"
  shows "\<exists>w'. broadcastINV E (send (OnMessage E (Suc (Suc (Suc k))))) w a ttl (ComputeTransferID (crypt E) x)
       (map (\<lambda>b. nodeID (nodes w b)) bs) = Some (w', Inr ()) \<and> world_inv E w' \<and> spread E w a bs x w'"
  using assms
proof (induction bs arbitrary: w)
  case Nil
  then show ?case using spread_Nil by auto
next
  case (Cons b bs)
  let ?t = "ComputeTransferID (crypt E) x"
  have b: "leaf w a b" "unseen E (rng w) s (nodes w b)" "wants (crypt E) (nodes w b) x"
    using Cons.prems(9)[of b] by simp_all
  have "rng w + 2 < s" using Cons.prems(3) by simp
  from exchange[OF Cons.prems(1) ids b(1) Cons.prems(4) b(2) this Cons.prems(8) x t b(3)]
  obtain i m v where e: "exchanged E w a b x [\<lparr>To = nodeID (nodes w b), sMessage = i\<rparr>, \<lparr>To = nodeID (nodes w b), sMessage = m\<rparr>] v"
    and m: "mType i = INV" "mType m = TX" and v: "world_inv E v" "rng v = rng w + 3"
      "unseen E (rng v) s (nodes v a)"
    and send: "send (OnMessage E (Suc (Suc (Suc k)))) (tick w) a (nodeID (nodes w b))
        (NewINVMessage (randID E (rng w)) (clock (nodes w a)) ttl ?t) = Some (v, Inr ())"
    by metis
  have o: "nodes v q = nodes w q" if "q \<noteq> a" "q \<noteq> b" for q using e that by (simp add: exchanged_def)
  obtain c msgs where c: "nodes v a = (nodes w a)\<lparr>replayCache := c, sent := sent (nodes w a) @ msgs\<rparr>"
    using e unfolding exchanged_def by blast
  have bs: "q \<noteq> a \<and> q \<noteq> b" if "q \<in> set bs" for q
    using Cons.prems(5) Cons.prems(9)[of q] that by (auto simp: leaf_def)
  have "\<exists>w'. broadcastINV E (send (OnMessage E (Suc (Suc (Suc k))))) v a ttl ?t (map (\<lambda>b. nodeID (nodes v b)) bs)
      = Some (w', Inr ()) \<and> world_inv E w' \<and> spread E v a bs x w'"
  proof (rule Cons.IH[OF v(1) ids _ v(3) _ x t])
    show "rng v + 3 * length bs \<le> s" using Cons.prems(3) v(2) by simp
    show "distinct bs" using Cons.prems(5) by simp
    show "txs (nodes v a) ?t = Some x" using Cons.prems(8) txs_cong[of "nodes v a" "nodes w a"] c by simp
    show "leaf v a q \<and> unseen E (rng v) s (nodes v q) \<and> wants (crypt E) (nodes v q) x" if "q \<in> set bs" for q
    proof -
      have q: "nodes v q = nodes w q" using o bs that by blast
      have "leaf w a q" and "unseen E (rng w) s (nodes w q)" "wants (crypt E) (nodes w q) x"
        using Cons.prems(9)[of q] that by simp_all
      moreover have "leaf v a q"
        by (rule leaf_cong[OF \<open>leaf w a q\<close>]) (use q c in \<open>simp_all add: same_ends_def\<close>)
      moreover have "rng w \<le> rng v" using v(2) by simp
      ultimately show ?thesis using unseen_later q by metis
    qed
  qed
  then obtain w' where w': "broadcastINV E (send (OnMessage E (Suc (Suc (Suc k))))) v a ttl ?t (map (\<lambda>b. nodeID (nodes v b)) bs)
      = Some (w', Inr ())" "world_inv E w'" "spread E v a bs x w'" by blast
  have names: "map (\<lambda>b. nodeID (nodes v b)) bs = map (\<lambda>b. nodeID (nodes w b)) bs" using o bs by simp
  have "spread E w a (b # bs) x w'"
    by (rule spread_Cons[OF e w'(3)]) (use m Cons.prems(5) bs b(1) in \<open>auto simp: leaf_def\<close>)
  moreover have "broadcastINV E (send (OnMessage E (Suc (Suc (Suc k))))) w a ttl ?t
      (map (\<lambda>b. nodeID (nodes w b)) (b # bs)) = Some (w', Inr ())"
    using send w'(1) names by (simp add: nextID_def)
  ultimately show ?case using w'(2) by blast
qed

section \<open>Submission to a node with leaves\<close>

lemma wants_normalize: "wants P n x \<Longrightarrow> wants P n (normalizeTransfer P x)"
  by (simp add: wants_def)

lemma submit_to_leaves:
  assumes inv: "world_inv E w" and ids: "inj_on (randID E) {..<s}" and r: "rng w + 3 * length bs \<le> s"
    and una: "unseen E (rng w) s (nodes w a)" and dist: "distinct bs"
    and names: "peerIDsExcept (nodes w a) [] = map (\<lambda>b. nodeID (nodes w b)) bs"
    and x: "wire_ok (crypt E) x" and t: "length (ComputeTransferID (crypt E) x) = 32"
    and wa: "wants (crypt E) (nodes w a) x" and c: "ConsumeInputs (inputTracker (nodes w a)) (Inputs x) = Inr tk"
    and bs: "\<And>b. b \<in> set bs \<Longrightarrow> leaf w a b \<and> unseen E (rng w) s (nodes w b) \<and> wants (crypt E) (nodes w b) x"
  obtains w' where "\<And>k. AcceptLocalTransfer E (Suc (Suc (Suc k))) w a x = Some (w', Inr ())" and "world_inv E w'"
    and "\<And>q. q \<noteq> a \<Longrightarrow> q \<notin> set bs \<Longrightarrow> nodes w' q = nodes w q"
    and "nodeID (nodes w' a) = nodeID (nodes w a)"
    and "txs (nodes w' a) = (txs (nodes w a))(ComputeTransferID (crypt E) x \<mapsto> normalizeTransfer (crypt E) x)"
    and "\<And>b. b \<in> set bs \<Longrightarrow> told (sent (nodes w' a)) (nodeID (nodes w b)) INV \<and> told (sent (nodes w' a)) (nodeID (nodes w b)) TX
           \<and> told (sent (nodes w' b)) (nodeID (nodes w a)) GET \<and> nodeID (nodes w' b) = nodeID (nodes w b)
           \<and> txs (nodes w' b) = (txs (nodes w b))(ComputeTransferID (crypt E) x \<mapsto> (normalizeTransfer (crypt E) x)\<lparr>Timestamp := 0\<rparr>)"
proof -
  let ?t = "ComputeTransferID (crypt E) x" and ?y = "normalizeTransfer (crypt E) x"
  have va: "validateTransfer (crypt E) (nodes w a) ?y = Inr ()" and na: "txs (nodes w a) ?t = None"
    using wa by (simp_all add: wants_def)
  obtain m where i: "node_inv (crypt E) m" and l: "same_links ((nodes w a)\<lparr>inputTracker := tk\<rparr>) m"
    and m: "txs m = (txs (nodes w a))(?t \<mapsto> ?y)"
    and A: "\<And>k. AcceptLocalTransfer E k w a x = broadcastINV E (send (OnMessage E k)) (put w a m) a 30 ?t (peerIDsExcept m [])"
  proof -
    let ?n = "(nodes w a)\<lparr>inputTracker := tk\<rparr>"
    have n: "node_inv (crypt E) (nodes w a)" using inv by (simp add: world_inv_def)
    have i: "node_inv (crypt E) ?n" by (rule node_inv_cong[OF n]) (use node_invD(4)[OF n] in simp_all)
    have v: "validateTransfer (crypt E) ?n ?y = Inr ()"
      using va validateTransfer_cong[of ?n "nodes w a"] by simp
    have tx: "txs ?n = txs (nodes w a)" by (rule ext, rule txs_cong) simp
    obtain m where m: "upsert_and_recompute E ?n ?y (EncodeTransfer x) [] = (m, Inr (?t, txs ?n ?t = None))"
      "node_inv (crypt E) m" "same_links ?n m" "txs m = (if txs ?n ?t = None then (txs ?n)(?t \<mapsto> ?y) else txs ?n)"
      by (rule accept_effect[OF i v])
    show thesis
      by (rule that[OF m(2,3)]) (use m tx na va c in \<open>simp_all add: AcceptLocalTransfer_def Let_def tID_normalize\<close>)
  qed
  let ?w = "put w a m"
  have f: "nodeID m = nodeID (nodes w a)" "same_ends (nodes w a) m" "peers m = peers (nodes w a)" "replayCache m = replayCache (nodes w a)"
    using l by (simp_all add: same_links_def same_ends_def)
  have ab: "b \<noteq> a" if "b \<in> set bs" for b using bs[OF that] by (auto simp: leaf_def)
  have "\<exists>w'. broadcastINV E (send (OnMessage E (Suc (Suc (Suc k))))) ?w a 30 (ComputeTransferID (crypt E) ?y)
      (map (\<lambda>b. nodeID (nodes ?w b)) bs) = Some (w', Inr ()) \<and> world_inv E w' \<and> spread E ?w a bs ?y w'" for k
  proof (rule broadcast_leaves[OF world_inv_put[OF inv i] ids _ _ dist wire_ok_normalize[OF x]])
    show "unseen E (rng ?w) s (nodes ?w a)" using unseen_cong[OF una f(4)] by simp
    show "leaf ?w a b \<and> unseen E (rng ?w) s (nodes ?w b) \<and> wants (crypt E) (nodes ?w b) ?y" if "b \<in> set bs" for b
      using bs[OF that] ab[OF that] f leaf_cong[of w a b ?w] wants_normalize by (simp add: same_ends_def)
  qed (use r t m in simp_all)
  moreover have "peerIDsExcept m [] = map (\<lambda>b. nodeID (nodes ?w b)) bs"
    using names f ab by (simp add: peerIDsExcept_def)
  ultimately have ex: "\<exists>w'. AcceptLocalTransfer E (Suc (Suc (Suc k))) w a x = Some (w', Inr ()) \<and> world_inv E w'
      \<and> spread E ?w a bs ?y w'" for k using A by simp
  obtain w' where w': "AcceptLocalTransfer E (Suc (Suc (Suc 0))) w a x = Some (w', Inr ())" "world_inv E w'"
    and sp: "spread E ?w a bs ?y w'" using ex by blast
  obtain c msgs where wa: "nodes w' a = m\<lparr>replayCache := c, sent := sent m @ msgs\<rparr>"
    and told: "\<forall>b \<in> set bs. told msgs (nodeID (nodes ?w b)) INV \<and> told msgs (nodeID (nodes ?w b)) TX"
    using sp by (auto simp: spread_def)
  have ta: "txs (nodes w' a) = txs m" unfolding wa by (rule ext, rule txs_cong) simp
  show thesis
  proof (rule that[of w'])
    show "txs (nodes w' a) = (txs (nodes w a))(?t \<mapsto> ?y)" using ta m by simp
    show "AcceptLocalTransfer E (Suc (Suc (Suc k))) w a x = Some (w', Inr ())" for k
      using AcceptLocal_more_fuel[OF w'(1), of "Suc (Suc (Suc k))"] by simp
  qed (use w'(2) sp wa told ab f m in \<open>auto simp: spread_def same_ends_def\<close>)
qed

end
