(* ===== verification/Node_Flood.thy ===== *)
theory Node_Flood
  imports Node_Exchange
begin

text \<open>
  How far a transfer gets: in a network whose nodes know each other in both directions and all find
  the transfer valid, one submission carries it to every node that can be reached from its origin.

  The argument follows the nesting of the calls. Every call keeps the network \<open>ready\<close>, every node that
  gets the transfer passes it to all its peers before its call returns (\<open>spreads\<close>), and the random
  identifiers a call uses up are paid for by the nodes that have got the transfer (\<open>owed\<close>).
\<close>

section \<open>The network\<close>

definition meshed :: "nat set \<Rightarrow> world \<Rightarrow> bool" where
  "meshed A w \<longleftrightarrow> (\<forall>a \<in> A. sender (nodes w a) = None \<and> nodeID (nodes w a) \<noteq> []
     \<and> (\<forall>p q. map_of (peers (nodes w a)) p = Some q \<longrightarrow>
          (\<exists>b \<in> A. q = Some b \<and> p = nodeID (nodes w b) \<and> link w b a)))"

definition has :: "env \<Rightarrow> transfer \<Rightarrow> world \<Rightarrow> nat \<Rightarrow> bool" where
  "has E x w a \<longleftrightarrow> txs (nodes w a) (ComputeTransferID (crypt E) x) \<noteq> None"

text \<open>A node that accepts \<open>x\<close>, has nothing else in its place and has not seen the identifiers from \<open>i\<close> to \<open>s\<close>.\<close>

definition primed :: "env \<Rightarrow> transfer \<Rightarrow> nat \<Rightarrow> nat \<Rightarrow> node \<Rightarrow> bool" where
  "primed E x i s n \<longleftrightarrow> validateTransfer (crypt E) n (normalizeTransfer (crypt E) x) = Inr () \<and> unseen E i s n
     \<and> (\<forall>y. txs n (ComputeTransferID (crypt E) x) = Some y \<longrightarrow> (\<exists>ts. y = (normalizeTransfer (crypt E) x)\<lparr>Timestamp := ts\<rparr>))"

definition ready :: "env \<Rightarrow> nat set \<Rightarrow> transfer \<Rightarrow> nat \<Rightarrow> nat \<Rightarrow> world \<Rightarrow> bool" where
  "ready E A x s i w \<longleftrightarrow> world_inv E w \<and> meshed A w \<and> (\<forall>a \<in> A. primed E x i s (nodes w a))"

lemma readyD:
  assumes "ready E A x s i w"
  shows "world_inv E w" and "meshed A w" and "a \<in> A \<Longrightarrow> primed E x i s (nodes w a)"
  using assms by (simp_all add: ready_def)

lemma link_cong:
  assumes "\<And>a. same_ends (nodes w a) (nodes v a)"
  shows "link v a b \<longleftrightarrow> link w a b"
  using assms unfolding link_def same_ends_def by metis

lemma meshed_cong:
  assumes e: "\<And>a. same_ends (nodes w a) (nodes v a)" and m: "meshed A w"
  shows "meshed A v"
proof -
  have "sender (nodes v a) = sender (nodes w a)" "nodeID (nodes v a) = nodeID (nodes w a)"
    "peers (nodes v a) = peers (nodes w a)" for a using e by (simp_all add: same_ends_def)
  then show ?thesis using m link_cong[OF e] unfolding meshed_def by simp
qed

lemma meshed_peer:
  assumes "meshed A w" and "a \<in> A" and "map_of (peers (nodes w a)) p = Some q"
  obtains b where "b \<in> A" and "q = Some b" and "p = nodeID (nodes w b)" and "link w a b" and "link w b a"
  using assms unfolding meshed_def link_def by metis

lemma ready_put:
  assumes r: "ready E A x s i w" and i: "i \<le> j" and v: "world_inv E (put w a m)"
    and e: "same_ends (nodes w a) m" and p: "a \<in> A \<Longrightarrow> primed E x j s m"
  shows "ready E A x s j (put w a m)"
proof -
  have "meshed A (put w a m)"
    by (rule meshed_cong[OF _ readyD(2)[OF r]]) (use e in \<open>simp add: same_ends_def\<close>)
  moreover have "primed E x j s (nodes w b)" if "b \<in> A" for b
    using readyD(3)[OF r that] i unseen_later by (auto simp: primed_def)
  ultimately show ?thesis using v p by (simp add: ready_def)
qed

lemma ready_tick [simp]: "ready E A x s i (tick w) \<longleftrightarrow> ready E A x s i w"
  by (simp add: ready_def world_inv_def meshed_def link_def)

section \<open>What a call achieves\<close>

text \<open>What the handling of messages about \<open>x\<close> leaves alone in a node.\<close>

definition steady :: "env \<Rightarrow> transfer \<Rightarrow> node \<Rightarrow> node \<Rightarrow> bool" where
  "steady E x n m \<longleftrightarrow> same_ends n m \<and> inputTracker m = inputTracker n
     \<and> (\<forall>u. u \<noteq> ComputeTransferID (crypt E) x \<longrightarrow> txs m u = txs n u)
     \<and> (\<forall>h. h \<notin> ComputeValueID (crypt E) ` set (Outputs x) \<longrightarrow> map_of (valueStore m) h = map_of (valueStore n) h)"

lemma steadyD:
  assumes "steady E x n m"
  shows "same_ends n m" and "inputTracker m = inputTracker n"
    and "u \<noteq> ComputeTransferID (crypt E) x \<Longrightarrow> txs m u = txs n u"
    and "h \<notin> ComputeValueID (crypt E) ` set (Outputs x) \<Longrightarrow> map_of (valueStore m) h = map_of (valueStore n) h"
  using assms by (simp_all add: steady_def)

lemma steady_refl [simp]: "steady E x n n"
  by (simp add: steady_def same_ends_def)

lemma steady_trans: "steady E x n m \<Longrightarrow> steady E x m k \<Longrightarrow> steady E x n k"
  by (simp add: steady_def same_ends_def)

lemma steady_sent [simp]: "steady E x n (n\<lparr>sent := s\<rparr>)"
  by (simp add: steady_def same_ends_def txs_def)

lemma steady_cache [simp]: "steady E x n (n\<lparr>replayCache := c\<rparr>)"
  by (simp add: steady_def same_ends_def txs_def)

definition spreads :: "env \<Rightarrow> nat set \<Rightarrow> transfer \<Rightarrow> world \<Rightarrow> world \<Rightarrow> bool" where
  "spreads E A x w v \<longleftrightarrow> (\<forall>a. steady E x (nodes w a) (nodes v a)) \<and> (\<forall>a. has E x w a \<longrightarrow> has E x v a)
     \<and> (\<forall>a \<in> A. has E x v a \<longrightarrow> \<not> has E x w a \<longrightarrow> (\<forall>b. link v a b \<longrightarrow> has E x v b))"

text \<open>Three messages for each peer of each node that has still to get the transfer.\<close>

definition owed :: "env \<Rightarrow> nat set \<Rightarrow> transfer \<Rightarrow> world \<Rightarrow> nat" where
  "owed E A x w = (\<Sum>a \<in> A. if has E x w a then 0 else 3 * length (peers (nodes w a)))"

definition achieves :: "env \<Rightarrow> nat set \<Rightarrow> transfer \<Rightarrow> nat \<Rightarrow> nat \<Rightarrow> world \<Rightarrow> world \<Rightarrow> bool" where
  "achieves E A x s c w v \<longleftrightarrow> ready E A x s (rng v) v \<and> spreads E A x w v
     \<and> rng v + owed E A x v \<le> rng w + owed E A x w + c"

lemma spreads_refl: "spreads E A x w w"
  by (simp add: spreads_def)

lemma spreadsD:
  assumes "spreads E A x w v"
  shows "steady E x (nodes w a) (nodes v a)" and "same_ends (nodes w a) (nodes v a)" and "has E x w a \<Longrightarrow> has E x v a"
  using assms steadyD(1)[of E x "nodes w a" "nodes v a"] by (simp_all add: spreads_def)

lemma spreads_trans:
  assumes "spreads E A x w u" and "spreads E A x u v"
  shows "spreads E A x w v"
proof -
  have "steady E x (nodes w a) (nodes v a)" for a by (rule steady_trans[OF spreadsD(1)[OF assms(1)] spreadsD(1)[OF assms(2)]])
  moreover have "link v a b \<longleftrightarrow> link u a b" for a b by (rule link_cong[OF spreadsD(2)[OF assms(2)]])
  ultimately show ?thesis using assms unfolding spreads_def by blast
qed

lemma achieves_trans:
  "achieves E A x s c w u \<Longrightarrow> achieves E A x s d u v \<Longrightarrow> achieves E A x s (c + d) w v"
  unfolding achieves_def using spreads_trans by fastforce

text \<open>A change of a node that is not about the transfer.\<close>

lemma aside:
  assumes e: "steady E x (nodes w a) m" and t: "txs m = txs (nodes w a)"
  shows "spreads E A x w (put w a m)" and "owed E A x (put w a m) = owed E A x w"
    and "has E x (put w a m) b \<longleftrightarrow> has E x w b" and "link (put w a m) b c \<longleftrightarrow> link w b c"
proof -
  show h: "has E x (put w a m) b \<longleftrightarrow> has E x w b" for b using t by (simp add: has_def)
  show "spreads E A x w (put w a m)" using e h by (simp add: spreads_def)
  have "peers (nodes (put w a m) b) = peers (nodes w b)" for b using steadyD(1)[OF e] by (simp add: same_ends_def)
  then show "owed E A x (put w a m) = owed E A x w" unfolding owed_def h by (simp cong: if_cong)
  show "link (put w a m) b c \<longleftrightarrow> link w b c" by (rule link_cong) (use steadyD(1)[OF e] in \<open>simp add: same_ends_def\<close>)
qed

lemma tick_aside [simp]:
  "has E x (tick w) a \<longleftrightarrow> has E x w a" "owed E A x (tick w) = owed E A x w" "link (tick w) a b \<longleftrightarrow> link w a b"
  "spreads E A x (tick w) v \<longleftrightarrow> spreads E A x w v"
  by (simp_all add: has_def owed_def link_def spreads_def cong: if_cong)

section \<open>Messages about the transfer\<close>

text \<open>
  The message \<open>msg\<close> from \<open>a\<close> to \<open>b\<close> is about \<open>x\<close>; its handling costs \<open>c\<close> identifiers besides those
  owed, and makes \<open>d\<close> have the transfer.
\<close>

definition about :: "env \<Rightarrow> transfer \<Rightarrow> world \<Rightarrow> nat \<Rightarrow> nat \<Rightarrow> message \<Rightarrow> nat \<Rightarrow> nat \<Rightarrow> bool" where
  "about E x w a b msg c d \<longleftrightarrow>
     mType msg = INV \<and> DecodeINVID (Payload msg) = Inr (ComputeTransferID (crypt E) x) \<and> has E x w a \<and> c = 2 \<and> d = b
   \<or> mType msg = GET \<and> DecodeGETID (Payload msg) = Inr (ComputeTransferID (crypt E) x) \<and> has E x w b \<and> c = 1 \<and> d = a
   \<or> mType msg = TX \<and> (\<exists>i ts. tx_of (crypt E) msg = Inr ((normalizeTransfer (crypt E) x)\<lparr>tID := i, Timestamp := ts\<rparr>))
       \<and> has E x w a \<and> c = 0 \<and> d = b"

text \<open>What an operation that delivers messages does for the transfer.\<close>

definition carries :: "env \<Rightarrow> nat set \<Rightarrow> transfer \<Rightarrow> nat \<Rightarrow> (world \<Rightarrow> nat \<Rightarrow> peer_id \<Rightarrow> message \<Rightarrow> outcome) \<Rightarrow> bool" where
  "carries E A x s deliver \<longleftrightarrow> (\<forall>w a b msg i c d w' r.
     ready E A x s i w \<longrightarrow> rng w = Suc i \<longrightarrow> MessageID msg = randID E i \<longrightarrow> a \<in> A \<longrightarrow> b \<in> A \<longrightarrow>
     link w a b \<longrightarrow> link w b a \<longrightarrow> about E x w a b msg c d \<longrightarrow> rng w + owed E A x w + c \<le> s \<longrightarrow>
     deliver w b (nodeID (nodes w a)) msg = Some (w', r) \<longrightarrow>
     r = Inr () \<and> achieves E A x s c w w' \<and> has E x w' d)"

lemma send_carries:
  assumes deliver: "carries E A x s deliver" and r: "ready E A x s (rng w) w" and ab: "a \<in> A" "b \<in> A"
    and l: "link w a b" "link w b a" and id: "MessageID msg = randID E (rng w)"
    and m: "about E x w a b msg c d" and s: "rng w + owed E A x w + Suc c \<le> s"
    and o: "send deliver (tick w) a (nodeID (nodes w b)) msg = Some (w', res)"
  shows "res = Inr ()" and "achieves E A x s (Suc c) w w'" and "has E x w' d"
proof -
  let ?n = "(nodes w a)\<lparr>sent := sent (nodes w a) @ [\<lparr>To = nodeID (nodes w b), sMessage = msg\<rparr>]\<rparr>"
  let ?u = "put (tick w) a ?n"
  have e: "steady E x (nodes (tick w) a) ?n" by simp
  have t: "txs ?n = txs (nodes (tick w) a)" by (simp add: txs_def fun_eq_iff)
  note as = aside[OF e t]
  have n: "node_inv (crypt E) (nodes w a)" using readyD(1)[OF r] by (simp add: world_inv_def)
  have "world_inv E ?u" by (rule world_inv_fields(1)[OF readyD(1)[OF r] node_invD(4)[OF n]])
  moreover have "primed E x (rng w) s ?n" if "a \<in> A"
    using readyD(3)[OF r that] validateTransfer_cong[of ?n "nodes w a"] t unseen_cong[of E "rng w" s "nodes w a" ?n]
    by (auto simp: primed_def)
  ultimately have u: "ready E A x s (rng w) ?u" using ready_put[of E A x s "rng w" "tick w"] r steadyD(1)[OF e] by simp
  have l': "link (tick w) a b" using l(1) by simp
  have "deliver ?u b (nodeID (nodes ?u a)) msg = Some (w', res)"
    using o send_link[OF l', of deliver msg] by simp
  moreover have "about E x ?u a b msg c d" using m as(3) by (simp add: about_def)
  moreover have "link ?u a b" "link ?u b a" using l as(4) by simp_all
  moreover have "rng ?u = Suc (rng w)" "owed E A x ?u = owed E A x w" using as(2)[of A] by simp_all
  ultimately have "res = Inr () \<and> achieves E A x s c ?u w' \<and> has E x w' d"
    using deliver u id ab s unfolding carries_def by (metis add_Suc add_Suc_right)
  moreover have "achieves E A x s (Suc c) w w'" if "achieves E A x s c ?u w'"
    using that as(1,2)[of A] spreads_trans[of E A x w ?u w'] by (auto simp: achieves_def)
  ultimately show "res = Inr ()" and "achieves E A x s (Suc c) w w'" and "has E x w' d" by simp_all
qed

section \<open>Accepting the transfer\<close>

text \<open>No output of the transfer has the identifier of one of its inputs.\<close>

definition old_inputs :: "env \<Rightarrow> transfer \<Rightarrow> bool" where
  "old_inputs E x \<longleftrightarrow> (\<forall>i \<in> set (Inputs x). i \<notin> ComputeValueID (crypt E) ` set (Outputs x))"

lemma resolveSigner_loop_inputs:
  "(\<And>i. i \<in> set is \<Longrightarrow> map_of (valueStore m) i = map_of (valueStore n) i) \<Longrightarrow>
     resolveSigner_loop m w is = resolveSigner_loop n w is"
  by (induction "is" arbitrary: w) (simp_all split: option.split)

lemma validate_inputs_cong:
  assumes "\<And>i. i \<in> set (Inputs x) \<Longrightarrow> map_of (valueStore m) i = map_of (valueStore n) i" and "clock m = clock n"
  shows "validateTransfer P m x = validateTransfer P n x"
  using resolveSigner_loop_inputs[of "Inputs x" m n "[]"] assms by (simp add: validateTransfer_def resolveSigner_def)

lemma primed_accepted:
  assumes p: "primed E x i s n" and out: "old_inputs E x" and e: "clock m = clock n" "replayCache m = replayCache n"
    and v: "\<And>h. h \<notin> ComputeValueID (crypt E) ` set (Outputs x) \<Longrightarrow> map_of (valueStore m) h = map_of (valueStore n) h"
    and t: "txs m = (if txs n (ComputeTransferID (crypt E) x) = None
      then (txs n)(ComputeTransferID (crypt E) x \<mapsto> (normalizeTransfer (crypt E) x)\<lparr>Timestamp := ts\<rparr>) else txs n)"
  shows "primed E x i s m"
  unfolding primed_def
proof (intro conjI allI impI)
  have "validateTransfer (crypt E) m (normalizeTransfer (crypt E) x) = validateTransfer (crypt E) n (normalizeTransfer (crypt E) x)"
    by (rule validate_inputs_cong) (use out v e(1) in \<open>simp_all add: old_inputs_def\<close>)
  then show "validateTransfer (crypt E) m (normalizeTransfer (crypt E) x) = Inr ()" using p by (simp add: primed_def)
  show "unseen E i s m" by (rule unseen_cong[OF _ e(2)]) (use p in \<open>simp add: primed_def\<close>)
  fix y assume "txs m (ComputeTransferID (crypt E) x) = Some y"
  then show "\<exists>ts. y = (normalizeTransfer (crypt E) x)\<lparr>Timestamp := ts\<rparr>" using t p
    by (auto simp: primed_def split: if_splits)
qed

lemma accept_primed:
  assumes inv: "node_inv (crypt E) n" and p: "primed E x i s n" and out: "old_inputs E x"
  obtains m where "upsert_and_recompute E n
        (normalizeTransfer (crypt E) ((normalizeTransfer (crypt E) x)\<lparr>tID := j, Timestamp := ts\<rparr>))
        (EncodeTransfer ((normalizeTransfer (crypt E) x)\<lparr>tID := j, Timestamp := ts\<rparr>)) f
      = (m, Inr (ComputeTransferID (crypt E) x, txs n (ComputeTransferID (crypt E) x) = None))"
    and "node_inv (crypt E) m" and "steady E x n m" and "primed E x i s m"
    and "txs m (ComputeTransferID (crypt E) x) \<noteq> None"
    and "txs n (ComputeTransferID (crypt E) x) \<noteq> None \<Longrightarrow> txs m = txs n"
proof -
  let ?X = "normalizeTransfer (crypt E) x" and ?t = "ComputeTransferID (crypt E) x"
  let ?z = "?X\<lparr>tID := j, Timestamp := ts\<rparr>"
  have z: "ComputeTransferID (crypt E) ?z = ?t" "normalizeTransfer (crypt E) ?z = ?X\<lparr>Timestamp := ts\<rparr>"
    by (simp_all add: normalize_meta)
  have "validateTransfer (crypt E) n (normalizeTransfer (crypt E) ?z) = Inr ()"
    using p by (simp add: primed_def normalize_meta)
  from accept_effect[OF inv this, of f, unfolded z(1)] obtain m where
    m: "upsert_and_recompute E n (normalizeTransfer (crypt E) ?z) (EncodeTransfer ?z) f = (m, Inr (?t, txs n ?t = None))"
      "node_inv (crypt E) m" "same_links n m"
      "txs m = (if txs n ?t = None then (txs n)(?t \<mapsto> normalizeTransfer (crypt E) ?z) else txs n)" .
  have vals: "map_of (valueStore m) h = map_of (valueStore n) h" if "h \<notin> ComputeValueID (crypt E) ` set (Outputs x)" for h
    by (rule accept_values[OF m(1)]) (use that in \<open>simp add: image_image\<close>)
  show thesis
  proof (rule that[of m])
    show "primed E x i s m"
      by (rule primed_accepted[OF p out _ _ vals m(4)[unfolded z(2)]]) (use m(3) in \<open>simp_all add: same_links_def\<close>)
    show "steady E x n m" using m(3,4) vals by (simp add: same_links_def same_ends_def steady_def)
  qed (use m in \<open>auto split: if_splits\<close>)
qed

section \<open>A broadcast\<close>

lemma achieves_ready: "achieves E A x s c w v \<Longrightarrow> ready E A x s (rng v) v"
  by (simp add: achieves_def)

lemma achieves_refl: "ready E A x s (rng w) w \<Longrightarrow> achieves E A x s 0 w w"
  by (simp add: achieves_def spreads_refl)

lemma about_INV:
  assumes "has E x w a" and "length (ComputeTransferID (crypt E) x) = 32"
  shows "about E x w a b (NewINVMessage i ts ttl (ComputeTransferID (crypt E) x)) 2 b"
  using assms by (simp add: about_def new_message_defs DecodeINVID_def EncodeINVID_def)

lemma about_GET:
  assumes "has E x w b" and "length (ComputeTransferID (crypt E) x) = 32"
  shows "about E x w a b (NewGETMessage i ts ttl (ComputeTransferID (crypt E) x)) 1 a"
  using assms by (simp add: about_def new_message_defs DecodeGETID_def EncodeGETID_def)

lemma about_TX:
  assumes "has E x w a" and "wire_ok (crypt E) x"
  shows "about E x w a b (NewTXMessage i ts ttl ((normalizeTransfer (crypt E) x)\<lparr>Timestamp := u\<rparr>)) 0 b"
proof -
  have "wire_ok (crypt E) ((normalizeTransfer (crypt E) x)\<lparr>Timestamp := u\<rparr>)"
    using wire_ok_normalize[OF assms(2)] by (simp add: wire_ok_def content_ok_def)
  from tx_of_new[OF this, of i ts ttl] have "\<exists>j v. tx_of (crypt E) (NewTXMessage i ts ttl
      ((normalizeTransfer (crypt E) x)\<lparr>Timestamp := u\<rparr>)) = Inr ((normalizeTransfer (crypt E) x)\<lparr>tID := j, Timestamp := v\<rparr>)"
    by (intro exI[of _ "ComputeTransferID (crypt E) x"] exI[of _ 0]) simp
  moreover have "mType (NewTXMessage i ts ttl y) = TX" for y by (simp add: new_message_defs)
  ultimately show ?thesis using assms(1) unfolding about_def by blast
qed

lemma broadcast_carries:
  assumes deliver: "carries E A x s deliver" and t: "length (ComputeTransferID (crypt E) x) = 32" and a: "a \<in> A"
  shows "ready E A x s (rng w) w \<Longrightarrow> has E x w a \<Longrightarrow> set ps \<subseteq> fst ` set (peers (nodes w a)) \<Longrightarrow>
     rng w + owed E A x w + 3 * length ps \<le> s \<Longrightarrow>
     broadcastINV E (send deliver) w a ttl (ComputeTransferID (crypt E) x) ps = Some (w', r) \<Longrightarrow>
     r = Inr () \<and> achieves E A x s (3 * length ps) w w'
       \<and> (\<forall>b. link w a b \<longrightarrow> nodeID (nodes w b) \<in> set ps \<longrightarrow> has E x w' b)"
proof (induction ps arbitrary: w)
  case Nil
  then show ?case by (simp add: achieves_refl)
next
  case (Cons p ps)
  let ?msg = "NewINVMessage (nextID E w) (clock (nodes w a)) ttl (ComputeTransferID (crypt E) x)"
  have "map_of (peers (nodes w a)) p \<noteq> None" using Cons.prems(3) by (simp add: map_of_eq_None_iff)
  then obtain q where q: "map_of (peers (nodes w a)) p = Some q" by blast
  obtain b where b: "b \<in> A" "q = Some b" "p = nodeID (nodes w b)" "link w a b" "link w b a"
    by (rule meshed_peer[OF readyD(2)[OF Cons.prems(1)] a q])
  have id: "MessageID ?msg = randID E (rng w)" by (simp add: new_message_defs nextID_def)
  have s: "rng w + owed E A x w + Suc 2 \<le> s" using Cons.prems(4) by simp
  note go = send_carries[OF deliver Cons.prems(1) a b(1,4,5) id about_INV[OF Cons.prems(2) t] s]
  from Cons.prems(5)[unfolded broadcastINV.simps] show ?case
  proof (cases rule: andThen_SomeE)
    case (1 e)
    then show ?thesis using go(1) b(3) by blast
  next
    case (2 v)
    have v: "achieves E A x s 3 w v" "has E x v b" using go(2,3)[of v "Inr ()"] 2(1) b(3) by simp_all
    have sp: "spreads E A x w v" and rd: "ready E A x s (rng v) v"
      and le: "rng v + owed E A x v \<le> rng w + owed E A x w + 3" using v(1) by (simp_all add: achieves_def)
    note e = spreadsD(2)[OF sp]
    have l: "link v c d \<longleftrightarrow> link w c d" and n: "nodeID (nodes v c) = nodeID (nodes w c)"
      and pe: "peers (nodes v c) = peers (nodes w c)" for c d
      using link_cong[OF e] e by (simp_all add: same_ends_def)
    have "r = Inr () \<and> achieves E A x s (3 * length ps) v w'
       \<and> (\<forall>c. link v a c \<longrightarrow> nodeID (nodes v c) \<in> set ps \<longrightarrow> has E x w' c)"
    proof (rule Cons.IH[OF rd _ _ _ 2(2)])
      show "has E x v a" using sp Cons.prems(2) by (simp add: spreads_def)
      show "set ps \<subseteq> fst ` set (peers (nodes v a))" using Cons.prems(3) pe by simp
      show "rng v + owed E A x v + 3 * length ps \<le> s" using Cons.prems(4) le by simp
    qed
    note ih = this
    have "has E x w' b" using v(2) ih by (simp add: achieves_def spreads_def)
    moreover have "c = b" if "link w a c" "nodeID (nodes w c) = p" for c
      using that b(3,4) by (simp add: link_def)
    moreover have "achieves E A x s (3 + 3 * length ps) w w'" using achieves_trans[OF v(1)] ih by blast
    ultimately show ?thesis using ih l n by auto
  qed
qed

text \<open>A node that has just got the transfer and passes it on to all its peers but \<open>f\<close>.\<close>

lemma pass_on:
  assumes deliver: "carries E A x s deliver" and t: "length (ComputeTransferID (crypt E) x) = 32"
    and fin: "finite A" and b: "b \<in> A" and r: "ready E A x s (rng w) w" and new: "\<not> has E x w b"
    and m: "world_inv E (put w b m)" "steady E x (nodes w b) m" "primed E x (rng w) s m"
      "txs m (ComputeTransferID (crypt E) x) \<noteq> None"
    and s: "rng w + owed E A x w \<le> s"
    and f: "f = [] \<or> (\<exists>a. f = nodeID (nodes w a) \<and> link w b a \<and> has E x w a)"
    and o: "broadcastINV E (send deliver) (put w b m) b ttl (ComputeTransferID (crypt E) x) (peerIDsExcept m f) = Some (w', res)"
  shows "res = Inr ()" and "achieves E A x s 0 w w'" and "has E x w' b"
proof -
  let ?u = "put w b m" and ?ps = "peerIDsExcept m f"
  have es: "steady E x (nodes w c) (nodes ?u c)" for c using m(2) by simp
  note e = steadyD(1)[OF es]
  have l: "link ?u c d \<longleftrightarrow> link w c d" for c d by (rule link_cong[OF e])
  have pe: "peers m = peers (nodes w b)" using steadyD(1)[OF m(2)] by (simp add: same_ends_def)
  have u: "ready E A x s (rng ?u) ?u" using ready_put[OF r order_refl m(1) steadyD(1)[OF m(2)]] m(3) by simp
  have hu: "has E x ?u c \<longleftrightarrow> c = b \<or> has E x w c" for c using m(4) by (simp add: has_def)
  have len: "length ?ps \<le> length (peers (nodes w b))" by (simp add: peerIDsExcept_def pe)
  have "owed E A x ?u + 3 * length (peers (nodes w b)) = owed E A x w"
  proof -
    have "owed E A x ?u = (\<Sum>c \<in> A - {b}. if has E x w c then 0 else 3 * length (peers (nodes w c)))"
      unfolding owed_def using fin b by (simp add: sum.remove[of A b] hu cong: if_cong)
    then show ?thesis unfolding owed_def using fin b new by (simp add: sum.remove[of A b])
  qed
  then have ow: "owed E A x ?u + 3 * length ?ps \<le> owed E A x w" using len by simp
  have ps: "set ?ps \<subseteq> fst ` set (peers (nodes ?u b))" by (auto simp: peerIDsExcept_def)
  have s': "rng ?u + owed E A x ?u + 3 * length ?ps \<le> s" using ow s by simp
  have bu: "has E x ?u b" by (simp add: hu)
  from broadcast_carries[OF deliver t b u bu ps s' o]
  have res: "res = Inr ()" and go: "achieves E A x s (3 * length ?ps) ?u w'"
    and told: "\<And>c. link w b c \<Longrightarrow> nodeID (nodes ?u c) \<in> set ?ps \<Longrightarrow> has E x w' c" using l by blast+
  have sp: "spreads E A x ?u w'" using go by (simp add: achieves_def)
  have keep: "has E x w' c" if "has E x ?u c" for c using that sp by (simp add: spreads_def)
  have ew: "steady E x (nodes w c) (nodes w' c)" for c by (rule steady_trans[OF es spreadsD(1)[OF sp]])
  have lw: "link w' c d \<longleftrightarrow> link w c d" for c d by (rule link_cong[OF steadyD(1)[OF ew]])
  have peers_have: "has E x w' c" if c: "link w b c" for c
  proof -
    have i: "nodeID (nodes ?u c) = nodeID (nodes w c)" using e by (simp add: same_ends_def)
    have k: "nodeID (nodes w c) \<in> fst ` set (peers m)"
      using c pe by (auto simp: link_def dest!: map_of_SomeD intro: rev_image_eqI)
    show ?thesis
    proof (cases "nodeID (nodes w c) = f")
      case False
      then have "nodeID (nodes ?u c) \<in> set ?ps" using k i by (auto simp: peerIDsExcept_def)
      then show ?thesis by (rule told[OF c])
    next
      case True
      moreover have "map_of (peers (nodes w b)) (nodeID (nodes w c)) = Some (Some c)" using c by (simp add: link_def)
      moreover obtain d where "d \<in> A" "Some c = Some d"
        using meshed_peer[OF readyD(2)[OF r] b calculation(2)] by blast
      moreover from this have "nodeID (nodes w c) \<noteq> []" using readyD(2)[OF r] by (simp add: meshed_def)
      ultimately have "\<exists>a. link w b a \<and> has E x w a \<and> map_of (peers (nodes w b)) (nodeID (nodes w a)) = Some (Some c)"
        using f by auto
      then have "has E x w c" by (auto simp: link_def)
      then show ?thesis using keep hu by blast
    qed
  qed
  have "spreads E A x w w'"
    unfolding spreads_def
  proof (intro conjI ballI allI impI)
    show "has E x w' c" if "has E x w c" for c using that keep hu by blast
    fix c d assume c: "c \<in> A" "has E x w' c" "\<not> has E x w c" "link w' c d"
    show "has E x w' d"
    proof (cases "c = b")
      case True
      then show ?thesis using peers_have c(4) lw by blast
    next
      case False
      then have "\<not> has E x ?u c" using c(3) hu by blast
      then show ?thesis using sp c by (simp add: spreads_def)
    qed
  qed (rule ew)
  then show "achieves E A x s 0 w w'" using go ow by (simp add: achieves_def)
  show "res = Inr ()" by (rule res)
  show "has E x w' b" by (rule keep[OF bu])
qed

section \<open>The handlers\<close>

text \<open>What is the same for all transfers of this kind.\<close>

definition floodable :: "env \<Rightarrow> nat set \<Rightarrow> transfer \<Rightarrow> nat \<Rightarrow> bool" where
  "floodable E A x s \<longleftrightarrow> wire_ok (crypt E) x \<and> length (ComputeTransferID (crypt E) x) = 32 \<and> old_inputs E x
     \<and> finite A \<and> inj_on (randID E) {..<s}"

lemma floodableD:
  assumes "floodable E A x s"
  shows "wire_ok (crypt E) x" and "length (ComputeTransferID (crypt E) x) = 32" and "old_inputs E x"
    and "finite A" and "inj_on (randID E) {..<s}"
  using assms by (simp_all add: floodable_def)

lemma achieves_aside:
  assumes "steady E x (nodes w a) m" and "txs m = txs (nodes w a)" and "achieves E A x s c (put w a m) v"
  shows "achieves E A x s c w v"
  using assms(3) aside(1,2)[OF assms(1,2), of A] spreads_trans[of E A x w "put w a m" v] by (simp add: achieves_def)

lemma dispatch_carries:
  assumes fl: "floodable E A x s" and deliver: "carries E A x s deliver"
    and r: "ready E A x s (rng w) w" and ab: "a \<in> A" "b \<in> A" and l: "link w a b" "link w b a"
    and m: "about E x w a b msg c d" and s: "rng w + owed E A x w + c \<le> s"
    and o: "dispatch E (send deliver) w b (nodeID (nodes w a)) msg = Some (w', res)"
  shows "res = Inr () \<and> achieves E A x s c w w' \<and> has E x w' d"
  using m[unfolded about_def]
proof (elim disjE conjE exE)
  let ?t = "ComputeTransferID (crypt E) x"
  note fl = floodableD[OF fl]
  assume ty: "mType msg = INV" and g: "DecodeINVID (Payload msg) = Inr ?t" and a: "has E x w a" and c: "c = 2" "d = b"
  have h: "handleINV E (send deliver) w b (nodeID (nodes w a)) msg = Some (w', res)" using o ty by (simp add: dispatch_def)
  show ?thesis
  proof (cases "hasTransfer (nodes w b) ?t")
    case True
    then have "w' = w" "res = Inr ()" using h g by (simp_all add: handleINV_def)
    then show ?thesis using True c r by (simp add: has_def txs_hasTransfer achieves_def spreads_refl)
  next
    case False
    let ?m = "NewGETMessage (nextID E w) (clock (nodes w b)) (TTL msg) ?t"
    have "send deliver (tick w) b (nodeID (nodes w a)) ?m = Some (w', res)" using h g False by (simp add: handleINV_def)
    from send_carries[OF deliver r ab(2,1) l(2,1) _ about_GET[OF a fl(2)] _ this] show ?thesis
      using c s by (simp add: new_message_defs nextID_def numeral_2_eq_2)
  qed
next
  let ?t = "ComputeTransferID (crypt E) x"
  note fl = floodableD[OF fl]
  assume ty: "mType msg = GET" and g: "DecodeGETID (Payload msg) = Inr ?t" and b: "has E x w b" and c: "c = 1" "d = a"
  have h: "handleGET E (send deliver) w b (nodeID (nodes w a)) msg = Some (w', res)"
    using o ty by (simp add: dispatch_def)
  obtain rc where rc: "map_of (txStore (nodes w b)) ?t = Some rc" using b by (auto simp: has_def txs_def)
  then obtain ts where ts: "Tx rc = (normalizeTransfer (crypt E) x)\<lparr>Timestamp := ts\<rparr>"
    using readyD(3)[OF r ab(2)] by (auto simp: primed_def txs_def)
  let ?m = "NewTXMessage (nextID E w) (clock (nodes w b)) (TTL msg) (Tx rc)"
  have "send deliver (tick w) b (nodeID (nodes w a)) ?m = Some (w', res)" using h g rc by (simp add: handleGET_def)
  from send_carries[OF deliver r ab(2,1) l(2,1) _ about_TX[OF b fl(1), of a _ _ _ ts, folded ts] _ this] show ?thesis
    using c s by (simp add: new_message_defs nextID_def)
next
  let ?t = "ComputeTransferID (crypt E) x" and ?f = "nodeID (nodes w a)"
  fix j ts
  let ?z = "(normalizeTransfer (crypt E) x)\<lparr>tID := j, Timestamp := ts\<rparr>"
  assume ty: "mType msg = TX" and g: "tx_of (crypt E) msg = Inr ?z" and a: "has E x w a" and c: "c = 0" "d = b"
  have h: "handleTX E (send deliver) w b ?f msg = Some (w', res)" using o ty by (simp add: dispatch_def)
  have inv: "node_inv (crypt E) (nodes w b)" using readyD(1)[OF r] by (simp add: world_inv_def)
  note p = readyD(3)[OF r ab(2)]
  have v: "validateTransfer (crypt E) (nodes w b) (normalizeTransfer (crypt E) ?z) = Inr ()"
    using p by (simp add: primed_def normalize_meta)
  obtain m where m: "upsert_and_recompute E (nodes w b) (normalizeTransfer (crypt E) ?z) (EncodeTransfer ?z) ?f
      = (m, Inr (?t, txs (nodes w b) ?t = None))" "node_inv (crypt E) m" "steady E x (nodes w b) m"
    "primed E x (rng w) s m" "txs m ?t \<noteq> None" "txs (nodes w b) ?t \<noteq> None \<Longrightarrow> txs m = txs (nodes w b)"
    by (rule accept_primed[OF inv p floodableD(3)[OF fl], where j = j and ts = ts and f = ?f]) (rule that)
  have iv: "world_inv E (put w b m)" by (rule world_inv_put[OF readyD(1)[OF r] m(2)])
  show ?thesis
  proof (cases "txs (nodes w b) ?t = None")
    case True
    then have "broadcastINV E (send deliver) (put w b m) b (TTL msg) ?t (peerIDsExcept m ?f) = Some (w', res)"
      using h g v m(1) by (simp add: handleTX_eq)
    from pass_on[OF deliver floodableD(2,4)[OF fl] ab(2) r _ iv m(3,4,5) _ _ this] True l a s c show ?thesis
      by (auto simp: has_def)
  next
    case False
    then have w': "w' = put w b m" "res = Inr ()" using h g v m(1) by (simp_all add: handleTX_eq)
    have "ready E A x s (rng w) (put w b m)" by (rule ready_put[OF r order_refl iv steadyD(1)[OF m(3)] m(4)])
    then have "achieves E A x s 0 (put w b m) w'" using achieves_refl[of E A x s "put w b m"] w' by simp
    from achieves_aside[OF m(3) m(6)[OF False] this] show ?thesis using w' c m(5) by (simp add: has_def)
  qed
qed

lemma OnMessage_carries:
  assumes fl: "floodable E A x s"
  shows "carries E A x s (OnMessage E k)"
proof (induction k)
  case 0
  then show ?case by (simp add: carries_def)
next
  case (Suc k)
  show ?case
    unfolding carries_def
  proof (intro allI impI)
    fix w a b msg i c d w' res
    assume r: "ready E A x s i w" and i: "rng w = Suc i" and id: "MessageID msg = randID E i" and ab: "a \<in> A" "b \<in> A"
      and l: "link w a b" "link w b a" and m: "about E x w a b msg c d" and s: "rng w + owed E A x w + c \<le> s"
      and o: "OnMessage E (Suc k) w b (nodeID (nodes w a)) msg = Some (w', res)"
    have p: "primed E x i s (nodes w b)" by (rule readyD(3)[OF r ab(2)])
    have un: "unseen E i s (nodes w b)" "i < s" using p s i by (simp_all add: primed_def)
    obtain ch where ch: "world_inv E (put w b ((nodes w b)\<lparr>replayCache := ch\<rparr>))"
        "unseen E (Suc i) s ((nodes w b)\<lparr>replayCache := ch\<rparr>)"
      and od: "\<And>k f. OnMessage E (Suc k) w b f msg
         = dispatch E (send (OnMessage E k)) (put w b ((nodes w b)\<lparr>replayCache := ch\<rparr>)) b f msg"
      by (rule OnMessage_fresh[OF readyD(1)[OF r] floodableD(5)[OF fl] un id]) (rule that)
    let ?n = "(nodes w b)\<lparr>replayCache := ch\<rparr>"
    let ?u = "put w b ?n"
    have e: "steady E x (nodes w b) ?n" by simp
    have t: "txs ?n = txs (nodes w b)" by (simp add: txs_def fun_eq_iff)
    note as = aside[OF e t]
    have "primed E x (Suc i) s ?n"
      using p ch(2) t validateTransfer_cong[of ?n "nodes w b"] by (auto simp: primed_def)
    then have u: "ready E A x s (rng ?u) ?u" using ready_put[OF r _ ch(1) steadyD(1)[OF e], of "Suc i"] i by simp
    have f: "nodeID (nodes ?u a) = nodeID (nodes w a)" by simp
    have "about E x ?u a b msg c d" using m as(3) by (simp add: about_def)
    moreover have "rng ?u + owed E A x ?u + c \<le> s" using s as(2)[of A] by simp
    moreover have "dispatch E (send (OnMessage E k)) ?u b (nodeID (nodes ?u a)) msg = Some (w', res)"
      using o od[of k] f by simp
    ultimately have "res = Inr () \<and> achieves E A x s c ?u w' \<and> has E x w' d"
      using dispatch_carries[OF fl Suc u ab, of msg c d w' res] l as(4) by blast
    then show "res = Inr () \<and> achieves E A x s c w w' \<and> has E x w' d" using achieves_aside[OF e t] by blast
  qed
qed

section \<open>The submission\<close>

text \<open>
  The state \<open>w'\<close> after the submission of \<open>x\<close> at \<open>a\<close>: a network as ready as before, in which every node
  reached has the transfer and nothing else has changed but the spent inputs of \<open>a\<close>.
\<close>

definition flooded :: "env \<Rightarrow> nat set \<Rightarrow> transfer \<Rightarrow> nat \<Rightarrow> nat \<Rightarrow> input_tracker \<Rightarrow> world \<Rightarrow> world \<Rightarrow> bool" where
  "flooded E A x s a tracker w w' \<longleftrightarrow> ready E A x s (rng w') w' \<and> rng w' \<le> rng w + owed E A x w
     \<and> (\<forall>b. (link w)\<^sup>*\<^sup>* a b \<longrightarrow> b \<in> A \<and> has E x w' b)
     \<and> (\<forall>b. steady E x (if b = a then (nodes w b)\<lparr>inputTracker := tracker\<rparr> else nodes w b) (nodes w' b))"

lemma flood:
  assumes fl: "floodable E A x s" and a: "a \<in> A" and r: "ready E A x s (rng w) w"
    and none: "\<And>b. b \<in> A \<Longrightarrow> \<not> has E x w b" and s: "rng w + owed E A x w \<le> s"
    and tk: "ConsumeInputs (inputTracker (nodes w a)) (Inputs x) = Inr tracker"
    and o: "AcceptLocalTransfer E k w a x = Some (w', res)"
  shows "res = Inr ()" and "flooded E A x s a tracker w w'"
proof -
  let ?t = "ComputeTransferID (crypt E) x"
  let ?n = "(nodes w a)\<lparr>inputTracker := tracker\<rparr>"
  let ?v = "put w a ?n"
  have p: "primed E x (rng w) s (nodes w a)" by (rule readyD(3)[OF r a])
  then have v: "validateTransfer (crypt E) (nodes w a) (normalizeTransfer (crypt E) x) = Inr ()" by (simp add: primed_def)
  obtain m where m: "node_inv (crypt E) m" "same_links ?n m"
    "txs m = (if txs (nodes w a) ?t = None then (txs (nodes w a))(?t \<mapsto> normalizeTransfer (crypt E) x) else txs (nodes w a))"
    "AcceptLocalTransfer E k w a x = broadcastINV E (send (OnMessage E k)) (put w a m) a 30 ?t (peerIDsExcept m [])"
    "\<And>h. h \<notin> ComputeValueID (crypt E) ` set (Outputs x) \<Longrightarrow> map_of (valueStore m) h = map_of (valueStore (nodes w a)) h"
    by (rule AcceptLocal_accepted[OF readyD(1)[OF r] v tk]) (rule that)
  have x: "(normalizeTransfer (crypt E) x)\<lparr>Timestamp := Timestamp x\<rparr> = normalizeTransfer (crypt E) x" by simp
  have st: "txs m = (if txs (nodes w a) ?t = None then (txs (nodes w a))(?t \<mapsto> (normalizeTransfer (crypt E) x)
      \<lparr>Timestamp := Timestamp x\<rparr>) else txs (nodes w a))" unfolding x by (rule m(3))
  have pm: "primed E x (rng w) s m"
    by (rule primed_accepted[OF p floodableD(3)[OF fl] _ _ m(5) st]) (use m(2) in \<open>simp_all add: same_links_def\<close>)
  have tn: "txs ?n = txs (nodes w a)" by (simp add: txs_def fun_eq_iff)
  have en: "same_ends (nodes w b) (nodes ?v b)" for b by (simp add: same_ends_def)
  have hv: "has E x ?v b \<longleftrightarrow> has E x w b" for b using tn by (simp add: has_def)
  have ov: "owed E A x ?v = owed E A x w" unfolding owed_def hv by (rule sum.cong) simp_all
  have nn: "node_inv (crypt E) (nodes w a)" using readyD(1)[OF r] by (simp add: world_inv_def)
  have "node_inv (crypt E) ?n" by (rule node_inv_cong[OF nn]) (use node_invD(4)[OF nn] in simp_all)
  from world_inv_put[OF readyD(1)[OF r] this] have iv: "world_inv E ?v" .
  have "primed E x (rng w) s ?n"
    using p validateTransfer_cong[of ?n "nodes w a"] tn unseen_cong[of E "rng w" s "nodes w a" ?n] by (simp add: primed_def)
  then have rv: "ready E A x s (rng ?v) ?v"
    using ready_put[OF r order_refl iv] by (simp add: same_ends_def)
  have em: "steady E x (nodes ?v a) m"
    using m(2,3,5) tn by (simp add: same_links_def same_ends_def steady_def)
  have im: "world_inv E (put ?v a m)" using world_inv_put[OF readyD(1)[OF r] m(1)] by simp
  have tm: "txs m ?t \<noteq> None" using m(3) by simp
  have "\<not> has E x ?v a" and "rng ?v + owed E A x ?v \<le> s" and "primed E x (rng ?v) s m"
    using none[OF a] hv ov s pm by simp_all
  note ready_now = this
  have "broadcastINV E (send (OnMessage E k)) (put ?v a m) a 30 ?t (peerIDsExcept m []) = Some (w', res)"
    using o m(4) by simp
  note go = pass_on[OF OnMessage_carries[OF fl] floodableD(2,4)[OF fl] a rv ready_now(1) im em ready_now(3) tm ready_now(2) _ this]
  show "res = Inr ()" using go(1) by simp
  have sp: "spreads E A x ?v w'" using go(2) by (simp add: achieves_def)
  have lv: "link ?v c d \<longleftrightarrow> link w c d" for c d by (rule link_cong[OF en])
  have lw: "link w' c d \<longleftrightarrow> link w c d" for c d using link_cong[OF spreadsD(2)[OF sp]] lv by blast
  have "b \<in> A \<and> has E x w' b" if "(link w)\<^sup>*\<^sup>* a b" for b
    using that
  proof (induction rule: rtranclp_induct)
    case base
    then show ?case using a go(3) by simp
  next
    case (step c b)
    have "map_of (peers (nodes w c)) (nodeID (nodes w b)) = Some (Some b)" using step.hyps(2) by (simp add: link_def)
    then have "b \<in> A" using meshed_peer[OF readyD(2)[OF r]] step.IH by blast
    then show ?case using sp step none hv lw unfolding spreads_def by blast
  qed
  moreover have "steady E x (if b = a then (nodes w b)\<lparr>inputTracker := tracker\<rparr> else nodes w b) (nodes w' b)" for b
    using spreadsD(1)[OF sp, of b] by (cases "b = a") simp_all
  moreover have "rng w' \<le> rng w + owed E A x w" using go(2) ov by (simp add: achieves_def)
  ultimately show "flooded E A x s a tracker w w'" using go(2) unfolding flooded_def achieves_def by blast
qed

lemma flooded_txs:
  assumes "flooded E A x s a tracker w w'"
  shows "u \<noteq> ComputeTransferID (crypt E) x \<Longrightarrow> txs (nodes w' b) u = txs (nodes w b) u"
    and "(link w)\<^sup>*\<^sup>* a b \<Longrightarrow> \<exists>ts. txs (nodes w' b) (ComputeTransferID (crypt E) x)
       = Some ((normalizeTransfer (crypt E) x)\<lparr>Timestamp := ts\<rparr>)"
proof -
  have "steady E x (if b = a then (nodes w b)\<lparr>inputTracker := tracker\<rparr> else nodes w b) (nodes w' b)"
    using assms by (simp add: flooded_def)
  from steadyD(3)[OF this] show "u \<noteq> ComputeTransferID (crypt E) x \<Longrightarrow> txs (nodes w' b) u = txs (nodes w b) u"
    by (cases "b = a") (simp_all add: txs_def)
  assume "(link w)\<^sup>*\<^sup>* a b"
  then have "b \<in> A" "has E x w' b" and "ready E A x s (rng w') w'" using assms by (simp_all add: flooded_def)
  then have "primed E x (rng w') s (nodes w' b)" using readyD(3) by blast
  then show "\<exists>ts. txs (nodes w' b) (ComputeTransferID (crypt E) x) = Some ((normalizeTransfer (crypt E) x)\<lparr>Timestamp := ts\<rparr>)"
    using \<open>has E x w' b\<close> by (auto simp: primed_def has_def)
qed

end
