(* ===== verification/Node_Properties.thy ===== *)
theory Node_Properties
  imports Scenario Node_Types Node_Flood
begin

text \<open>
  The properties of a network of nodes: what holds in every reachable state, what a call achieves,
  and that every call ends. The witnesses use the networks of \<open>Scenario\<close>.
\<close>

section \<open>Reachable states\<close>

text \<open>C2: In every reachable state of a network the stores of every node agree with each other: records, conflict sets, values, selected lineages, finality states and the replay cache.\<close>

theorem reachable_invariant:
  assumes "reachable E w"
  shows "node_inv (crypt E) (nodes w a)"
  using assms by (rule reachable_node_inv)

theorem reachable_invariant_witness:
  "\<exists>w :: world. txs (nodes w 0) (replicate 32 3) \<noteq> None \<and> txs (nodes w 0) (replicate 32 4) \<noteq> None
     \<and> node_inv demo_prims (nodes w 0)"
proof -
  obtain w1 w2 where "txs (nodes w2 0) (replicate 32 3) = Some (demo_tx 3)"
    "txs (nodes w2 0) (replicate 32 4) = Some (demo_tx 4)" and r: "reachable demo_env w2"
    using demo_conflict by blast
  moreover have "node_inv demo_prims (nodes w2 0)" using reachable_invariant[OF r, of 0] by simp
  ultimately show ?thesis by (metis option.distinct(1))
qed

lemma Transfer_txs: "Transfer n t = txs n t"
  by (simp add: Transfer_def txs_def)

lemma stored_status: "fin_inv {} n \<Longrightarrow> txs n t = Some x \<Longrightarrow> \<exists>s. FinalityForTransfer n t = Some s"
  unfolding fin_inv_def status_agrees_def FinalityForTransfer_def by blast

lemma SelectedForInput_on: "SelectedForInput n i = selected_on n i"
  by (simp add: SelectedForInput_def selected_on_def)

text \<open>C1: Of two different stored transfers that spend the same input, at most one is SELECTED or FINAL at a node.\<close>

theorem no_double_spend:
  assumes "reachable E w" and "t \<noteq> u"
    and "Transfer (nodes w a) t = Some x" and "Transfer (nodes w a) u = Some y"
    and "i \<in> set (Inputs x)" and "i \<in> set (Inputs y)"
    and "FinalityForTransfer (nodes w a) t = Some s" and "FinalityForTransfer (nodes w a) u = Some r"
  shows "Status s = StatusPending \<or> Status r = StatusPending"
proof -
  have fin: "fin_inv {} (nodes w a)" using reachable_node_inv[OF assms(1)] by (simp add: node_inv_def)
  have "status_agrees (nodes w a) t x" and "status_agrees (nodes w a) u y"
    using fin assms(3,4) by (simp_all add: fin_inv_def Transfer_txs)
  then have "Status s \<noteq> StatusPending \<Longrightarrow> selected_on (nodes w a) i = Some t"
    and "Status r \<noteq> StatusPending \<Longrightarrow> selected_on (nodes w a) i = Some u"
    using assms(5-8) by (auto simp: status_agrees_def selected_everywhere_def FinalityForTransfer_def)
  then show ?thesis using assms(2) by (metis option.inject)
qed

theorem no_double_spend_witness:
  "\<exists>(w :: world) s r. Transfer (nodes w 0) (replicate 32 3) = Some (demo_tx 3)
     \<and> Transfer (nodes w 0) (replicate 32 4) = Some (demo_tx 4)
     \<and> FinalityForTransfer (nodes w 0) (replicate 32 3) = Some s
     \<and> FinalityForTransfer (nodes w 0) (replicate 32 4) = Some r
     \<and> (Status s = StatusPending \<or> Status r = StatusPending)"
proof -
  obtain w1 w2 where t: "txs (nodes w2 0) (replicate 32 3) = Some (demo_tx 3)"
    "txs (nodes w2 0) (replicate 32 4) = Some (demo_tx 4)" and r: "reachable demo_env w2"
    using demo_conflict by blast
  have fin: "fin_inv {} (nodes w2 0)" using reachable_node_inv[OF r, of 0] by (simp add: node_inv_def)
  obtain s q where s: "FinalityForTransfer (nodes w2 0) (replicate 32 3) = Some s"
    "FinalityForTransfer (nodes w2 0) (replicate 32 4) = Some q"
    using stored_status[OF fin t(1)] stored_status[OF fin t(2)] by blast
  have i: "demo_input \<in> set (Inputs (demo_tx n))" for n by (simp add: demo_tx_def)
  have ne: "replicate 32 3 \<noteq> (replicate 32 4 :: hash)" by (simp add: numeral_eq_Suc)
  from no_double_spend[OF r ne _ _ i i s] t have "Status s = StatusPending \<or> Status q = StatusPending"
    by (simp add: Transfer_txs)
  then show ?thesis using t s unfolding Transfer_txs by blast
qed

text \<open>C22: The conflict set of an input lists, once each, exactly the stored transfers that spend it.\<close>

theorem conflict_sets_exact:
  assumes "reachable E w"
  shows "distinct (ConflictSet (nodes w a) i) \<and> set (ConflictSet (nodes w a) i)
     = {t. \<exists>x. Transfer (nodes w a) t = Some x \<and> i \<in> set (Inputs x)}"
  using conf_invD[OF core_invD(2)[OF node_invD(1)[OF reachable_node_inv[OF assms, of a]]]]
  by (auto simp: ConflictSet_def Transfer_txs)

theorem conflict_sets_exact_witness:
  "\<exists>w :: world. {replicate 32 3, replicate 32 4} \<subseteq> set (ConflictSet (nodes w 0) demo_input)"
proof -
  obtain w1 w2 where t: "txs (nodes w2 0) (replicate 32 3) = Some (demo_tx 3)"
    "txs (nodes w2 0) (replicate 32 4) = Some (demo_tx 4)" and r: "reachable demo_env w2"
    using demo_conflict by blast
  have "demo_input \<in> set (Inputs (demo_tx n))" for n by (simp add: demo_tx_def)
  then have "replicate 32 3 \<in> set (ConflictSet (nodes w2 0) demo_input)"
    and "replicate 32 4 \<in> set (ConflictSet (nodes w2 0) demo_input)"
    using conflict_sets_exact[OF r, of 0 demo_input] t by (simp_all add: Transfer_txs)
  then show ?thesis by (intro exI[of _ w2]) simp
qed

text \<open>C23: Every stored transfer is filed under the digest of its content, spends distinct inputs, has outputs with content-based IDs, and carries a signature over its canonical bytes that verifies under a 32-byte key.\<close>

theorem stored_transfers_valid:
  assumes "reachable E w" and "Transfer (nodes w a) t = Some x"
  shows "tID x = t \<and> t = ComputeTransferID (crypt E) x \<and> Inputs x \<noteq> [] \<and> distinct (Inputs x)
     \<and> Outputs x \<noteq> [] \<and> (\<forall>v \<in> set (Outputs x). vID v = ComputeValueID (crypt E) v)
     \<and> (\<exists>owner. length owner = 32 \<and> VerifyCanonicalTransfer (crypt E) owner x (Sig x))"
  using rec_invD(1)[OF core_invD(1)[OF node_invD(1)[OF reachable_node_inv[OF assms(1), of a]]]] assms(2)
  by (simp add: Transfer_txs transfer_wf_def)

theorem stored_transfers_valid_witness:
  "\<exists>owner. length owner = 32 \<and> VerifyCanonicalTransfer demo_prims owner (demo_tx 4) (Sig (demo_tx 4))"
proof -
  obtain w1 w2 where t: "txs (nodes w2 0) (replicate 32 4) = Some (demo_tx 4)" and r: "reachable demo_env w2"
    using demo_conflict by blast
  then show ?thesis using stored_transfers_valid[OF r, of 0] by (simp add: Transfer_txs)
qed

text \<open>An input has a selected transfer exactly when some stored transfer spends it, and the selected one is among those.\<close>

theorem selection_follows_conflicts:
  assumes "reachable E w"
  shows "case SelectedForInput (nodes w a) i of
       None \<Rightarrow> ConflictSet (nodes w a) i = []
     | Some t \<Rightarrow> t \<in> set (ConflictSet (nodes w a) i)"
  using node_invD(2)[OF reachable_node_inv[OF assms, of a]]
  by (auto simp: SelectedForInput_on ConflictSet_def sel_inv_def split: option.split)

theorem selection_follows_conflicts_witness:
  "\<exists>(w :: world) t. SelectedForInput (nodes w 0) demo_input = Some t \<and> t \<in> set (ConflictSet (nodes w 0) demo_input)"
proof -
  obtain w1 w2 where t: "txs (nodes w2 0) (replicate 32 4) = Some (demo_tx 4)" and r: "reachable demo_env w2"
    using demo_conflict by blast
  have "demo_input \<in> set (Inputs (demo_tx 4))" by (simp add: demo_tx_def)
  then have "cset (nodes w2 0) demo_input \<noteq> []"
    using conf_invD(1)[OF core_invD(2)[OF node_invD(1)[OF reachable_node_inv[OF r, of 0]]]] t
    by (metis empty_iff list.set(1))
  then show ?thesis using selection_follows_conflicts[OF r, of 0 demo_input]
    by (auto simp: ConflictSet_def split: option.splits)
qed

text \<open>C24: Every stored transfer has a finality state, and its status is other than PENDING exactly when the transfer is the selected one on all of its inputs.\<close>

theorem status_tells_selection:
  assumes "reachable E w" and "Transfer (nodes w a) t = Some x"
  shows "\<exists>s. FinalityForTransfer (nodes w a) t = Some s
     \<and> Status s \<in> {StatusPending, StatusSelected, StatusFinal}
     \<and> (Status s \<noteq> StatusPending) = (\<forall>i \<in> set (Inputs x). SelectedForInput (nodes w a) i = Some t)"
  using node_invD(3)[OF reachable_node_inv[OF assms(1), of a]] assms(2)
  unfolding fin_inv_def status_agrees_def selected_everywhere_def Transfer_txs SelectedForInput_on
    FinalityForTransfer_def by blast

theorem status_tells_selection_witness:
  "\<exists>(w :: world) s. FinalityForTransfer (nodes w 0) (replicate 32 4) = Some s
     \<and> (Status s \<noteq> StatusPending) = (SelectedForInput (nodes w 0) demo_input = Some (replicate 32 4))"
proof -
  obtain w1 w2 where t: "txs (nodes w2 0) (replicate 32 4) = Some (demo_tx 4)" and r: "reachable demo_env w2"
    using demo_conflict by blast
  have i: "set (Inputs (demo_tx 4)) = {demo_input}" by (simp add: demo_tx_def)
  from status_tells_selection[OF r, of 0 "replicate 32 4" "demo_tx 4"] t show ?thesis
    unfolding Transfer_txs i by blast
qed

text \<open>C21: In every reachable state the stores of a node are typed: every hash in them, as a key or inside a transfer, a conflict set, a selection or a proof, has 32 bytes (if the digests have), every conflict set has a member, the seen count of a record is the number of its peers, and every status is one of the three constants.\<close>

theorem stores_typed:
  assumes "\<And>b. length (Sum256 (crypt E) b) = 32" and "reachable E w"
  shows "node_typed (nodes w a)"
  using assms by (rule reachable_typed)

theorem stores_typed_witness:
  "\<exists>w :: world. node_typed (nodes w 0) \<and> Transfer (nodes w 0) (replicate 32 4) = Some (demo_tx 4)"
proof -
  obtain w1 w2 where t: "txs (nodes w2 0) (replicate 32 4) = Some (demo_tx 4)" and r: "reachable demo_env w2"
    using demo_conflict by blast
  have "node_typed (nodes w2 0)" by (rule stores_typed[OF _ r]) (simp add: demo_prims_def)
  then show ?thesis using t by (auto simp: Transfer_txs)
qed

section \<open>Runs\<close>

text \<open>C25: A stored transfer stays stored, unchanged, whatever the network does afterwards: conflicting transfers are kept side by side.\<close>

theorem transfers_never_lost:
  assumes "reachable E w" and "run E evs w = Some v" and "Transfer (nodes w a) t = Some x"
  shows "Transfer (nodes v a) t = Some x"
  using run_keeps[OF assms(2) reachable_world_inv[OF assms(1)], of a] assms(3)
  by (simp add: keeps_def Transfer_txs)

theorem transfers_never_lost_witness:
  "\<exists>w v. run demo_env [(1, Receive 0 ''c'' demo_msg)] w = Some v
     \<and> Transfer (nodes v 0) (replicate 32 3) = Some (demo_tx 3)
     \<and> Transfer (nodes w 0) (replicate 32 4) \<noteq> Transfer (nodes v 0) (replicate 32 4)"
proof -
  obtain w1 w2 where o: "OnMessage demo_env 1 w1 0 ''c'' demo_msg = Some (w2, Inr ())"
    and t1: "txs (nodes w1 0) (replicate 32 3) = Some (demo_tx 3)" "txs (nodes w1 0) (replicate 32 4) = None"
    and t2: "txs (nodes w2 0) (replicate 32 4) = Some (demo_tx 4)"
    and r: "reachable demo_env w1" using demo_conflict by blast
  have run: "run demo_env [(1, Receive 0 ''c'' demo_msg)] w1 = Some w2" using o by simp
  have "Transfer (nodes w2 0) (replicate 32 3) = Some (demo_tx 3)"
    by (rule transfers_never_lost[OF r run]) (simp add: Transfer_txs t1)
  then show ?thesis using run t1(2) t2 by (metis Transfer_txs option.distinct(1))
qed

text \<open>C3: Once a node has accepted a transfer submitted to it, it rejects every later submission that spends one of the same inputs, without any change of state.\<close>

theorem local_double_spend_rejected:
  assumes "reachable E w" and "AcceptLocalTransfer E k w a x = Some (w1, Inr ())"
    and "run E evs w1 = Some w2" and "set (Inputs x) \<inter> set (Inputs y) \<noteq> {}"
  shows "\<exists>e. AcceptLocalTransfer E l w2 a y = Some (w2, Inl e)"
proof -
  have inv: "world_inv E w" by (rule reachable_world_inv[OF assms(1)])
  obtain tk where "ConsumeInputs (inputTracker (nodes w a)) (Inputs x) = Inr tk"
    using AcceptLocal_ok(2)[OF assms(2)] by blast
  from AcceptLocal_stores(2)[OF inv AcceptLocal_ok(1)[OF assms(2)] this assms(2)]
  have "set (Inputs x) \<subseteq> consumed_set (inputTracker (nodes w1 a))" .
  moreover have "world_inv E w1" using AcceptLocal_keeps[OF assms(2) inv] by simp
  then have "keeps (nodes w1 a) (nodes w2 a)" by (rule run_keeps[OF assms(3)])
  ultimately have "set (Inputs y) \<inter> consumed_set (inputTracker (nodes w2 a)) \<noteq> {}"
    using assms(4) by (auto simp: keeps_def)
  then show ?thesis using ConsumeInputs_spent by (intro AcceptLocal_rejected) simp
qed

theorem local_double_spend_rejected_witness:
  "\<exists>w1 e. AcceptLocalTransfer demo_env 1 demo_alone 0 (demo_tx 3) = Some (w1, Inr ())
     \<and> AcceptLocalTransfer demo_env 1 w1 0 (demo_tx 4) = Some (w1, Inl e)"
proof -
  obtain w1 w2 where o: "AcceptLocalTransfer demo_env 1 demo_alone 0 (demo_tx 3) = Some (w1, Inr ())"
    using demo_conflict by blast
  have "run demo_env [] w1 = Some w1" and "set (Inputs (demo_tx 3)) \<inter> set (Inputs (demo_tx 4)) \<noteq> {}"
    by (simp_all add: demo_tx_def)
  from local_double_spend_rejected[OF demo_reachable(2) o this] o show ?thesis by blast
qed

text \<open>C5: The handling of any message by a node of a finite network ends, whatever the message, the state of the nodes and the order of their peers: three nested calls per node, and three more, are enough, and its result is the same for every larger nesting.\<close>

theorem message_handling_ends:
  assumes "net_ok E A w" and "a \<in> A"
  shows "\<exists>w' r. \<forall>k \<ge> 3 * card A + 3. OnMessage E k w a from msg = Some (w', r)"
proof -
  obtain w' r where "OnMessage E (3 * card A + 3) w a from msg = Some (w', r)"
    using OnMessage_enough[OF assms order_refl, of "from" msg] by fastforce
  then show ?thesis using OnMessage_fuel by blast
qed

theorem message_handling_ends_witness:
  "\<exists>w' r. \<forall>k \<ge> 9. OnMessage demo_env k demo_pair 1 ''a'' (NewINVMessage (replicate 16 8) 100 30 (replicate 32 3)) = Some (w', r)"
  using message_handling_ends[OF demo_net_ok, of 1 "''a''" "NewINVMessage (replicate 16 8) 100 30 (replicate 32 3)"]
  by simp

text \<open>A submitted transfer that fits the wire format is handled to the end as well, with the announcements to all peers and everything they set off.\<close>

theorem submission_ends:
  assumes "net_ok E A w" and "a \<in> A" and "wire_ok (crypt E) x" and "3 * card A + 3 \<le> k"
  shows "\<exists>w' r. AcceptLocalTransfer E k w a x = Some (w', r)"
  using AcceptLocal_enough[OF assms] by fastforce

theorem submission_ends_witness:
  "\<exists>w' r. AcceptLocalTransfer demo_env 9 demo_pair 0 (demo_tx 3) = Some (w', r)"
  by (rule submission_ends[OF demo_net_ok]) (use demo_wire in simp_all)

text \<open>The fuel of the model decides only whether a call is followed to its end: a result, once reached, is the same with any more fuel.\<close>

theorem fuel_decides_nothing:
  assumes "k \<le> l" and "OnMessage E k w a from msg = Some z"
  shows "OnMessage E l w a from msg = Some z"
  using assms by (rule OnMessage_fuel)

theorem fuel_decides_nothing_witness:
  "\<exists>w1 w2. OnMessage demo_env 7 w1 0 ''c'' demo_msg = Some (w2, Inr ()) \<and> hasTransfer (nodes w2 0) (replicate 32 4)"
proof -
  obtain w1 w2 where o: "OnMessage demo_env 1 w1 0 ''c'' demo_msg = Some (w2, Inr ())"
    and t: "txs (nodes w2 0) (replicate 32 4) = Some (demo_tx 4)" using demo_conflict by blast
  have "OnMessage demo_env 7 w1 0 ''c'' demo_msg = Some (w2, Inr ())"
    by (rule fuel_decides_nothing[OF _ o]) simp
  then show ?thesis using t by (metis txs_hasTransfer option.distinct(1))
qed

text \<open>C28: No message makes a reachable node panic, as long as the send functions given to the nodes do not: its handling never reads a slice out of bounds and never dereferences a missing record.\<close>

theorem handlers_never_panic:
  assumes "reachable E w"
    and "\<And>b f p m e. sender (nodes w b) = Some f \<Longrightarrow> f p m = Some e \<Longrightarrow> e \<noteq> PanicSliceBounds \<and> e \<noteq> PanicNilDeref"
    and "OnMessage E k w a from msg = Some (w', r)"
  shows "r \<noteq> Inl PanicSliceBounds \<and> r \<noteq> Inl PanicNilDeref"
proof -
  have "safe E w"
    using reachable_world_inv[OF assms(1)] assms(2) unfolding safe_def is_panic_def by blast
  then show ?thesis using OnMessage_safe[of E w k a "from" msg w'] assms(3)
    by (cases r) (auto simp: is_panic_def)
qed

theorem handlers_never_panic_witness:
  "\<exists>w' r. OnMessage demo_env 9 demo_pair 1 ''a''
       \<lparr>MessageID = replicate 16 8, mTimestamp = 0, TTL = 0, mType = TX, Payload = [0, 0, 0, 9]\<rparr> = Some (w', r)
     \<and> r \<noteq> Inl PanicSliceBounds \<and> r \<noteq> Inl PanicNilDeref"
proof -
  let ?m = "\<lparr>MessageID = replicate 16 8, mTimestamp = 0, TTL = 0, mType = TX, Payload = [0, 0, 0, 9]\<rparr>"
  have "OnMessage demo_env 9 demo_pair 1 ''a'' ?m \<noteq> None"
    by (rule OnMessage_enough[OF demo_net_ok]) simp_all
  then obtain w' r where o: "OnMessage demo_env 9 demo_pair 1 ''a'' ?m = Some (w', r)" by fastforce
  have "sender (nodes demo_pair b) = None" for b
    by (simp add: demo_pair_def demo_start_def demo_seeded_def NewNode_def)
  then have "r \<noteq> Inl PanicSliceBounds \<and> r \<noteq> Inl PanicNilDeref"
    by (intro handlers_never_panic[OF demo_reachable(1) _ o]) simp
  then show ?thesis using o by blast
qed

section \<open>Gossip\<close>

text \<open>C7: One submission reaches the whole network: if the nodes know each other in both directions, all find the transfer valid and have nothing under its identifier, and the random identifiers of the call are distinct and new, the call ends without error and every node that can be reached from the origin, over any number of hops, has stored the transfer; no other transfer is added or changed at any node. Three messages for each entry of a peer table are enough.\<close>

theorem gossip_reaches_everyone:
  assumes "net_ok E A w" and "meshed A w" and "a \<in> A"
    and "\<And>b. b \<in> A \<Longrightarrow> validateTransfer (crypt E) (nodes w b) (normalizeTransfer (crypt E) x) = Inr ()"
    and "\<And>b. b \<in> A \<Longrightarrow> Transfer (nodes w b) (ComputeTransferID (crypt E) x) = None"
    and "ConsumeInputs (inputTracker (nodes w a)) (Inputs x) = Inr tracker"
    and "wire_ok (crypt E) x" and "length (ComputeTransferID (crypt E) x) = 32"
    and "\<And>i. i \<in> set (Inputs x) \<Longrightarrow> i \<notin> ComputeValueID (crypt E) ` set (Outputs x)"
    and "s = rng w + (\<Sum>b \<in> A. 3 * length (peers (nodes w b)))" and "inj_on (randID E) {..<s}"
    and "\<And>b i. b \<in> A \<Longrightarrow> rng w \<le> i \<Longrightarrow> i < s \<Longrightarrow> \<not> IsSeen (replayCache (nodes w b)) (randID E i)"
    and "3 * card A + 3 \<le> k"
  shows "\<exists>w'. AcceptLocalTransfer E k w a x = Some (w', Inr ())
     \<and> (\<forall>b. (link w)\<^sup>*\<^sup>* a b \<longrightarrow> hasTransfer (nodes w' b) (ComputeTransferID (crypt E) x))
     \<and> (\<forall>b u. u \<noteq> ComputeTransferID (crypt E) x \<longrightarrow> Transfer (nodes w' b) u = Transfer (nodes w b) u)"
proof -
  obtain w' r where o: "AcceptLocalTransfer E k w a x = Some (w', r)"
    using AcceptLocal_enough[OF assms(1,3,7,13)] by fastforce
  have none: "\<not> has E x w b" if "b \<in> A" for b using assms(5)[OF that] by (simp add: has_def Transfer_txs)
  have "floodable E A x s" using assms(1,7,8,9,11) by (simp add: floodable_def old_inputs_def net_ok_def)
  moreover have "ready E A x s (rng w) w"
    using assms(1,2,4,5,12) by (auto simp: ready_def primed_def unseen_def net_ok_def Transfer_txs)
  moreover have "rng w + owed E A x w \<le> s" using none assms(10) by (simp add: owed_def)
  ultimately have "r = Inr ()" and f: "flooded E A x s a tracker w w'"
    using flood[OF _ assms(3) _ none _ assms(6) o] by blast+
  moreover have "hasTransfer (nodes w' b) (ComputeTransferID (crypt E) x)" if "(link w)\<^sup>*\<^sup>* a b" for b
    using f that by (simp add: flooded_def has_def txs_hasTransfer)
  ultimately show ?thesis using o flooded_txs(1)[OF f] by (auto simp: Transfer_txs)
qed

text \<open>In the line of three nodes the transfer gets from one end to the other.\<close>

theorem gossip_reaches_everyone_witness:
  "\<exists>w'. AcceptLocalTransfer demo_env 12 demo_line 0 (demo_tx 3) = Some (w', Inr ()) \<and> hasTransfer (nodes w' 2) (replicate 32 3)"
proof -
  have id: "nodeID (nodes demo_line 0) = ''a''" "nodeID (nodes demo_line 1) = ''b''" "nodeID (nodes demo_line 2) = ''c''"
    and se: "sender (nodes demo_line 0) = None" "sender (nodes demo_line 1) = None" "sender (nodes demo_line 2) = None"
    and pe: "peers (nodes demo_line 0) = [(''b'', Some 1)]" "peers (nodes demo_line 1) = [(''a'', Some 0), (''c'', Some 2)]"
      "peers (nodes demo_line 2) = [(''b'', Some 1)]"
    by (simp_all add: demo_line_nodes demo_line_nodes(2)[unfolded One_nat_def] demo_seeded_def NewNode_def)
  have l: "link demo_line 0 1" "link demo_line 1 0" "link demo_line 1 2" "link demo_line 2 1"
    using id se pe by (simp_all add: link_def)
  have "meshed {0, 1, 2} demo_line" using id se pe l by (auto simp: meshed_def split: if_splits)
  moreover have "ConsumeInputs (inputTracker (nodes demo_line 0)) (Inputs (demo_tx 3)) = Inr \<lparr>consumed = [(demo_input, ())]\<rparr>"
    by (simp add: demo_line_nodes demo_seeded_def NewNode_def demo_tx_def ConsumeInputs_def IsConsumed_def NewInputTracker_def)
  moreover have "i \<notin> ComputeValueID (crypt demo_env) ` set (Outputs (demo_tx 3))" if "i \<in> set (Inputs (demo_tx 3))" for i
    using that demo_output_ids(1) by (simp add: demo_tx_def)
  moreover have "12 = rng demo_line + (\<Sum>b \<in> {0, 1, 2}. 3 * length (peers (nodes demo_line b)))"
    using pe by (simp add: demo_line_nodes(4))
  moreover have "inj_on (randID demo_env) {..<12}"
  proof -
    have "{..<12 :: nat} = {0, 1, 2, 3, 4, 5, 6, 7, 8, 9, 10, 11}" by (auto simp: lessThan_nat_numeral lessThan_Suc)
    then show ?thesis by (simp add: demo_env_def)
  qed
  moreover have "\<not> IsSeen (replayCache (nodes demo_line b)) i" for b i
    by (simp add: demo_line_ok IsSeen_def newReplayCacheWithClock_def)
  ultimately obtain w' where "AcceptLocalTransfer demo_env 12 demo_line 0 (demo_tx 3) = Some (w', Inr ())"
    and all: "\<And>b. (link demo_line)\<^sup>*\<^sup>* 0 b \<Longrightarrow> hasTransfer (nodes w' b) (ComputeTransferID (crypt demo_env) (demo_tx 3))"
    using gossip_reaches_everyone[OF demo_line_ok(1), of 0 "demo_tx 3" _ 12 12] demo_line_ok demo_wire(1) demo_ids(1)
      demo_normal(1) unfolding demo_env_simps by (auto simp: Transfer_txs)
  moreover have "(link demo_line)\<^sup>*\<^sup>* 0 2" using l(1,3) by (meson converse_rtranclp_into_rtranclp rtranclp.rtrancl_refl)
  ultimately show ?thesis using demo_ids(1) by force
qed

text \<open>A transfer submitted to a node reaches its peer within the call: if both nodes find it valid, know each other by name, and the random identifiers of the three messages are new to their receivers, the peer has stored it when the call returns, whatever the call's own result.\<close>

theorem submission_reaches_peer:
  assumes "reachable E w" and "a \<noteq> b" and "link w a b" and "link w b a"
    and "peers (nodes w a) = [(nodeID (nodes w b), Some b)]" and "nodeID (nodes w b) \<noteq> []"
    and "fresh_exchange E w a b"
    and "wire_ok (crypt E) x" and "length (ComputeTransferID (crypt E) x) = 32"
    and "Transfer (nodes w a) (ComputeTransferID (crypt E) x) = None"
    and "validateTransfer (crypt E) (nodes w a) (normalizeTransfer (crypt E) x) = Inr ()"
    and "validateTransfer (crypt E) (nodes w b) (normalizeTransfer (crypt E) x) = Inr ()"
    and "ConsumeInputs (inputTracker (nodes w a)) (Inputs x) = Inr tracker"
    and "AcceptLocalTransfer E k w a x = Some (w', r)"
  shows "hasTransfer (nodes w' b) (ComputeTransferID (crypt E) x)"
  unfolding txs_hasTransfer
  by (rule AcceptLocal_propagates[OF reachable_world_inv[OF assms(1)] assms(2-9) _ assms(11-14)])
    (use assms(10) in \<open>simp add: Transfer_txs\<close>)

theorem submission_reaches_peer_witness:
  "\<exists>w' r. AcceptLocalTransfer demo_env 9 demo_pair 0 (demo_tx 3) = Some (w', r)
     \<and> hasTransfer (nodes w' 1) (replicate 32 3)"
proof -
  have "AcceptLocalTransfer demo_env 9 demo_pair 0 (demo_tx 3) \<noteq> None"
    by (rule AcceptLocal_enough[OF demo_net_ok]) (use demo_wire in simp_all)
  then obtain w' r where o: "AcceptLocalTransfer demo_env 9 demo_pair 0 (demo_tx 3) = Some (w', r)" by fastforce
  have l: "link demo_pair 0 1" "link demo_pair 1 0"
    "peers (nodes demo_pair 0) = [(nodeID (nodes demo_pair 1), Some 1)]" "nodeID (nodes demo_pair 1) \<noteq> []"
    by (simp_all add: link_def demo_nodes demo_seeded_def NewNode_def)
  have f: "fresh_exchange demo_env demo_pair 0 1"
    by (simp add: fresh_exchange_def demo_nodes demo_seeded_def NewNode_def IsSeen_def
        newReplayCacheWithClock_def) (simp add: demo_env_def)
  have t: "length (ComputeTransferID (crypt demo_env) (demo_tx 3)) = 32" by (simp add: demo_ids)
  have new: "Transfer (nodes demo_pair 0) (ComputeTransferID (crypt demo_env) (demo_tx 3)) = None"
    by (simp add: Transfer_def demo_nodes demo_seeded_def NewNode_def)
  have v: "validateTransfer (crypt demo_env) (nodes demo_pair a) (normalizeTransfer (crypt demo_env) (demo_tx 3)) = Inr ()"
    if "a \<in> {0, 1}" for a using demo_pair_valid[OF that] by (simp add: demo_normal)
  have wire: "wire_ok (crypt demo_env) (demo_tx 3)" using demo_wire by simp
  have "hasTransfer (nodes w' 1) (ComputeTransferID (crypt demo_env) (demo_tx 3))"
    by (rule submission_reaches_peer[OF demo_reachable(1) _ l f wire t new v v demo_spendable o]) simp_all
  then show ?thesis using o by (auto simp: demo_ids)
qed

text \<open>C26: A message already handled is dropped when it comes again, from whatever peer and with whatever content, as long as the clock of the node stays before the time at which the first delivery's mark expires; only the replay cache is pruned.\<close>

theorem replayed_message_dropped:
  assumes "reachable E w" and "\<not> IsSeen (replayCache (nodes w a)) (MessageID msg)"
    and "sint (clock (nodes w a)) < T" and "lasts T (mark_expiry (replayCache (nodes w a)))"
    and "OnMessage E k w a from msg = Some (w1, r)"
    and "run E evs w1 = Some w2" and "\<forall>(j, ev) \<in> set evs. quiet T a ev"
    and "MessageID msg' = MessageID msg"
  shows "OnMessage E (Suc l) w2 a from' msg' = Some (put w2 a ((nodes w2 a)
     \<lparr>replayCache := PruneExpired (replayCache (nodes w2 a)) (clock (nodes w2 a))\<rparr>), Inr ())"
proof -
  have inv: "world_inv E w" by (rule reachable_world_inv[OF assms(1)])
  have "remembers T (nodes w1 a) (MessageID msg)" by (rule OnMessage_remembers[OF inv assms(2-5)])
  moreover have "world_inv E w1" using OnMessage_keeps[OF assms(5) inv] by simp
  ultimately have "remembers T (nodes w2 a) (MessageID msg')"
    using run_remembers[OF assms(6)] assms(7,8) by simp
  then show ?thesis by (rule remembered_dropped)
qed

theorem replayed_message_dropped_witness:
  "\<exists>w1 w2 w3. OnMessage demo_env 1 w1 0 ''c'' demo_msg = Some (w2, Inr ())
     \<and> OnMessage demo_env 1 w2 0 ''d'' demo_msg = Some (w3, Inr ()) \<and> rng w3 = rng w2"
proof -
  obtain w1 w2 where o: "OnMessage demo_env 1 w1 0 ''c'' demo_msg = Some (w2, Inr ())"
    and c: "replayCache (nodes w1 0) = newReplayCacheWithClock 60 100" "clock (nodes w1 0) = 100"
    and r: "reachable demo_env w1" using demo_conflict by blast
  have 1: "\<not> IsSeen (replayCache (nodes w1 0)) (MessageID demo_msg)"
    by (simp add: c IsSeen_def newReplayCacheWithClock_def)
  have 2: "sint (clock (nodes w1 0)) < 160" by (simp add: c)
  have 3: "lasts 160 (mark_expiry (replayCache (nodes w1 0)))"
    by (simp add: c lasts_def mark_expiry_def newReplayCacheWithClock_def)
  from replayed_message_dropped[OF r 1 2 3 o, of "[]" w2 demo_msg 0 "''d''"] o
  show ?thesis by (intro exI[of _ w1] exI[of _ w2] exI) (rule conjI, assumption, rule conjI, simp, simp)
qed

text \<open>C27: A TX message that does not decode, or whose transfer does not validate, is answered with that error and leaves the node as it was, but for the identifier remembered in the replay cache; nothing is sent.\<close>

theorem invalid_transfer_leaves_no_trace:
  assumes "reachable E w" and "\<not> IsSeen (replayCache (nodes w a)) (MessageID msg)" and "mType msg = TX"
    and "bindE (tx_of (crypt E) msg) (\<lambda>x. validateTransfer (crypt E) (nodes w a)
       (normalizeTransfer (crypt E) x)) = Inl e"
  shows "\<exists>c. OnMessage E (Suc k) w a from msg = Some (put w a ((nodes w a)\<lparr>replayCache := c\<rparr>), Inl e)"
  by (rule TX_rejected[OF node_invD(4)[OF reachable_node_inv[OF assms(1)]] assms(2-4)])

theorem invalid_transfer_leaves_no_trace_witness:
  "\<exists>c. OnMessage demo_env 1 demo_start 0 ''c'' demo_msg
     = Some (put demo_start 0 ((nodes demo_start 0)\<lparr>replayCache := c\<rparr>), Inl (UnknownInput demo_input))"
proof -
  have r: "reachable demo_env demo_start"
    using demo_initial unfolding reachable_def by (metis run.simps(1))
  have n: "nodes demo_start 0 = NewNode ''a'' 100" by (simp add: demo_start_def)
  have "\<not> IsSeen (replayCache (nodes demo_start 0)) (MessageID demo_msg)"
    by (simp add: n NewNode_def IsSeen_def newReplayCacheWithClock_def)
  moreover have "mType demo_msg = TX" by (simp add: demo_msg_def new_message_defs)
  moreover have "validateTransfer demo_prims (NewNode ''a'' 100) (demo_tx 4) = Inl (UnknownInput demo_input)"
    by (simp add: validateTransfer_def demo_tx_def demo_value_def resolveSigner_def NewNode_def)
  then have "bindE (tx_of (crypt demo_env) demo_msg) (\<lambda>x. validateTransfer (crypt demo_env) (nodes demo_start 0)
      (normalizeTransfer (crypt demo_env) x)) = Inl (UnknownInput demo_input)"
    by (simp add: demo_tx_of demo_normal n)
  ultimately have "\<exists>c. OnMessage demo_env (Suc 0) demo_start 0 ''c'' demo_msg
     = Some (put demo_start 0 ((nodes demo_start 0)\<lparr>replayCache := c\<rparr>), Inl (UnknownInput demo_input))"
    by (rule invalid_transfer_leaves_no_trace[OF r])
  then show ?thesis by simp
qed

text \<open>C6: The handlers implement the abstract node: everything a message sets off is a sequence of the steps \<open>wstep\<close> allows, in which a transfer enters a store only validated and with its canonical bytes, and no input is ever marked as spent.\<close>

theorem handlers_refine_steps:
  assumes "OnMessage E k w a from msg = Some (w', r)"
  shows "(wstep E)\<^sup>*\<^sup>* w w'"
  using assms by (rule OnMessage_steps)

theorem handlers_refine_steps_witness:
  "\<exists>w1 w2. (wstep demo_env)\<^sup>*\<^sup>* w1 w2 \<and> \<not> hasTransfer (nodes w1 0) (replicate 32 4)
     \<and> hasTransfer (nodes w2 0) (replicate 32 4)"
proof -
  obtain w1 w2 where o: "OnMessage demo_env 1 w1 0 ''c'' demo_msg = Some (w2, Inr ())"
    and "txs (nodes w1 0) (replicate 32 4) = None" "txs (nodes w2 0) (replicate 32 4) = Some (demo_tx 4)"
    using demo_conflict by blast
  then show ?thesis using handlers_refine_steps[OF o] by (metis txs_hasTransfer option.distinct(1))
qed

end
