(* ===== verification/Selection_Properties.thy ===== *)
theory Selection_Properties
  imports Scenario
begin

text \<open>
  The properties of selection and finality: which transfer is chosen for an input, the ranges of
  the scores, what makes a transfer FINAL, where the order of map iteration shows, and the amount
  tiers.
\<close>

section \<open>A node with two conflicting transfers\<close>

definition demo_record :: "uint64 \<Rightarrow> int64 \<Rightarrow> tx_record" where
  "demo_record n s = \<lparr>Tx = demo_tx n, Canonical = EncodeTransfer (demo_tx n), FirstSeen = 90, ArrivalSeq = s,
     SeenCount = 0, Peers = []\<rparr>"

definition demo_two :: node where
  "demo_two = (NewNode ''a'' 100)\<lparr>
     txStore := [(replicate 32 3, demo_record 3 1), (replicate 32 4, demo_record 4 2)],
     conflictSets := [(demo_input, [replicate 32 3, replicate 32 4])]\<rparr>"

lemma demo_two_txs: "txs demo_two = [replicate 32 3 \<mapsto> demo_tx 3, replicate 32 4 \<mapsto> demo_tx 4]"
  by (auto simp: txs_def demo_two_def demo_record_def NewNode_def fun_eq_iff)

lemma demo_two_cset: "cset demo_two i = (if i = demo_input then [replicate 32 3, replicate 32 4] else [])"
  by (simp add: demo_two_def mget0_def)

lemma demo_two_conf: "conf_inv demo_two"
proof -
  have "Inputs (demo_tx n) = [demo_input]" for n by (simp add: demo_tx_def)
  moreover have "replicate 32 3 \<noteq> (replicate 32 4 :: hash)" by (simp add: numeral_eq_Suc)
  ultimately show ?thesis unfolding conf_inv_def demo_two_cset demo_two_txs by auto
qed

lemma demo_two_sizes: "sizes_ok demo_two t"
  by (simp add: sizes_ok_def few_def demo_two_def NewNode_def)

lemma demo_two_candidates: "candidates_ok demo_two i"
  by (simp add: candidates_ok_def demo_two_cset demo_two_sizes few_def)

section \<open>Choice\<close>

text \<open>C4: For an input with candidates the selection returns one of them, and no candidate is better than it in the order of score, arrival, propagation, age, neighbourhood and identifier.\<close>

theorem selection_is_best:
  assumes "log_ok E" and "order_ok E" and "conf_inv n" and "candidates_ok n i" and "ConflictSet n i \<noteq> []"
  shows "\<exists>ranked b. rankByArrival n (ConflictSet n i) = Inr ranked \<and> mset ranked = mset (ConflictSet n i)
     \<and> selectBest E n i (ConflictSet n i) = Inr b \<and> sbTxID b \<in> set (ConflictSet n i)
     \<and> (\<forall>k < length ranked. \<not> betterScore (scoreTx E n i ranked k) b)"
proof -
  have ne: "cset n i \<noteq> []" using assms(5) by (simp add: ConflictSet_def)
  obtain rs b where "rankByArrival n (cset n i) = Inr rs" and "mset rs = mset (cset n i)"
    and "selectBest E n i (cset n i) = Inr b" and "sbTxID b \<in> set (cset n i)"
    and "pick.maximal_in (all_scores E n i rs) b"
    by (rule selectBest_best[OF assms(1-3) ne assms(4)])
  then show ?thesis by (auto simp: ConflictSet_def pick.maximal_in_def all_scores_def)
qed

theorem selection_is_best_witness:
  "\<exists>b. selectBest demo_env demo_two demo_input [replicate 32 3, replicate 32 4] = Inr b
     \<and> sbTxID b \<in> {replicate 32 3, replicate 32 4}"
proof -
  have c: "ConflictSet demo_two demo_input = [replicate 32 3, replicate 32 4]"
    by (simp add: ConflictSet_def demo_two_cset)
  have "ConflictSet demo_two demo_input \<noteq> []" by (simp add: c)
  from selection_is_best[OF demo_log_ok demo_order_ok demo_two_conf demo_two_candidates this]
  show ?thesis unfolding c by auto
qed

text \<open>The choice does not depend on the order in which the candidates are listed.\<close>

theorem selection_ignores_listing:
  assumes "mset ts = mset us"
  shows "selectBest E n i ts = selectBest E n i us"
  using assms by (rule selectBest_mset)

theorem selection_ignores_listing_witness:
  "selectBest demo_env demo_two demo_input [replicate 32 3, replicate 32 4]
     = selectBest demo_env demo_two demo_input [replicate 32 4, replicate 32 3]"
  by (rule selection_ignores_listing) simp

text \<open>C34: If all proofs that count come from distance 0 or 1, the choice is the same whatever order Go visits the proofs in.\<close>

theorem selection_ignores_proof_order:
  assumes "order_ok E" and "order_ok F" and "mathLog E = mathLog F" and "ConflictSet n i \<noteq> []"
    and "candidates_ok n i" and "\<forall>t \<in> set (ConflictSet n i). near n t"
  shows "selectBest E n i (ConflictSet n i) = selectBest F n i (ConflictSet n i)"
  using selectBest_order_free[OF assms(1-3)] assms(4-6) by (simp add: ConflictSet_def)

definition reversed :: "env \<Rightarrow> env" where
  "reversed E = E\<lparr>proofOrder := (\<lambda>t m. rev (proofOrder E t m))\<rparr>"

lemma reversed_ok: "order_ok E \<Longrightarrow> order_ok (reversed E)"
  by (simp add: order_ok_def reversed_def)

theorem selection_ignores_proof_order_witness:
  "selectBest demo_env demo_two demo_input [replicate 32 3, replicate 32 4]
     = selectBest (reversed demo_env) demo_two demo_input [replicate 32 3, replicate 32 4]"
proof -
  have c: "ConflictSet demo_two demo_input = [replicate 32 3, replicate 32 4]"
    by (simp add: ConflictSet_def demo_two_cset)
  have "near demo_two t" for t by (simp add: near_def demo_two_def NewNode_def)
  then show ?thesis
    using selection_ignores_proof_order[OF demo_order_ok reversed_ok[OF demo_order_ok] _ _ demo_two_candidates,
      of demo_input]
    by (simp add: c reversed_def)
qed

text \<open>
  Two orders Go may visit the proofs of a transfer in: the ones that claim to be nearest first, and
  the reverse. With one proof from distance 0 or 1 and three from distance 2 the sums are
  \<open>1 + 0.6 + 0.6 + 0.6\<close> and \<open>0.6 + 0.6 + 0.6 + 1\<close>, which differ in the last place.
\<close>

definition nearest_first :: "env \<Rightarrow> env" where
  "nearest_first E = E\<lparr>proofOrder := (\<lambda>t m. sort_key (prDistance \<circ> prod.snd) m)\<rparr>"

lemma nearest_first_ok: "order_ok (nearest_first E)"
  by (simp add: order_ok_def nearest_first_def)

definition weight_of :: "int64 list \<Rightarrow> f64" where
  "weight_of ds = fold (\<lambda>d w. fadd w (distanceWeight d)) ds (f64_const 0)"

lemma weights_differ:
  assumes "d = 0 \<or> d = 1"
  shows "weight_of [d, 2, 2, 2] \<noteq> weight_of [2, 2, 2, d]"
    and "fdiv (weight_of [d, 2, 2, 2]) (fadd (weight_of [d, 2, 2, 2]) proofSmoothing)
       \<noteq> fdiv (weight_of [2, 2, 2, d]) (fadd (weight_of [2, 2, 2, d]) proofSmoothing)"
proof -
  have "weight_of [0, 2, 2, 2] \<noteq> weight_of [2, 2, 2, 0]" by code_simp
  moreover have "fdiv (weight_of [0, 2, 2, 2]) (fadd (weight_of [0, 2, 2, 2]) proofSmoothing)
       \<noteq> fdiv (weight_of [2, 2, 2, 0]) (fadd (weight_of [2, 2, 2, 0]) proofSmoothing)" by code_simp
  moreover have "distanceWeight d = distanceWeight 0" using assms by (auto simp: distanceWeight_def)
  then have "weight_of [d, 2, 2, 2] = weight_of [0, 2, 2, 2]" "weight_of [2, 2, 2, d] = weight_of [2, 2, 2, 0]"
    by (simp_all add: weight_of_def)
  ultimately show "weight_of [d, 2, 2, 2] \<noteq> weight_of [2, 2, 2, d]"
    and "fdiv (weight_of [d, 2, 2, 2]) (fadd (weight_of [d, 2, 2, 2]) proofSmoothing)
       \<noteq> fdiv (weight_of [2, 2, 2, d]) (fadd (weight_of [2, 2, 2, d]) proofSmoothing)" by simp_all
qed

lemma proofWeight_orders:
  assumes "mset (counted (mget0 (proofStore n) t)) = {#d, 2, 2, 2#}" and "d = 0 \<or> d = 1"
  shows "proofWeight (nearest_first E) n t = weight_of [d, 2, 2, 2]"
    and "proofWeight (reversed (nearest_first E)) n t = weight_of [2, 2, 2, d]"
proof -
  have "sort (counted (mget0 (proofStore n) t)) = [d, 2, 2, 2]"
    by (rule properties_for_sort) (use assms in auto)
  then show "proofWeight (nearest_first E) n t = weight_of [d, 2, 2, 2]"
    and "proofWeight (reversed (nearest_first E)) n t = weight_of [2, 2, 2, d]"
    by (simp_all add: proofWeight_def proofWeight_loop_fold weight_of_def nearest_first_def reversed_def
        counted_rev counted_sort)
qed

text \<open>C35: When proofs come from further away, the order in which Go visits them shows: at every node where the proofs of a transfer that count are one from distance 0 or 1 and three from distance 2, visiting the nearest first and visiting them in reverse gives the transfer different weights and different neighbourhood scores, whatever input, ranking and primitives. The score is not a function of the state.\<close>

theorem proof_order_shows:
  assumes "mset (counted (mget0 (proofStore n) t)) = {#d, 2, 2, 2#}" and "d = 0 \<or> d = 1" and "ranked ! k = t"
  shows "order_ok (nearest_first E) \<and> order_ok (reversed (nearest_first E))
     \<and> proofWeight (nearest_first E) n t \<noteq> proofWeight (reversed (nearest_first E)) n t
     \<and> NeighborhoodScore (scoreTx (nearest_first E) n i ranked k)
         \<noteq> NeighborhoodScore (scoreTx (reversed (nearest_first E)) n i ranked k)"
  using weights_differ[OF assms(2)] assms(3) nearest_first_ok[of E] reversed_ok
  by (simp add: scoreTx_def Let_def proofWeight_orders[OF assms(1,2)])

text \<open>Four answers to proof requests bring a node that stores a transfer into such a state.\<close>

definition demo_answer :: "byte \<Rightarrow> int64 \<Rightarrow> message" where
  "demo_answer m d = NewProofResponseMessage (replicate 16 m) 100 30
     \<lparr>TargetID = replicate 32 3, pSeen = True, pSeenTime = 95, pConflict = False, pDistance = d\<rparr>"

definition demo_proof :: "peer_id \<Rightarrow> int64 \<Rightarrow> proof_record" where
  "demo_proof p d = \<lparr>prPeerID = p, prSeen = True, prSeenTime = 95, prConflict = False, prDistance = d\<rparr>"

lemma answer_effect:
  assumes r: "reachable E w" and new: "\<not> IsSeen (replayCache (nodes w a)) (replicate 16 m)"
  obtains v where "reachable E v" and "txs (nodes v a) = txs (nodes w a)"
    and "\<And>i. IsSeen (replayCache (nodes v a)) i \<Longrightarrow> i = replicate 16 m \<or> IsSeen (replayCache (nodes w a)) i"
    and "mget0 (proofStore (nodes v a)) (replicate 32 3)
       = mput p (demo_proof p d) (mget0 (proofStore (nodes w a)) (replicate 32 3))"
proof -
  let ?c1 = "PruneExpired (replayCache (nodes w a)) (clock (nodes w a))"
  let ?c = "MarkSeen ?c1 (replicate 16 m)" and ?msg = "demo_answer m d"
  let ?n = "(nodes w a)\<lparr>replayCache := ?c\<rparr>"
  have wf: "cache_wf (replayCache (nodes w a))" by (rule node_invD(4)[OF reachable_node_inv[OF r]])
  have "node_inv (crypt E) ?n"
    by (rule node_inv_cong[OF reachable_node_inv[OF r, of a]]) (use wf in simp_all)
  then obtain n where n: "proof_and_recompute E ?n (replicate 32 3) (demo_proof p d) = (n, Inr ())"
      "txs n = txs ?n" "replayCache n = replayCache ?n"
      "proofStore n = proofStore (updateProof ?n (replicate 32 3) (demo_proof p d))"
    by (rule proof_effect[where t = "replicate 32 3" and p = "demo_proof p d"]) (rule that)
  have "proof_response_ok \<lparr>TargetID = replicate 32 3, pSeen = True, pSeenTime = 95, pConflict = False, pDistance = d\<rparr>"
    by (simp add: proof_response_ok_def)
  then have dec: "DecodeProofResponsePayload (Payload ?msg)
      = Inr \<lparr>TargetID = replicate 32 3, pSeen = True, pSeenTime = 95, pConflict = False, pDistance = d\<rparr>"
    by (simp add: demo_answer_def new_message_defs proof_resp_payload.decode_Inr_iff)
  have ty: "mType ?msg = PROOF_RESP" "MessageID ?msg = replicate 16 m"
    by (simp_all add: demo_answer_def new_message_defs)
  have "\<not> IsSeen ?c1 (replicate 16 m)" using new IsSeen_pruned[OF wf] by blast
  then have "run E [(1, Receive a p ?msg)] w = Some (put (put w a ?n) a n)"
    using n(1) by (simp add: demo_proof_def Let_def ty dispatch_def handleProofResponse_def dec)
  note v = reachable_run[OF r this]
  show thesis
  proof (rule that[OF v])
    show "i = replicate 16 m \<or> IsSeen (replayCache (nodes w a)) i"
      if "IsSeen (replayCache (nodes (put (put w a ?n) a n) a)) i" for i
      using that IsSeen_pruned[OF wf] by (auto simp: n(3) IsSeen_MarkSeen)
  qed (simp_all add: n(2,4) fun_eq_iff demo_proof_def updateProof_def mget0_put txs_def)
qed

theorem proof_order_shows_witness:
  "\<exists>w :: world. reachable demo_env w \<and> hasTransfer (nodes w 0) (replicate 32 3)
     \<and> NeighborhoodScore (scoreTx (nearest_first demo_env) (nodes w 0) demo_input [replicate 32 3] 0)
         \<noteq> NeighborhoodScore (scoreTx (reversed (nearest_first demo_env)) (nodes w 0) demo_input [replicate 32 3] 0)"
proof -
  let ?ps = "\<lambda>w :: world. mget0 (proofStore (nodes w 0)) (replicate 32 3)"
  let ?seen = "\<lambda>w :: world. IsSeen (replayCache (nodes w 0))"
  obtain w where t: "txs (nodes w 0) (replicate 32 3) = Some (demo_tx 3)" and r: "reachable demo_env w"
    and c: "replayCache (nodes w 0) = newReplayCacheWithClock 60 100" and s: "proofStore (nodes w 0) = []"
    using demo_conflict by blast
  have new: "(replicate 16 m = replicate 16 k) \<longleftrightarrow> m = k" for m k :: byte by (simp add: numeral_eq_Suc)
  have c0: "\<not> ?seen w i" for i by (simp add: c IsSeen_def newReplayCacheWithClock_def)
  obtain w1 where r1: "reachable demo_env w1" and t1: "txs (nodes w1 0) = txs (nodes w 0)"
    and s1: "\<And>i. ?seen w1 i \<Longrightarrow> i = replicate 16 1 \<or> ?seen w i"
    and p1: "?ps w1 = mput ''p'' (demo_proof ''p'' 1) (?ps w)"
    by (rule answer_effect[OF r c0[of "replicate 16 1"]]) (rule that)
  have c1: "\<not> ?seen w1 (replicate 16 2)" using s1 c0 new by fastforce
  obtain w2 where r2: "reachable demo_env w2" and t2: "txs (nodes w2 0) = txs (nodes w1 0)"
    and s2: "\<And>i. ?seen w2 i \<Longrightarrow> i = replicate 16 2 \<or> ?seen w1 i"
    and p2: "?ps w2 = mput ''q'' (demo_proof ''q'' 2) (?ps w1)"
    by (rule answer_effect[OF r1 c1]) (rule that)
  have c2: "\<not> ?seen w2 (replicate 16 3)" using s1 s2 c0 new by fastforce
  obtain w3 where r3: "reachable demo_env w3" and t3: "txs (nodes w3 0) = txs (nodes w2 0)"
    and s3: "\<And>i. ?seen w3 i \<Longrightarrow> i = replicate 16 3 \<or> ?seen w2 i"
    and p3: "?ps w3 = mput ''r'' (demo_proof ''r'' 2) (?ps w2)"
    by (rule answer_effect[OF r2 c2]) (rule that)
  have c3: "\<not> ?seen w3 (replicate 16 4)" using s1 s2 s3 c0 new by fastforce
  obtain w4 where r4: "reachable demo_env w4" and t4: "txs (nodes w4 0) = txs (nodes w3 0)"
    and p4: "?ps w4 = mput ''s'' (demo_proof ''s'' 2) (?ps w3)"
    by (rule answer_effect[OF r3 c3]) (rule that)
  have "?ps w4 = [(''p'', demo_proof ''p'' 1), (''q'', demo_proof ''q'' 2), (''r'', demo_proof ''r'' 2), (''s'', demo_proof ''s'' 2)]"
    by (simp add: p1 p2 p3 p4 s)
  then have "counted (?ps w4) = [1, 2, 2, 2]" by (simp add: counted_def usable_def demo_proof_def)
  then have "mset (counted (?ps w4)) = {#1, 2, 2, 2#}" by simp
  from proof_order_shows[OF this _ nth_Cons_0, of demo_env demo_input] r4 t t1 t2 t3 t4
  show ?thesis by (intro exI[of _ w4]) (simp add: txs_hasTransfer)
qed

section \<open>Ranges\<close>

text \<open>C33: Every score the selection compares is a finite number in a fixed range: the component scores in the unit interval, propagation up to 1024, their weighted sum up to 1028.\<close>

theorem scores_bounded:
  assumes "log_ok E" and "order_ok E" and "ConflictSet n i \<noteq> []" and "few (length (ConflictSet n i))"
    and "k < length ranked" and "length ranked \<le> length (ConflictSet n i)" and "sizes_ok n (ranked ! k)"
  shows "in_range 0 1028 (Score (scoreTx E n i ranked k))
     \<and> in_range 0 1 (FirstSeenScore (scoreTx E n i ranked k))
     \<and> in_range 0 1024 (PropagationScore (scoreTx E n i ranked k))
     \<and> in_range 0 1 (TimeStabilityScore (scoreTx E n i ranked k))
     \<and> in_range 0 1 (NeighborhoodScore (scoreTx E n i ranked k))
     \<and> in_range 0 1 (ConflictCleanliness (scoreTx E n i ranked k))"
  using scoreTx_ok[OF assms(1,2)] assms(3-7) by (simp add: score_ok_def ConflictSet_def)

theorem scores_bounded_witness:
  "in_range 0 1028 (Score (scoreTx demo_env demo_two demo_input [replicate 32 3, replicate 32 4] 1))"
proof -
  have c: "ConflictSet demo_two demo_input = [replicate 32 3, replicate 32 4]"
    by (simp add: ConflictSet_def demo_two_cset)
  have "ConflictSet demo_two demo_input \<noteq> []" "few (length (ConflictSet demo_two demo_input))"
    by (simp_all add: c few_def)
  from scores_bounded[OF demo_log_ok demo_order_ok this, of 1 "[replicate 32 3, replicate 32 4]"]
  show ?thesis using demo_two_sizes by (simp add: c)
qed

text \<open>The confidence of a transfer is a finite number between 0 and 1026; it is not bounded by 1, because the logarithm of the number of peers is not.\<close>

theorem confidence_bounded:
  assumes "log_ok E" and "order_ok E" and "sizes_ok n t"
  shows "in_range 0 1026 (computeConfidence E n t)"
  using assms by (rule computeConfidence_range)

theorem confidence_bounded_witness: "in_range 0 1026 (computeConfidence demo_env demo_two (replicate 32 3))"
  by (rule confidence_bounded[OF demo_log_ok demo_order_ok demo_two_sizes])

section \<open>Finality\<close>

text \<open>C29: Updating the finality of a stored transfer makes it FINAL exactly when it is selected on all its inputs and its confidence reaches the threshold of its amount, and PENDING exactly when some input has selected another; the confidence of a pending transfer is 0, and no other transfer's state changes.\<close>

theorem finality_rule:
  assumes "Transfer n t = Some x"
  shows "\<exists>s. FinalityForTransfer (updateFinalityForTransfer E n t) t = Some s
     \<and> (Status s = StatusFinal) = ((\<forall>i \<in> set (Inputs x). SelectedForInput n i = Some t)
          \<and> fle (finalityThreshold x) (computeConfidence E n t))
     \<and> (Status s = StatusPending) = (\<not> (\<forall>i \<in> set (Inputs x). SelectedForInput n i = Some t))
     \<and> Confidence s = (if Status s = StatusPending then f64_const 0 else computeConfidence E n t)
     \<and> (\<forall>u. u \<noteq> t \<longrightarrow> FinalityForTransfer (updateFinalityForTransfer E n t) u = FinalityForTransfer n u)"
proof -
  have x: "txs n t = Some x" using assms by (simp add: Transfer_def txs_def)
  let ?s = "finality_of E n t x"
  have sel: "(\<forall>i \<in> set (Inputs x). SelectedForInput n i = Some t) = selected_everywhere n t x"
    by (simp add: selected_everywhere_def SelectedForInput_def selected_on_def)
  have "Confidence ?s = (if Status ?s = StatusPending then f64_const 0 else computeConfidence E n t)"
    by (simp add: finality_of_def Let_def split: prod.split)
  then show ?thesis
    unfolding sel using finality_of_status[of E n t x]
    by (intro exI[of _ ?s]) (auto simp: updateFinality_eq x FinalityForTransfer_def gm.get_put)
qed

theorem finality_rule_witness:
  "\<exists>s. FinalityForTransfer (updateFinalityForTransfer demo_env demo_two (replicate 32 3)) (replicate 32 3) = Some s
     \<and> Status s = StatusPending"
proof -
  have "Transfer demo_two (replicate 32 3) = Some (demo_tx 3)"
    using demo_two_txs by (auto simp: Transfer_def txs_def fun_eq_iff)
  moreover have "SelectedForInput demo_two demo_input = None" "demo_input \<in> set (Inputs (demo_tx 3))"
    by (simp_all add: SelectedForInput_def demo_two_def NewNode_def demo_tx_def)
  ultimately show ?thesis using finality_rule[of demo_two "replicate 32 3" "demo_tx 3" demo_env] by fastforce
qed

section \<open>Amounts\<close>

text \<open>The amount a transfer is classified by is the sum of its output amounts modulo 2 to the 64; it is the sum itself exactly when that fits.\<close>

theorem amount_wraps:
  "unat (transferAmount t) = sum_list (map (\<lambda>v. unat (Amount v)) (Outputs t)) mod 2 ^ 64"
  using transferAmount_mod[of t] by (simp add: total_amount_def comp_def)

text \<open>C36: A transfer whose outputs wrap around to less than 50000 needs only the smallest confidence to become FINAL, however much it moves.\<close>

theorem wrapped_amount_is_small:
  assumes "sum_list (map (\<lambda>v. unat (Amount v)) (Outputs t)) mod 2 ^ 64 < 50000"
  shows "finalityThreshold t = thresholdSmall"
  using assms transferAmount_mod[of t] by (simp add: tier_cases total_amount_def comp_def)

definition demo_huge :: transfer where
  "demo_huge = (demo_tx 3)\<lparr>Outputs := [demo_value (2 ^ 63), demo_value (2 ^ 63)]\<rparr>"

theorem wrapped_amount_is_small_witness:
  "sum_list (map (\<lambda>v. unat (Amount v)) (Outputs demo_huge)) = 2 ^ 64 \<and> finalityThreshold demo_huge = thresholdSmall"
proof -
  have s: "sum_list (map (\<lambda>v. unat (Amount v)) (Outputs demo_huge)) = 2 ^ 64"
    by (simp add: demo_huge_def demo_value_def)
  have "finalityThreshold demo_huge = thresholdSmall" by (rule wrapped_amount_is_small) (simp only: s, simp)
  with s show ?thesis by simp
qed

text \<open>As long as the sums fit, a transfer that moves more never needs less confidence.\<close>

theorem threshold_monotone:
  assumes "sum_list (map (\<lambda>v. unat (Amount v)) (Outputs t)) \<le> sum_list (map (\<lambda>v. unat (Amount v)) (Outputs u))"
    and "sum_list (map (\<lambda>v. unat (Amount v)) (Outputs u)) < 2 ^ 64"
  shows "fle (finalityThreshold t) (finalityThreshold u)"
proof -
  have "unat (transferAmount t) \<le> unat (transferAmount u)"
    using transferAmount_exact[of t] transferAmount_exact[of u] assms by (simp add: total_amount_def comp_def)
  then show ?thesis using thresholds_ordered by (simp add: tier_cases)
qed

theorem threshold_monotone_witness:
  "fle (finalityThreshold (demo_tx 3)) (finalityThreshold (demo_tx 600000))"
  by (rule threshold_monotone) (simp_all add: demo_tx_def demo_value_def)

end
