(* ===== verification/Codec_Properties.thy ===== *)
theory Codec_Properties
  imports Protocol_Message Replay
begin

text \<open>
  The properties of the encodings of \<open>crypto\<close> and \<open>protocol\<close>, of content-based identifiers and
  signatures, and of the input tracker.
\<close>

section \<open>Encodings\<close>

text \<open>C30: \<open>DecodeTransfer\<close> accepts exactly the canonical encodings, and returns the transfer that was encoded, with its ID recomputed and without signature and timestamp.\<close>

theorem transfer_codec:
  "DecodeTransfer P data = Inr t \<longleftrightarrow> transfer_ok P t \<and> data = EncodeTransfer t"
  by (rule transfer_payload.decode_Inr_iff)

text \<open>\<open>DecodeValue\<close> accepts exactly the canonical encodings of values, and returns the value with its content-based ID.\<close>

theorem value_codec:
  "DecodeValue P data = Inr v \<longleftrightarrow> value_ok P v \<and> data = EncodeValue v"
  by (rule value_payload.decode_Inr_iff)

text \<open>C32: \<open>DecodeMessage\<close> accepts exactly the encodings of messages with a 16-byte identifier, a known type and a payload below 4 GiB, and inverts \<open>EncodeMessage\<close>.\<close>

theorem message_codec:
  "DecodeMessage data = Inr m \<longleftrightarrow> message_ok m \<and> data = EncodeMessage m"
  by (rule message_payload.decode_Inr_iff)

text \<open>The TX payload decoder accepts exactly the encodings of a transfer and a signature below 4 GiB each, and separates the two again.\<close>

theorem tx_payload_codec:
  "DecodeTXPayload data = Inr p \<longleftrightarrow> tx_payload_ok p \<and> data = EncodeTXPayload (TransferBytes p) (Signature p)"
  by (rule tx_payload.decode_Inr_iff)

text \<open>The proof response decoder accepts exactly the 50-byte encodings with booleans 0 or 1, and inverts the encoder.\<close>

theorem proof_response_codec:
  "DecodeProofResponsePayload data = Inr p \<longleftrightarrow> proof_response_ok p \<and> data = EncodeProofResponsePayload p"
  by (rule proof_resp_payload.decode_Inr_iff)

text \<open>The error payload decoder accepts exactly the encodings of a 16-byte message ID and a code below 4 GiB, and inverts the encoder.\<close>

theorem error_payload_codec:
  "DecodeErrorPayload data = Inr p \<longleftrightarrow>
     error_payload_ok p \<and> data = EncodeErrorPayload (ReferencedMessageID p) (Code p)"
  by (rule err_payload.decode_Inr_iff)

text \<open>No decoder reads outside its input, whatever the bytes.\<close>

theorem decoders_stay_in_bounds:
  "DecodeValue P data \<noteq> Inl PanicSliceBounds \<and> DecodeTransfer P data \<noteq> Inl PanicSliceBounds
   \<and> DecodeMessage data \<noteq> Inl PanicSliceBounds \<and> DecodeTXPayload data \<noteq> Inl PanicSliceBounds
   \<and> DecodeProofResponsePayload data \<noteq> Inl PanicSliceBounds \<and> DecodeErrorPayload data \<noteq> Inl PanicSliceBounds"
  by (intro conjI value_payload.payload_no_panic transfer_payload.payload_no_panic
      message_payload.payload_no_panic tx_payload.payload_no_panic
      proof_resp_payload.payload_no_panic err_payload.payload_no_panic)

text \<open>The buffers of the encoders are allocated with the exact length of what is appended to them.\<close>

theorem encoded_lengths:
  assumes "\<forall>h \<in> set (Inputs t). length h = 32" and "length (MessageID m) = 16"
  shows "length (EncodeTransfer t) = encodedTransferLen t \<and> length (EncodeValue v) = encodedValueLen v
     \<and> length (EncodeMessage m) = encodedMessageLen m"
  using assms length_EncodeTransfer length_EncodeValue length_EncodeMessage by simp

theorem encoded_lengths_witness:
  "length (EncodeTransfer \<lparr>tID = [], Inputs = [replicate 32 1], Outputs = [], Sig = [], Timestamp = 0\<rparr>) = 40"
  using encoded_lengths[of "\<lparr>tID = [], Inputs = [replicate 32 1], Outputs = [], Sig = [], Timestamp = 0\<rparr>"
    "newMessage (replicate 16 0) 0 0 INV []"]
  by (simp add: newMessage_def encodedTransferLen_def)

section \<open>Identifiers and signatures\<close>

text \<open>The ID of a transfer binds its inputs and outputs: two well-formed transfers with the same ID spend the same inputs into the same outputs, or the digest function has a collision.\<close>

theorem transfer_id_binds_content:
  assumes "content_ok P t" and "content_ok P u" and "ComputeTransferID P t = ComputeTransferID P u"
  shows "Inputs t = Inputs u \<and> Outputs t = Outputs u \<or> (\<exists>b c. b \<noteq> c \<and> Sum256 P b = Sum256 P c)"
proof (cases "EncodeTransfer t = EncodeTransfer u")
  case True
  let ?norm = "\<lambda>x. x\<lparr>tID := ComputeTransferID P x, Sig := [], Timestamp := 0\<rparr>"
  have ok: "transfer_ok P (?norm x)" if "content_ok P x" for x
    using that by (simp add: transfer_ok_def content_ok_def)
  have "EncodeTransfer (?norm t) = EncodeTransfer (?norm u)" using True by simp
  then have "?norm t = ?norm u" by (rule transfer_payload.encode_inj[OF ok ok, OF assms(1,2)])
  then have "Inputs (?norm t) = Inputs (?norm u)" and "Outputs (?norm t) = Outputs (?norm u)" by simp_all
  then show ?thesis by simp
next
  case False
  then show ?thesis using assms(3) by (auto simp: ComputeTransferID_def)
qed

theorem transfer_id_binds_content_witness:
  "\<exists>P t u. content_ok P t \<and> ComputeTransferID P t = ComputeTransferID P u \<and> t \<noteq> u \<and> Inputs t = Inputs u"
proof -
  let ?P = "\<lparr>Sum256 = (\<lambda>b. b), ed25519_Sign = (\<lambda>k m. m), ed25519_Verify = (\<lambda>k m s. s = m)\<rparr>"
  let ?t = "\<lparr>tID = [], Inputs = [replicate 32 1], Outputs = [], Sig = [], Timestamp = 0\<rparr>"
  let ?u = "?t\<lparr>Sig := [1]\<rparr>"
  have "content_ok ?P ?t" "content_ok ?P ?u" "ComputeTransferID ?P ?t = ComputeTransferID ?P ?u"
    by (simp_all add: content_ok_def ComputeTransferID_def EncodeTransfer_eq)
  with transfer_id_binds_content[OF this] show ?thesis
    by (intro exI[of _ ?P] exI[of _ ?t] exI[of _ ?u]) simp
qed

text \<open>A signature made with \<open>SignCanonicalTransfer\<close> verifies on every transfer with the same content, whatever its ID, signature field and timestamp, if the key pair is one of the signature scheme.\<close>

theorem canonical_signature_verifies:
  assumes "\<And>msg. ed25519_Verify P pub msg (ed25519_Sign P priv msg)"
  shows "VerifyCanonicalTransfer P pub (t\<lparr>tID := i, Sig := s, Timestamp := ts\<rparr>) (SignCanonicalTransfer P priv t)"
  using assms
  by (simp add: VerifyCanonicalTransfer_def SignCanonicalTransfer_def VerifyTransfer_def SignTransfer_def)

theorem canonical_signature_verifies_witness:
  "\<exists>P t. VerifyCanonicalTransfer P [1] (t\<lparr>Timestamp := 5\<rparr>) (SignCanonicalTransfer P [1] t)
     \<and> \<not> VerifyCanonicalTransfer P [2] t (SignCanonicalTransfer P [1] t)"
proof -
  let ?P = "\<lparr>Sum256 = (\<lambda>b. b), ed25519_Sign = (\<lambda>k m. k @ m), ed25519_Verify = (\<lambda>k m s. s = k @ m)\<rparr>"
  let ?t = "\<lparr>tID = [], Inputs = [], Outputs = [], Sig = [], Timestamp = 0\<rparr>"
  have "VerifyCanonicalTransfer ?P [1] (?t\<lparr>tID := [], Sig := [], Timestamp := 5\<rparr>) (SignCanonicalTransfer ?P [1] ?t)"
    by (rule canonical_signature_verifies) simp
  then show ?thesis
    by (intro exI[of _ ?P] exI[of _ ?t])
      (simp add: VerifyCanonicalTransfer_def SignCanonicalTransfer_def VerifyTransfer_def SignTransfer_def)
qed

section \<open>Spending inputs\<close>

text \<open>\<open>ConsumeInputs\<close> is atomic: it spends all the inputs of a batch if they are distinct and unspent, and otherwise reports that and spends none.\<close>

theorem consume_inputs_atomic:
  "case ConsumeInputs tr inputs of
     Inl e \<Rightarrow> e = ErrInputConsumed \<and> \<not> (distinct inputs \<and> set inputs \<inter> {i. IsConsumed tr i} = {})
   | Inr tr' \<Rightarrow> distinct inputs \<and> set inputs \<inter> {i. IsConsumed tr i} = {}
       \<and> {i. IsConsumed tr' i} = {i. IsConsumed tr i} \<union> set inputs"
proof (cases "distinct inputs \<and> set inputs \<inter> consumed_set tr = {}")
  case True
  then have "ConsumeInputs tr inputs = Inr (mark_inputs tr inputs)" by (simp add: ConsumeInputs_cases)
  then show ?thesis using True consumed_set_mark_inputs[of tr inputs] by (simp add: consumed_set_def)
next
  case False
  then have "ConsumeInputs tr inputs = Inl ErrInputConsumed" by (simp only: ConsumeInputs_cases if_False)
  then show ?thesis using False by (simp add: consumed_set_def)
qed

end
