(* ===== verification/Transport_Properties.thy ===== *)
theory Transport_Properties
  imports Transport_Frame Node_Inspect Scenario
begin

text \<open>The properties of the frames and the handshake on a byte stream, and of the views of a node.\<close>

section \<open>Streams\<close>

text \<open>C31: The receive loop hands on exactly the messages that were framed, in order, and ends with the end of the stream, however the network cuts the stream into chunks.\<close>

theorem frames_arrive:
  assumes "\<forall>m \<in> set ms. frame_ok m" and "concat chunks = concat (map EncodeMessageFrame ms)"
  shows "serve chunks = (ms, ReadEOF)"
  using assms by (rule serve_frames)

definition demo_inv :: message where
  "demo_inv = NewINVMessage (replicate 16 8) 100 30 (replicate 32 3)"

lemma demo_inv_ok: "frame_ok demo_inv"
  by (simp add: frame_ok_def message_ok_def demo_inv_def new_message_defs EncodeINVID_def INV_def maxFrameSize_def
      EncodeMessage_eq)

theorem frames_arrive_witness:
  "serve [take 3 (EncodeMessageFrame demo_inv), drop 3 (EncodeMessageFrame demo_inv)] = ([demo_inv], ReadEOF)"
  by (rule frames_arrive) (simp_all add: demo_inv_ok)

text \<open>Whatever the bytes of a stream, every message the receive loop hands on was framed in it, in that order and without gaps, and the loop stops at the first position at which no frame decodes.\<close>

theorem only_frames_arrive:
  assumes "serve chunks = (ms, e)"
  shows "\<exists>rest. concat chunks = concat (map EncodeMessageFrame ms) @ concat rest
     \<and> (\<forall>m \<in> set ms. frame_ok m) \<and> DecodeMessageFrame rest = Inl e"
  using assms by (rule serve_sound)

theorem only_frames_arrive_witness:
  "\<exists>rest. [0, 0] = concat (map EncodeMessageFrame []) @ concat rest
     \<and> DecodeMessageFrame rest = Inl ReadUnexpectedEOF"
proof -
  have "readFull [] 4 [[0, 0]] = Inl ReadUnexpectedEOF" by (simp add: readFull.simps)
  then have "serve [[0, 0]] = ([], ReadUnexpectedEOF)"
    by (simp add: serve.simps[of "[[0, 0]]"] DecodeMessageFrame_def)
  from only_frames_arrive[OF this] show ?thesis by auto
qed

text \<open>C38: The receiver refuses a message whose encoding is longer than 16 MiB, which the sender frames and sends without any check.\<close>

theorem oversized_frame_refused:
  assumes "16777216 < length (EncodeMessage m)" and "length (EncodeMessage m) < 2 ^ 32"
    and "concat chunks = EncodeMessageFrame m"
  shows "DecodeMessageFrame chunks = Inl (FrameTooLarge (length (EncodeMessage m)))"
  using frame_too_large[of m chunks "[]"] assms by (simp add: maxFrameSize_def)

theorem oversized_frame_refused_witness:
  "\<exists>m. message_ok m \<and> DecodeMessageFrame [EncodeMessageFrame m] = Inl (FrameTooLarge 16777256)"
proof -
  let ?m = "newMessage (replicate 16 0) 0 0 TX (replicate 16777216 0)"
  have l: "length (EncodeMessage ?m) = 16777256"
    by (subst length_EncodeMessage) (simp_all add: newMessage_def encodedMessageLen_def)
  have "message_ok ?m" by (simp add: message_ok_def newMessage_def TX_def)
  moreover have "DecodeMessageFrame [EncodeMessageFrame ?m] = Inl (FrameTooLarge (length (EncodeMessage ?m)))"
    by (rule oversized_frame_refused) (simp_all add: l)
  ultimately show ?thesis unfolding l by blast
qed

text \<open>The handshake carries an address of 1 to 1024 bytes unchanged and leaves the rest of the stream for the frames, and no other address is ever accepted.\<close>

theorem handshake_carries_address:
  "(\<exists>rest. decodeHandshake chunks = Inr (addr, rest) \<and> concat rest = s) \<longleftrightarrow>
     addr \<noteq> [] \<and> length addr \<le> 1024 \<and> concat chunks = encodeHandshake addr @ s"
  using handshake_decodes[of addr chunks s] handshake_bounds[of chunks addr]
  by (auto simp: maxHandshakeAddrLen_def)

section \<open>Views\<close>

text \<open>The list of finality states is complete and strictly ascending in the transfer ID, gives each transfer's amount, and its construction never meets a missing record.\<close>

theorem finality_view:
  assumes "reachable E w"
  shows "\<exists>es. FinalityEntries (nodes w a) = Inr es \<and> sorted_wrt (<) (map feTxID es)
     \<and> (\<forall>e. e \<in> set es \<longleftrightarrow> FinalityForTransfer (nodes w a) (feTxID e) = Some (feState e)
          \<and> feAmount e = transferAmount (the (Transfer (nodes w a) (feTxID e))))"
proof -
  have "fin_inv {} (nodes w a)" using reachable_node_inv[OF assms] by (simp add: node_inv_def)
  from FinalityEntries_view[OF reachable_maps[OF assms] this] show ?thesis by metis
qed

theorem finality_view_witness:
  "\<exists>(w :: world) es. FinalityEntries (nodes w 0) = Inr es \<and> replicate 32 4 \<in> feTxID ` set es"
proof -
  obtain w1 w2 where t: "txs (nodes w2 0) (replicate 32 4) = Some (demo_tx 4)" and r: "reachable demo_env w2"
    using demo_conflict by blast
  have "fin_inv {} (nodes w2 0)" using reachable_node_inv[OF r] by (simp add: node_inv_def)
  then obtain s where s: "FinalityForTransfer (nodes w2 0) (replicate 32 4) = Some s"
    using t unfolding fin_inv_def status_agrees_def FinalityForTransfer_def by blast
  let ?e = "\<lparr>feTxID = replicate 32 4, feState = s,
    feAmount = transferAmount (the (Transfer (nodes w2 0) (replicate 32 4)))\<rparr>"
  from finality_view[OF r, of 0] obtain es where es: "FinalityEntries (nodes w2 0) = Inr es"
    and m: "\<forall>e. e \<in> set es \<longleftrightarrow> FinalityForTransfer (nodes w2 0) (feTxID e) = Some (feState e)
          \<and> feAmount e = transferAmount (the (Transfer (nodes w2 0) (feTxID e)))" by blast
  have "?e \<in> set es" using m s by simp
  then have "replicate 32 4 \<in> feTxID ` set es" by (rule rev_image_eqI) simp
  then show ?thesis using es by blast
qed

text \<open>The views of selected lineages, of conflict sets and of values list every entry once, in strictly ascending order of the key, and agree with the accessors.\<close>

theorem sorted_views:
  assumes "reachable E w"
  shows "sorted_wrt (<) (map seInput (SelectedLineages (nodes w a)))
     \<and> ((\<exists>e \<in> set (SelectedLineages (nodes w a)). seInput e = i \<and> seTxID e = t)
          = (SelectedForInput (nodes w a) i = Some t))
     \<and> sorted_wrt (<) (map ceInput (ConflictSetEntries (nodes w a)))
     \<and> (\<forall>e \<in> set (ConflictSetEntries (nodes w a)). ceTxIDs e = sort (ConflictSet (nodes w a) (ceInput e)))
     \<and> sorted_wrt (<) (map vID (Values (nodes w a)))
     \<and> (v \<in> set (Values (nodes w a))) = (ValueAt (nodes w a) (vID v) = Some v)"
proof -
  have m: "maps_wf (nodes w a)" by (rule reachable_maps[OF assms])
  have "val_inv (crypt E) (nodes w a)"
    by (rule core_invD(3)[OF node_invD(1)[OF reachable_node_inv[OF assms]]])
  note v = Values_view[OF m this]
  show ?thesis
    by (intro conjI ballI SelectedLineages_view[OF m] ConflictSetEntries_view(1,2)[OF m] v)
qed

theorem sorted_views_witness:
  "\<exists>(w :: world) (e :: conflict_set_entry). ceTxIDs e = sort (ConflictSet (nodes w 0) demo_input) \<and> ceTxIDs e \<noteq> []"
proof -
  obtain w1 w2 where t: "txs (nodes w2 0) (replicate 32 4) = Some (demo_tx 4)" and r: "reachable demo_env w2"
    using demo_conflict by blast
  have "demo_input \<in> set (Inputs (demo_tx 4))" by (simp add: demo_tx_def)
  then have ne: "ConflictSet (nodes w2 0) demo_input \<noteq> []"
    using conf_invD(1)[OF core_invD(2)[OF node_invD(1)[OF reachable_node_inv[OF r, of 0]]]] t
    unfolding ConflictSet_def by (metis empty_iff list.set(1))
  have "demo_input \<in> ceInput ` set (ConflictSetEntries (nodes w2 0))"
    by (rule ConflictSetEntries_view(3)[OF reachable_maps[OF r] ne])
  then obtain e where e: "e \<in> set (ConflictSetEntries (nodes w2 0))" "demo_input = ceInput e"
    by (rule imageE)
  note views = sorted_views[OF r, of 0]
  have "ceTxIDs e = sort (ConflictSet (nodes w2 0) (ceInput e))"
    by (rule bspec[OF views[THEN conjunct2, THEN conjunct2, THEN conjunct2, THEN conjunct1] e(1)])
  then have "ceTxIDs e = sort (ConflictSet (nodes w2 0) demo_input)" unfolding e(2) .
  moreover have "sort (ConflictSet (nodes w2 0) demo_input) \<noteq> []"
    using ne by (metis set_empty set_sort)
  ultimately show ?thesis by (intro exI[of _ w2] exI[of _ e]) simp
qed

end
