(* ===== verification/Transport_Tcp.thy ===== *)
theory Transport_Tcp
  imports Transport_Frame
begin

text \<open>
  The TCP transport of \<open>transport/tcp.go\<close>: its connection table, the connections, and the goroutines
  that work on them. Each goroutine is a program counter; one step of it is one critical section of
  the code or one call of the network, so that the runs of the model are the interleavings of the
  goroutines. The network answers with a \<open>net_io\<close>: it accepts or breaks a write after some bytes, it
  fails a read, it delivers a new connection with the bytes its other end will send, cut into chunks.

  Connections live in a heap, because the code compares \<open>*tcpConn\<close> pointers.
\<close>

section \<open>Connections (tcpConn)\<close>

text \<open>
  \<open>cReady\<close> says that the channel \<open>ready\<close> is closed, \<open>cOpen\<close> that the socket is open; \<open>cStream\<close> is all
  the other end sends, \<open>cIn\<close> what is still unread of it, and \<open>cOut\<close> what each call of \<open>write\<close> has
  put on the wire.
\<close>

record tcp_conn =
  cKeys :: "(string, unit) go_map"
  cPeer :: string
  cReady :: bool
  cErr :: "error option"
  cOpen :: bool
  cStream :: reader
  cIn :: reader
  cOut :: "bytes list"

definition newConn :: "reader \<Rightarrow> tcp_conn" where
  "newConn s = \<lparr>cKeys = [], cPeer = [], cReady = False, cErr = None, cOpen = True,
     cStream = s, cIn = s, cOut = []\<rparr>"

definition addKey :: "string \<Rightarrow> tcp_conn \<Rightarrow> tcp_conn" where
  "addKey key c =
     (let c = c\<lparr>cKeys := mput key () (cKeys c)\<rparr>
      in if cPeer c = [] then c\<lparr>cPeer := key\<rparr> else c)"

definition setPeer :: "string \<Rightarrow> tcp_conn \<Rightarrow> tcp_conn" where
  "setPeer peer c =
     (let c = c\<lparr>cPeer := peer\<rparr>
      in if peer \<noteq> [] then c\<lparr>cKeys := mput peer () (cKeys c)\<rparr> else c)"

definition keysSnapshot :: "tcp_conn \<Rightarrow> string list" where
  "keysSnapshot c = map fst (cKeys c)"

definition markReady :: "tcp_conn \<Rightarrow> tcp_conn" where
  "markReady c = c\<lparr>cReady := True\<rparr>"

definition failReady :: "error \<Rightarrow> tcp_conn \<Rightarrow> tcp_conn" where
  "failReady e c = markReady (if cErr c = None then c\<lparr>cErr := Some e\<rparr> else c)"

text \<open>\<open>waitReady\<close>: \<open>None\<close> while it blocks, then its result.\<close>

definition waitReady :: "tcp_conn \<Rightarrow> (error + unit) option" where
  "waitReady c =
     (if \<not> cReady c then None
      else case cErr c of Some e \<Rightarrow> Some (Inl e) | None \<Rightarrow> Some (Inr ()))"

definition closeConn :: "tcp_conn \<Rightarrow> tcp_conn" where
  "closeConn c = c\<lparr>cOpen := False\<rparr>"

text \<open>
  \<open>write\<close> holds \<open>writeMu\<close> until the frame is out: the bytes of one call stay together. The network may
  break it off with an error after some of them.
\<close>

datatype net_io = Fine | Broken nat error | Stream reader

definition conn_write :: "tcp_conn \<Rightarrow> bytes \<Rightarrow> net_io \<Rightarrow> tcp_conn \<times> error option" where
  "conn_write c frame io =
     (if \<not> cOpen c then (c, Some NetClosed)
      else case io of
             Broken n e \<Rightarrow> (c\<lparr>cOut := cOut c @ [take n frame]\<rparr>, Some e)
           | _ \<Rightarrow> (c\<lparr>cOut := cOut c @ [frame]\<rparr>, None))"

text \<open>A read of a whole handshake or frame.\<close>

definition conn_read ::
  "tcp_conn \<Rightarrow> (reader \<Rightarrow> error + ('a \<times> reader)) \<Rightarrow> net_io \<Rightarrow> error + ('a \<times> reader)" where
  "conn_read c decode io =
     (if \<not> cOpen c then Inl NetClosed
      else case io of Broken n e \<Rightarrow> Inl e | _ \<Rightarrow> decode (cIn c))"

section \<open>The transport (TCPTransport)\<close>

record tcp =
  tListenAddr :: string
  tHandler :: bool
  tListener :: "string option"
  tAccepts :: bool
  tClosed :: bool
  tStarted :: bool
  tConns :: "(string, nat) go_map"
  tWg :: nat
  tHeap :: "nat \<Rightarrow> tcp_conn"
  tNext :: nat

definition NewTCPTransport :: "string \<Rightarrow> tcp" where
  "NewTCPTransport listenAddr =
     \<lparr>tListenAddr = listenAddr, tHandler = False, tListener = None, tAccepts = False, tClosed = False,
      tStarted = False, tConns = [], tWg = 0, tHeap = (\<lambda>_. newConn []), tNext = 0\<rparr>"

definition on_conn :: "nat \<Rightarrow> (tcp_conn \<Rightarrow> tcp_conn) \<Rightarrow> tcp \<Rightarrow> tcp" where
  "on_conn c f t = t\<lparr>tHeap := (tHeap t)(c := f (tHeap t c))\<rparr>"

definition Addr :: "tcp \<Rightarrow> string" where
  "Addr t = (case tListener t of Some a \<Rightarrow> a | None \<Rightarrow> tListenAddr t)"

text \<open>\<open>Start\<close>, with what \<open>net.Listen\<close> returns: an error or the address of the listener.\<close>

definition Start :: "bool \<Rightarrow> error + string \<Rightarrow> tcp \<Rightarrow> tcp \<times> (error + unit)" where
  "Start handler listen t =
     (if \<not> handler then (t, Inl NilHandler)
      else if tClosed t then (t, Inl TransportClosed)
      else if tStarted t then (t, Inl TransportAlreadyStarted)
      else case listen of
             Inl e \<Rightarrow> (t, Inl e)
           | Inr addr \<Rightarrow>
               (t\<lparr>tListener := Some addr, tAccepts := True, tHandler := True, tStarted := True,
                  tWg := tWg t + 1\<rparr>, Inr ()))"

text \<open>The first critical section of \<open>getOrDial\<close>: a connection of the table, or \<open>None\<close> to dial.\<close>

definition getOrDial :: "tcp \<Rightarrow> string \<Rightarrow> error + nat option" where
  "getOrDial t peer =
     (if tClosed t then Inl TransportClosed
      else if \<not> tStarted t then Inl TransportNotStarted
      else Inr (map_of (tConns t) peer))"

text \<open>
  \<open>startConn\<close> on a new socket: for an outbound connection up to the end of its critical section,
  with the connection to use and whether it is the new one.
\<close>

definition startInbound :: "reader \<Rightarrow> tcp \<Rightarrow> tcp \<times> nat" where
  "startInbound s t =
     (let c = tNext t
      in (t\<lparr>tHeap := (tHeap t)(c := newConn s), tNext := Suc c, tWg := tWg t + 1\<rparr>, c))"

definition startOutbound :: "reader \<Rightarrow> string \<Rightarrow> tcp \<Rightarrow> tcp \<times> nat \<times> bool" where
  "startOutbound s peer t =
     (let c = tNext t;
          conn = addKey peer (newConn s);
          t = t\<lparr>tNext := Suc c\<rparr>
      in case map_of (tConns t) peer of
           Some existing \<Rightarrow>
             (t\<lparr>tHeap := (tHeap t)(c := closeConn conn)\<rparr>, existing, False)
         | None \<Rightarrow>
             (t\<lparr>tHeap := (tHeap t)(c := conn), tConns := mput peer c (tConns t)\<rparr>, c, True))"

definition registerConnKey :: "nat \<Rightarrow> string \<Rightarrow> tcp \<Rightarrow> tcp" where
  "registerConnKey c key t =
     (if tClosed t then t
      else if map_of (tConns t) key \<noteq> None \<and> map_of (tConns t) key \<noteq> Some c then t
      else (on_conn c (addKey key) t)\<lparr>tConns := mput key c (tConns t)\<rparr>)"

fun unlink_keys :: "nat \<Rightarrow> string list \<Rightarrow> (string, nat) go_map \<Rightarrow> (string, nat) go_map" where
  "unlink_keys c [] m = m"
| "unlink_keys c (key # keys) m =
     unlink_keys c keys (if map_of m key = Some c then mdel key m else m)"

text \<open>The critical section of \<open>dropConn\<close>, and all of it.\<close>

definition unlinkConn :: "nat \<Rightarrow> tcp \<Rightarrow> tcp" where
  "unlinkConn c t = t\<lparr>tConns := unlink_keys c (keysSnapshot (tHeap t c)) (tConns t)\<rparr>"

datatype drop_pc = Unlink | Shut | Wake

fun dropConn :: "drop_pc \<Rightarrow> nat \<Rightarrow> tcp \<Rightarrow> tcp \<times> drop_pc option" where
  "dropConn Unlink c t = (unlinkConn c t, Some Shut)"
| "dropConn Shut c t = (on_conn c closeConn t, Some Wake)"
| "dropConn Wake c t = (on_conn c (failReady ReadEOF) t, None)"

text \<open>The connections \<open>Close\<close> collects: the values of the table, each once.\<close>

fun distinct_conns :: "nat list \<Rightarrow> nat list \<Rightarrow> nat list" where
  "distinct_conns had [] = []"
| "distinct_conns had (c # cs) =
     (if c \<in> set had then distinct_conns had cs else c # distinct_conns (c # had) cs)"

section \<open>Goroutines\<close>

text \<open>
  \<open>readLoop\<close>, the goroutine of a connection: \<open>Greet\<close> writes the handshake of an inbound connection,
  \<open>Shake\<close> reads the other side's, \<open>Name\<close>, \<open>Register\<close> and \<open>Announce\<close> are the three calls after it,
  \<open>Serve\<close> is the loop, \<open>Failed\<close> the \<open>failReady\<close> before an early return, and \<open>Dropping\<close> the
  deferred \<open>dropConn\<close>. A step returns the message it has handed to the handler, if any.
\<close>

datatype read_pc =
    NoReader | Greet | Shake | Name string | Register string | Announce string
  | Serve string | Failed error | Dropping drop_pc | Exited

fun read_step :: "nat \<Rightarrow> net_io \<Rightarrow> tcp \<Rightarrow> read_pc \<Rightarrow> (tcp \<times> read_pc \<times> (string \<times> message) option) option" where
  "read_step c io t NoReader = None"
| "read_step c io t Greet =
     (case conn_write (tHeap t c) (encodeHandshake (Addr t)) io of
        (conn, None) \<Rightarrow> Some (on_conn c (\<lambda>_. conn) t, Shake, None)
      | (conn, Some e) \<Rightarrow> Some (on_conn c (\<lambda>_. conn) t, Failed e, None))"
| "read_step c io t Shake =
     (case conn_read (tHeap t c) decodeHandshake io of
        Inl e \<Rightarrow> Some (t, Failed e, None)
      | Inr (peer, rest) \<Rightarrow> Some (on_conn c (cIn_update (\<lambda>_. rest)) t, Name peer, None))"
| "read_step c io t (Name peer) = Some (on_conn c (setPeer peer) t, Register peer, None)"
| "read_step c io t (Register peer) = Some (registerConnKey c peer t, Announce peer, None)"
| "read_step c io t (Announce peer) = Some (on_conn c markReady t, Serve peer, None)"
| "read_step c io t (Serve peer) =
     (case conn_read (tHeap t c) DecodeMessageFrame io of
        Inl e \<Rightarrow> Some (t, Dropping Unlink, None)
      | Inr (msg, rest) \<Rightarrow>
          Some (on_conn c (cIn_update (\<lambda>_. rest)) t, Serve peer,
                if tHandler t then Some (peer, msg) else None))"
| "read_step c io t (Failed e) = Some (on_conn c (failReady e) t, Dropping Unlink, None)"
| "read_step c io t (Dropping d) =
     (case dropConn d c t of
        (t, Some d) \<Rightarrow> Some (t, Dropping d, None)
      | (t, None) \<Rightarrow> Some (t\<lparr>tWg := tWg t - 1\<rparr>, Exited, None))"
| "read_step c io t Exited = None"

text \<open>
  \<open>Send\<close>: the lookup, the dial, \<open>startConn\<close> with its handshake (a failed one ends in \<open>dropConn\<close>), the
  wait for the other side's, the write of the frame. A step may start the goroutine of a connection.
\<close>

datatype send_pc =
    Lookup | Dial | Enter reader | Hello nat | HelloFailed nat error
  | Discard nat drop_pc "error option" | Await nat | Put nat | Returned "error option"

fun send_step :: "string \<Rightarrow> message \<Rightarrow> net_io \<Rightarrow> tcp \<Rightarrow> send_pc \<Rightarrow> (tcp \<times> send_pc \<times> nat option) option" where
  "send_step peer msg io t Lookup =
     (case getOrDial t peer of
        Inl e \<Rightarrow> Some (t, Returned (Some e), None)
      | Inr (Some c) \<Rightarrow> Some (t, Await c, None)
      | Inr None \<Rightarrow> Some (t, Dial, None))"
| "send_step peer msg io t Dial =
     (case io of
        Broken n e \<Rightarrow> Some (t, Returned (Some e), None)
      | Stream s \<Rightarrow> Some (t, Enter s, None)
      | Fine \<Rightarrow> None)"
| "send_step peer msg io t (Enter s) =
     (case startOutbound s peer t of
        (t, c, True) \<Rightarrow> Some (t, Hello c, None)
      | (t, c, False) \<Rightarrow> Some (t, Await c, None))"
| "send_step peer msg io t (Hello c) =
     (case conn_write (tHeap t c) (encodeHandshake (Addr t)) io of
        (conn, None) \<Rightarrow> Some ((on_conn c (\<lambda>_. conn) t)\<lparr>tWg := tWg t + 1\<rparr>, Await c, Some c)
      | (conn, Some e) \<Rightarrow> Some (on_conn c (\<lambda>_. conn) t, HelloFailed c e, None))"
| "send_step peer msg io t (HelloFailed c e) =
     Some (on_conn c (failReady e) t, Discard c Unlink None, None)"
| "send_step peer msg io t (Discard c d r) =
     (case dropConn d c t of
        (t, Some d) \<Rightarrow> Some (t, Discard c d r, None)
      | (t, None) \<Rightarrow> Some (t, (case r of None \<Rightarrow> Await c | Some e \<Rightarrow> Returned (Some e)), None))"
| "send_step peer msg io t (Await c) =
     (case waitReady (tHeap t c) of
        None \<Rightarrow> None
      | Some (Inl e) \<Rightarrow> Some (t, Returned (Some e), None)
      | Some (Inr _) \<Rightarrow> Some (t, Put c, None))"
| "send_step peer msg io t (Put c) =
     (case conn_write (tHeap t c) (EncodeMessageFrame msg) io of
        (conn, None) \<Rightarrow> Some (on_conn c (\<lambda>_. conn) t, Returned None, None)
      | (conn, Some e) \<Rightarrow> Some (on_conn c (\<lambda>_. conn) t, Discard c Unlink (Some e), None))"
| "send_step peer msg io t (Returned r) = None"

text \<open>
  \<open>Close\<close>: its critical section, the listener, the collected connections, the wait for the
  goroutines. An error of a \<open>Close\<close> call other than \<open>net.ErrClosed\<close> is kept, the first one only;
  closing a socket again returns nothing, because of \<open>closeOnce\<close>.
\<close>

datatype close_pc =
    NotClosing | ShutListener "nat list" | ShutConns "nat list" "error option"
  | Waiting "error option" | CloseReturned "error option"

definition CloseBegin :: "tcp \<Rightarrow> tcp \<times> close_pc option" where
  "CloseBegin t =
     (if tClosed t then (t, None)
      else (t\<lparr>tClosed := True\<rparr>, Some (ShutListener (distinct_conns [] (map snd (tConns t))))))"

definition keep_error :: "error option \<Rightarrow> net_io \<Rightarrow> error option" where
  "keep_error closeErr io =
     (case io of
        Broken n e \<Rightarrow> if e \<noteq> NetClosed \<and> closeErr = None then Some e else closeErr
      | _ \<Rightarrow> closeErr)"

fun close_step :: "net_io \<Rightarrow> tcp \<Rightarrow> close_pc \<Rightarrow> (tcp \<times> close_pc) option" where
  "close_step io t NotClosing = None"
| "close_step io t (ShutListener cs) =
     (if tListener t = None then Some (t, ShutConns cs None)
      else Some (t\<lparr>tAccepts := False\<rparr>, ShutConns cs (keep_error None io)))"
| "close_step io t (ShutConns [] err) = Some (t, Waiting err)"
| "close_step io t (ShutConns (c # cs) err) =
     Some (on_conn c closeConn t, ShutConns cs (if cOpen (tHeap t c) then keep_error err io else err))"
| "close_step io t (Waiting err) = (if tWg t = 0 then Some (t, CloseReturned err) else None)"
| "close_step io t (CloseReturned err) = None"

text \<open>\<open>acceptLoop\<close>: one round, with the connection it starts and whether the loop goes on.\<close>

definition accept_step :: "net_io \<Rightarrow> tcp \<Rightarrow> tcp \<times> nat option \<times> bool" where
  "accept_step io t =
     (if \<not> tAccepts t then (t\<lparr>tWg := tWg t - 1\<rparr>, None, False)
      else case io of
             Stream s \<Rightarrow> (case startInbound s t of (t, c) \<Rightarrow> (t, Some c, True))
           | Broken n e \<Rightarrow>
               if tClosed t \<or> e = NetClosed then (t\<lparr>tWg := tWg t - 1\<rparr>, None, False) else (t, None, True)
           | Fine \<Rightarrow> (t, None, True))"

section \<open>Interleavings\<close>

text \<open>
  A process that uses the transport: its accept loop, the goroutine of each connection, the calls of
  \<open>Send\<close>, the call of \<open>Close\<close>, and a log of what the handler got, with the connection it came from.
\<close>

record tcp_call =
  callPeer :: string
  callMsg :: message
  callPc :: send_pc

record tcp_world =
  tr :: tcp
  accepting :: bool
  readers :: "nat \<Rightarrow> read_pc"
  calls :: "nat \<Rightarrow> tcp_call option"
  closer :: close_pc
  delivered :: "(nat \<times> string \<times> message) list"

definition tcp_init :: "string \<Rightarrow> tcp_world" where
  "tcp_init addr = \<lparr>tr = NewTCPTransport addr, accepting = False, readers = (\<lambda>_. NoReader),
     calls = (\<lambda>_. None), closer = NotClosing, delivered = []\<rparr>"

datatype tcp_event =
    DoStart bool "error + string"
  | DoSend nat string message
  | DoClose
  | AcceptStep net_io
  | ReadStep nat net_io
  | SendStep nat net_io
  | CloseStep net_io

fun tcp_step :: "tcp_event \<Rightarrow> tcp_world \<Rightarrow> tcp_world option" where
  "tcp_step (DoStart handler listen) w =
     (case Start handler listen (tr w) of
        (t, Inr _) \<Rightarrow> Some (w\<lparr>tr := t, accepting := True\<rparr>)
      | (t, Inl _) \<Rightarrow> Some (w\<lparr>tr := t\<rparr>))"
| "tcp_step (DoSend i peer msg) w =
     (if calls w i \<noteq> None then None
      else Some (w\<lparr>calls := (calls w)(i \<mapsto> \<lparr>callPeer = peer, callMsg = msg, callPc = Lookup\<rparr>)\<rparr>))"
| "tcp_step DoClose w =
     (case CloseBegin (tr w) of
        (t, None) \<Rightarrow> Some (w\<lparr>tr := t\<rparr>)
      | (t, Some pc) \<Rightarrow> Some (w\<lparr>tr := t, closer := pc\<rparr>))"
| "tcp_step (AcceptStep io) w =
     (if \<not> accepting w then None
      else case accept_step io (tr w) of
             (t, None, go) \<Rightarrow> Some (w\<lparr>tr := t, accepting := go\<rparr>)
           | (t, Some c, go) \<Rightarrow> Some (w\<lparr>tr := t, accepting := go, readers := (readers w)(c := Greet)\<rparr>))"
| "tcp_step (ReadStep c io) w =
     (case read_step c io (tr w) (readers w c) of
        None \<Rightarrow> None
      | Some (t, pc, None) \<Rightarrow> Some (w\<lparr>tr := t, readers := (readers w)(c := pc)\<rparr>)
      | Some (t, pc, Some d) \<Rightarrow>
          Some (w\<lparr>tr := t, readers := (readers w)(c := pc), delivered := delivered w @ [(c, d)]\<rparr>))"
| "tcp_step (SendStep i io) w =
     (case calls w i of
        None \<Rightarrow> None
      | Some k \<Rightarrow>
          (case send_step (callPeer k) (callMsg k) io (tr w) (callPc k) of
             None \<Rightarrow> None
           | Some (t, pc, None) \<Rightarrow> Some (w\<lparr>tr := t, calls := (calls w)(i \<mapsto> k\<lparr>callPc := pc\<rparr>)\<rparr>)
           | Some (t, pc, Some c) \<Rightarrow>
               Some (w\<lparr>tr := t, calls := (calls w)(i \<mapsto> k\<lparr>callPc := pc\<rparr>),
                       readers := (readers w)(c := Shake)\<rparr>)))"
| "tcp_step (CloseStep io) w =
     (case close_step io (tr w) (closer w) of
        None \<Rightarrow> None
      | Some (t, pc) \<Rightarrow> Some (w\<lparr>tr := t, closer := pc\<rparr>))"

fun tcp_run :: "tcp_event list \<Rightarrow> tcp_world \<Rightarrow> tcp_world option" where
  "tcp_run [] w = Some w"
| "tcp_run (ev # evs) w = (case tcp_step ev w of None \<Rightarrow> None | Some w \<Rightarrow> tcp_run evs w)"

text \<open>The states a transport can be in, with a relation for one step of some goroutine.\<close>

inductive tcp_moves :: "tcp_world \<Rightarrow> tcp_world \<Rightarrow> bool" where
  "tcp_step ev w = Some v \<Longrightarrow> tcp_moves w v"

inductive tcp_reachable :: "string \<Rightarrow> tcp_world \<Rightarrow> bool" for addr where
  fresh: "tcp_reachable addr (tcp_init addr)"
| move: "tcp_reachable addr w \<Longrightarrow> tcp_moves w v \<Longrightarrow> tcp_reachable addr v"

inductive_cases tcp_movesE: "tcp_moves w v"

lemma tcp_run_reachable: "tcp_reachable addr w \<Longrightarrow> tcp_run evs w = Some v \<Longrightarrow> tcp_reachable addr v"
proof (induction evs arbitrary: w)
  case (Cons ev evs)
  then obtain u where "tcp_step ev w = Some u" and "tcp_run evs u = Some v" by (auto split: option.splits)
  then show ?case using Cons.IH Cons.prems(1) by (blast intro: tcp_reachable.move tcp_moves.intros)
qed simp

end
