(* ===== verification/Tcp_Inv.thy ===== *)
theory Tcp_Inv
  imports Transport_Tcp
begin

text \<open>
  The invariant of the TCP transport: which goroutine works on a connection in which phase, what the
  connection table holds, what has been written, read and handed on, and the count of the wait
  group. It is stated for one connection, one call or one key at a time, and each step preserves it.
\<close>

section \<open>Fields\<close>

lemma on_conn_simps [simp]:
  "tHeap (on_conn c f t) = (tHeap t)(c := f (tHeap t c))" "tConns (on_conn c f t) = tConns t"
  "tNext (on_conn c f t) = tNext t" "tWg (on_conn c f t) = tWg t" "tClosed (on_conn c f t) = tClosed t"
  "tStarted (on_conn c f t) = tStarted t" "tListener (on_conn c f t) = tListener t"
  "tHandler (on_conn c f t) = tHandler t" "tAccepts (on_conn c f t) = tAccepts t"
  "tListenAddr (on_conn c f t) = tListenAddr t"
  by (simp_all add: on_conn_def)

lemma unlinkConn_simps [simp]:
  "tHeap (unlinkConn c t) = tHeap t"
  "tNext (unlinkConn c t) = tNext t" "tWg (unlinkConn c t) = tWg t" "tClosed (unlinkConn c t) = tClosed t"
  "tStarted (unlinkConn c t) = tStarted t" "tListener (unlinkConn c t) = tListener t"
  "tHandler (unlinkConn c t) = tHandler t" "tAccepts (unlinkConn c t) = tAccepts t"
  "tListenAddr (unlinkConn c t) = tListenAddr t"
  by (simp_all add: unlinkConn_def)

lemma registerConnKey_simps [simp]:
  "tNext (registerConnKey c k t) = tNext t" "tWg (registerConnKey c k t) = tWg t"
  "tClosed (registerConnKey c k t) = tClosed t"
  "tStarted (registerConnKey c k t) = tStarted t" "tListener (registerConnKey c k t) = tListener t"
  "tHandler (registerConnKey c k t) = tHandler t" "tAccepts (registerConnKey c k t) = tAccepts t"
  "tListenAddr (registerConnKey c k t) = tListenAddr t"
  by (simp_all add: registerConnKey_def)

lemma addKey_simps [simp]:
  "cReady (addKey k c) = cReady c" "cErr (addKey k c) = cErr c" "cOpen (addKey k c) = cOpen c"
  "cStream (addKey k c) = cStream c" "cIn (addKey k c) = cIn c" "cOut (addKey k c) = cOut c"
  "cKeys (addKey k c) = mput k () (cKeys c)"
  by (simp_all add: addKey_def Let_def)

lemma setPeer_simps [simp]:
  "cReady (setPeer k c) = cReady c" "cErr (setPeer k c) = cErr c" "cOpen (setPeer k c) = cOpen c"
  "cStream (setPeer k c) = cStream c" "cIn (setPeer k c) = cIn c" "cOut (setPeer k c) = cOut c"
  "map_of (cKeys (setPeer k c)) x = (if x = k \<and> k \<noteq> [] then Some () else map_of (cKeys c) x)"
  by (simp_all add: setPeer_def Let_def gm.get_put)

lemma failReady_simps [simp]:
  "cReady (failReady e c)" "cErr (failReady e c) \<noteq> None" "cOpen (failReady e c) = cOpen c"
  "cStream (failReady e c) = cStream c" "cIn (failReady e c) = cIn c" "cOut (failReady e c) = cOut c"
  "cKeys (failReady e c) = cKeys c"
  by (simp_all add: failReady_def markReady_def)

lemma markReady_simps [simp]:
  "cReady (markReady c)" "cErr (markReady c) = cErr c" "cOpen (markReady c) = cOpen c"
  "cStream (markReady c) = cStream c" "cIn (markReady c) = cIn c" "cOut (markReady c) = cOut c"
  "cKeys (markReady c) = cKeys c"
  by (simp_all add: markReady_def)

lemma closeConn_simps [simp]:
  "cReady (closeConn c) = cReady c" "cErr (closeConn c) = cErr c" "\<not> cOpen (closeConn c)"
  "cStream (closeConn c) = cStream c" "cIn (closeConn c) = cIn c" "cOut (closeConn c) = cOut c"
  "cKeys (closeConn c) = cKeys c"
  by (simp_all add: closeConn_def)

lemma newConn_simps [simp]:
  "\<not> cReady (newConn s)" "cErr (newConn s) = None" "cOpen (newConn s)"
  "cStream (newConn s) = s" "cIn (newConn s) = s" "cOut (newConn s) = []" "cKeys (newConn s) = []"
  by (simp_all add: newConn_def)

lemma conn_write_cases:
  assumes "conn_write c frame io = (k, r)"
  obtains "k = c" "r = Some NetClosed" "\<not> cOpen c"
    | n e where "k = c\<lparr>cOut := cOut c @ [take n frame]\<rparr>" "r = Some e" "cOpen c"
    | "k = c\<lparr>cOut := cOut c @ [frame]\<rparr>" "r = None" "cOpen c"
  using assms unfolding conn_write_def by (cases io) (auto split: if_splits)

text \<open>A write changes nothing of a connection but its output.\<close>

lemma conn_write_frame:
  assumes "conn_write c frame io = (k, r)"
  shows "cReady k = cReady c" "cErr k = cErr c" "cOpen k = cOpen c" "cStream k = cStream c"
    "cIn k = cIn c" "cKeys k = cKeys c"
  by (rule conn_write_cases[OF assms]; simp)+

lemma unlink_keys_get:
  "map_of (unlink_keys c ks m) key = (if key \<in> set ks \<and> map_of m key = Some c then None else map_of m key)"
  by (induction ks arbitrary: m) (auto simp: gm.get_del)

lemma unlink_keys_wf: "mwf m \<Longrightarrow> mwf (unlink_keys c ks m)"
  by (induction ks arbitrary: m) (auto simp: gm.wf_del)

lemma unlinkConn_get:
  "map_of (tConns (unlinkConn c t)) key =
     (if map_of (cKeys (tHeap t c)) key \<noteq> None \<and> map_of (tConns t) key = Some c then None
      else map_of (tConns t) key)"
  unfolding unlinkConn_def keysSnapshot_def
  by (simp add: unlink_keys_get map_of_eq_None_iff)

lemma registerConnKey_get:
  "map_of (tConns (registerConnKey c k t)) key =
     (if key = k \<and> \<not> tClosed t \<and> map_of (tConns t) k = None then Some c else map_of (tConns t) key)"
  by (auto simp: registerConnKey_def gm.get_put)

lemma registerConnKey_heap:
  "cReady (tHeap (registerConnKey c k t) d) = cReady (tHeap t d)"
  "cErr (tHeap (registerConnKey c k t) d) = cErr (tHeap t d)"
  "cOpen (tHeap (registerConnKey c k t) d) = cOpen (tHeap t d)"
  "cStream (tHeap (registerConnKey c k t) d) = cStream (tHeap t d)"
  "cIn (tHeap (registerConnKey c k t) d) = cIn (tHeap t d)"
  "cOut (tHeap (registerConnKey c k t) d) = cOut (tHeap t d)"
  "map_of (cKeys (tHeap (registerConnKey c k t) d)) x =
     (if d = c \<and> x = k \<and> \<not> tClosed t \<and> map_of (tConns t) k \<in> {None, Some c} then Some ()
      else map_of (cKeys (tHeap t d)) x)"
  by (auto simp: registerConnKey_def gm.get_put)

lemma registerConnKey_other: "d \<noteq> c \<Longrightarrow> tHeap (registerConnKey c k t) d = tHeap t d"
  by (simp add: registerConnKey_def)

lemma unlinkConn_wf: "mwf (tConns t) \<Longrightarrow> mwf (tConns (unlinkConn c t))"
  by (simp add: unlinkConn_def unlink_keys_wf)

lemma registerConnKey_wf: "mwf (tConns t) \<Longrightarrow> mwf (tConns (registerConnKey c k t))"
  by (simp add: registerConnKey_def gm.wf_put)

lemma Addr_simps [simp]:
  "Addr (on_conn c f t) = Addr t" "Addr (unlinkConn c t) = Addr t" "Addr (registerConnKey c k t) = Addr t"
  by (simp_all add: Addr_def split: option.split)

section \<open>Leaf cases of the steps\<close>

text \<open>The three stages of \<open>dropConn\<close>.\<close>

lemma dropConn_cases:
  assumes "dropConn d c t = (t', r)"
  obtains "d = Unlink" "t' = unlinkConn c t" "r = Some Shut"
    | "d = Shut" "t' = on_conn c closeConn t" "r = Some Wake"
    | "d = Wake" "t' = on_conn c (failReady ReadEOF) t" "r = None"
  using assms by (cases d) auto

section \<open>Phases\<close>

text \<open>
  The handshake of a connection is \<open>early\<close> until its goroutine marks it ready or failed, or the
  caller that dialled it (\<open>greets\<close>) has started that goroutine; \<open>gone\<close> is a goroutine that has taken
  its connection out of the table.
\<close>

fun early :: "read_pc \<Rightarrow> bool" where
  "early NoReader = False" | "early Greet = True" | "early Shake = True" | "early (Name p) = True"
| "early (Register p) = True" | "early (Announce p) = True" | "early (Serve p) = False"
| "early (Failed e) = True" | "early (Dropping d) = False" | "early Exited = False"

fun gone :: "read_pc \<Rightarrow> bool" where
  "gone (Dropping d) = (d \<noteq> Unlink)" | "gone Exited = True" | "gone _ = False"

fun greets :: "send_pc \<Rightarrow> nat option" where
  "greets (Hello c) = Some c" | "greets (HelloFailed c e) = Some c" | "greets _ = None"

fun holds :: "send_pc \<Rightarrow> nat option" where
  "holds (Discard c d r) = Some c" | "holds (Put c) = Some c" | "holds _ = None"

fun awaits :: "send_pc \<Rightarrow> nat option" where
  "awaits (Await c) = Some c" | "awaits _ = None"

definition pc_of :: "tcp_world \<Rightarrow> nat \<Rightarrow> send_pc" where
  "pc_of w i = (case calls w i of None \<Rightarrow> Lookup | Some k \<Rightarrow> callPc k)"

section \<open>The invariant\<close>

text \<open>Connections exist only after \<open>Start\<close>, which fixes the address of the listener.\<close>

definition sys_ok :: "tcp_world \<Rightarrow> bool" where
  "sys_ok w \<longleftrightarrow> (tNext (tr w) > 0 \<or> accepting w \<longrightarrow> tStarted (tr w))
     \<and> (tStarted (tr w) \<longrightarrow> tListener (tr w) \<noteq> None \<and> tHandler (tr w)) \<and> mwf (tConns (tr w))"

definition conn_ok :: "tcp_world \<Rightarrow> nat \<Rightarrow> bool" where
  "conn_ok w c \<longleftrightarrow> (tNext (tr w) \<le> c \<longrightarrow> readers w c = NoReader)
     \<and> (readers w c \<noteq> NoReader \<longrightarrow> cReady (tHeap (tr w) c) = (\<not> early (readers w c)))"

definition call_ok :: "tcp_world \<Rightarrow> nat \<Rightarrow> bool" where
  "call_ok w i \<longleftrightarrow>
     (\<forall>c. greets (pc_of w i) = Some c \<longrightarrow>
        c < tNext (tr w) \<and> readers w c = NoReader \<and> \<not> cReady (tHeap (tr w) c))
     \<and> (\<forall>c. holds (pc_of w i) = Some c \<longrightarrow> c < tNext (tr w) \<and> cReady (tHeap (tr w) c))
     \<and> (\<forall>c. awaits (pc_of w i) = Some c \<longrightarrow> c < tNext (tr w))"

definition alone_ok :: "tcp_world \<Rightarrow> nat \<Rightarrow> nat \<Rightarrow> bool" where
  "alone_ok w i j \<longleftrightarrow> (greets (pc_of w i) \<noteq> None \<longrightarrow> greets (pc_of w i) = greets (pc_of w j) \<longrightarrow> i = j)"

text \<open>A connection of the table exists, knows the key it is filed under, and has not been dropped.\<close>

definition key_ok :: "tcp_world \<Rightarrow> string \<Rightarrow> bool" where
  "key_ok w key \<longleftrightarrow> (\<forall>c. map_of (tConns (tr w)) key = Some c \<longrightarrow>
     c < tNext (tr w) \<and> map_of (cKeys (tHeap (tr w) c)) key \<noteq> None \<and> \<not> gone (readers w c))"

definition tcp_ok :: "tcp_world \<Rightarrow> bool" where
  "tcp_ok w \<longleftrightarrow> sys_ok w \<and> (\<forall>c. conn_ok w c) \<and> (\<forall>i. call_ok w i) \<and> (\<forall>i j. alone_ok w i j)
     \<and> (\<forall>key. key_ok w key)"

lemma tcp_okI:
  assumes "sys_ok w" and "\<And>c. conn_ok w c" and "\<And>i. call_ok w i" and "\<And>i j. alone_ok w i j"
    and "\<And>key. key_ok w key"
  shows "tcp_ok w"
  using assms by (simp add: tcp_ok_def)

lemma tcp_okD:
  assumes "tcp_ok w"
  shows "sys_ok w" and "conn_ok w c" and "call_ok w i" and "alone_ok w i j" and "key_ok w key"
  using assms by (simp_all add: tcp_ok_def)

lemma tcp_ok_init: "tcp_ok (tcp_init addr)"
  by (rule tcp_okI) (simp_all add: sys_ok_def conn_ok_def call_ok_def alone_ok_def key_ok_def pc_of_def
      tcp_init_def NewTCPTransport_def)

text \<open>
  The goroutine of a connection moves to \<open>pc\<close> with transport \<open>t\<close>: what it needs to keep the
  invariant. Other connections are left alone, and only entries of its own enter or leave the table.
\<close>

lemma reader_keeps:
  assumes ok: "tcp_ok w" and old: "readers w c \<noteq> NoReader"
    and new: "pc \<noteq> NoReader" and ready: "cReady (tHeap t c) = (\<not> early pc)"
    and other: "\<And>d. d \<noteq> c \<Longrightarrow> tHeap t d = tHeap (tr w) d"
    and sys: "tNext t = tNext (tr w)" "tStarted t = tStarted (tr w)" "tListener t = tListener (tr w)"
      "tHandler t = tHandler (tr w)" "mwf (tConns t)"
    and keys: "\<And>key d. map_of (tConns t) key = Some d \<Longrightarrow>
      if map_of (tConns (tr w)) key = Some d
      then d = c \<longrightarrow> map_of (cKeys (tHeap t c)) key \<noteq> None \<and> \<not> gone pc
      else d = c \<and> map_of (cKeys (tHeap t c)) key \<noteq> None \<and> \<not> gone pc"
    and mono: "cReady (tHeap (tr w) c) \<Longrightarrow> \<not> early pc"
  shows "tcp_ok (w\<lparr>tr := t, readers := (readers w)(c := pc), delivered := l\<rparr>)" (is "tcp_ok ?v")
proof (rule tcp_okI)
  have c: "c < tNext (tr w)" using tcp_okD(2)[OF ok, of c] old by (auto simp: conn_ok_def not_le)
  have pcs: "pc_of ?v i = pc_of w i" for i by (simp add: pc_of_def)
  show "sys_ok ?v" using tcp_okD(1)[OF ok] sys by (simp add: sys_ok_def)
  show "conn_ok ?v d" for d
    using tcp_okD(2)[OF ok, of d] c ready other[of d] sys by (cases "d = c") (auto simp: conn_ok_def)
  show "call_ok ?v i" for i
    unfolding call_ok_def pcs
  proof (intro conjI allI impI)
    fix d assume g: "greets (pc_of w i) = Some d"
    then have "d < tNext (tr w) \<and> readers w d = NoReader \<and> \<not> cReady (tHeap (tr w) d)"
      using tcp_okD(3)[OF ok, of i] by (simp add: call_ok_def)
    moreover from this have "d \<noteq> c" using old by auto
    ultimately show "d < tNext (tr ?v)" "readers ?v d = NoReader" "\<not> cReady (tHeap (tr ?v) d)"
      using other[of d] sys(1) by simp_all
  next
    fix d assume g: "holds (pc_of w i) = Some d"
    then have "d < tNext (tr w) \<and> cReady (tHeap (tr w) d)"
      using tcp_okD(3)[OF ok, of i] by (simp add: call_ok_def)
    then show "d < tNext (tr ?v)" "cReady (tHeap (tr ?v) d)"
      using ready mono other[of d] sys by (cases "d = c"; simp)+
  next
    fix d assume g: "awaits (pc_of w i) = Some d"
    then show "d < tNext (tr ?v)" using tcp_okD(3)[OF ok, of i] sys by (simp add: call_ok_def)
  qed
  show "alone_ok ?v i j" for i j using tcp_okD(4)[OF ok, of i j] by (simp add: alone_ok_def pcs)
  show "key_ok ?v key" for key
    unfolding key_ok_def
  proof (intro allI impI)
    fix d assume "map_of (tConns (tr ?v)) key = Some d"
    then have m: "map_of (tConns t) key = Some d" by simp
    show "d < tNext (tr ?v) \<and> map_of (cKeys (tHeap (tr ?v) d)) key \<noteq> None \<and> \<not> gone (readers ?v d)"
      using keys[OF m] c sys other[of d] tcp_okD(5)[OF ok, of key] 
      by (cases "d = c") (auto simp: key_ok_def split: if_splits)
  qed
qed

lemma read_step_ok:
  assumes ok: "tcp_ok w" and step: "read_step c io (tr w) (readers w c) = Some (t, pc, r)"
  shows "tcp_ok (w\<lparr>tr := t, readers := (readers w)(c := pc), delivered := l\<rparr>)"
proof -
  let ?H = "tHeap (tr w)"
  have r: "readers w c \<noteq> NoReader" using step by auto
  have ready: "cReady (?H c) = (\<not> early (readers w c))" using tcp_okD(2)[OF ok, of c] r by (simp add: conn_ok_def)
  have wf: "mwf (tConns (tr w))" using tcp_okD(1)[OF ok] by (simp add: sys_ok_def)
  have key: "map_of (cKeys (?H c)) key \<noteq> None" "\<not> gone (readers w c)"
    if "map_of (tConns (tr w)) key = Some c" for key
    using tcp_okD(5)[OF ok, of key] that by (auto simp: key_ok_def)
  note keep = reader_keeps[OF ok r]
  show ?thesis
  proof (cases "readers w c")
    case Greet
    obtain k e where k: "conn_write (?H c) (encodeHandshake (Addr (tr w))) io = (k, e)" by fastforce
    note k' = conn_write_frame[OF k]
    show ?thesis
      by (rule keep) (use step Greet k k' ready wf key in \<open>auto split: option.splits if_splits\<close>)
  next
    case Shake
    show ?thesis
      by (rule keep) (use step Shake ready wf key in \<open>auto split: sum.splits if_splits\<close>)
  next
    case (Name p)
    show ?thesis by (rule keep) (use step Name ready wf key in \<open>auto split: if_splits\<close>)
  next
    case (Register p)
    show ?thesis
      by (rule keep) (use step Register ready key wf in
          \<open>auto simp: registerConnKey_get registerConnKey_heap registerConnKey_other registerConnKey_wf split: if_splits\<close>)
  next
    case (Announce p)
    show ?thesis by (rule keep) (use step Announce ready wf key in \<open>auto split: if_splits\<close>)
  next
    case (Serve p)
    show ?thesis
      by (rule keep) (use step Serve ready wf key in \<open>auto split: sum.splits if_splits\<close>)
  next
    case (Failed e)
    show ?thesis by (rule keep) (use step Failed ready wf key in \<open>auto split: if_splits\<close>)
  next
    case (Dropping d)
    obtain t1 r1 where d: "dropConn d c (tr w) = (t1, r1)" by fastforce
    from d show ?thesis
    proof (cases rule: dropConn_cases)
      case 1
      show ?thesis
        by (rule keep) (use step Dropping d 1 ready key wf in
            \<open>auto simp: unlinkConn_get unlinkConn_wf simp del: map_of_eq_Some_iff split: if_splits\<close>)
    next
      case 2
      show ?thesis
        by (rule keep) (use step Dropping d 2 ready key wf in \<open>auto split: if_splits\<close>)
    next
      case 3
      show ?thesis
        by (rule keep) (use step Dropping d 3 ready key wf in \<open>auto split: if_splits\<close>)
    qed
  qed (use step r in auto)
qed

text \<open>Updates that touch nothing the invariant speaks of.\<close>

lemma tcp_ok_cong:
  assumes "tcp_ok w" and "tNext (tr v) = tNext (tr w)" and "tStarted (tr v) = tStarted (tr w)"
    and "tListener (tr v) = tListener (tr w)" and "tHandler (tr v) = tHandler (tr w)"
    and "tConns (tr v) = tConns (tr w)" and "tHeap (tr v) = tHeap (tr w)" and "readers v = readers w"
    and "calls v = calls w" and "accepting v \<longrightarrow> accepting w"
  shows "tcp_ok v"
  using assms by (auto simp: tcp_ok_def sys_ok_def conn_ok_def call_ok_def alone_ok_def key_ok_def pc_of_def)

text \<open>A new connection, not yet in the table.\<close>

lemma fresh_keeps:
  assumes ok: "tcp_ok w" and "tStarted (tr w)" and "\<not> cReady k"
  shows "tcp_ok (w\<lparr>tr := (tr w)\<lparr>tHeap := (tHeap (tr w))(tNext (tr w) := k), tNext := Suc (tNext (tr w))\<rparr>\<rparr>)"
    (is "tcp_ok ?v")
proof (rule tcp_okI)
  have pcs: "pc_of ?v i = pc_of w i" for i by (simp add: pc_of_def)
  show "sys_ok ?v" using tcp_okD(1)[OF ok] assms(2) by (simp add: sys_ok_def)
  show "conn_ok ?v c" for c using tcp_okD(2)[OF ok, of c] assms(3) by (auto simp: conn_ok_def)
  show "call_ok ?v i" for i
    using tcp_okD(3)[OF ok, of i] assms(3) by (auto simp: call_ok_def pcs less_Suc_eq)
  show "alone_ok ?v i j" for i j using tcp_okD(4)[OF ok, of i j] by (simp add: alone_ok_def pcs)
  show "key_ok ?v key" for key using tcp_okD(5)[OF ok, of key] by (auto simp: key_ok_def)
qed

text \<open>The goroutine of a connection starts.\<close>

lemma spawn_keeps:
  assumes ok: "tcp_ok w" and "c < tNext (tr w)" and "readers w c = NoReader" and "\<not> cReady (tHeap (tr w) c)"
    and "\<And>i. greets (pc_of w i) \<noteq> Some c" and "early pc" and "\<not> gone pc"
  shows "tcp_ok (w\<lparr>readers := (readers w)(c := pc)\<rparr>)" (is "tcp_ok ?v")
proof (rule tcp_okI)
  have pcs: "pc_of ?v i = pc_of w i" for i by (simp add: pc_of_def)
  show "sys_ok ?v" using tcp_okD(1)[OF ok] by (simp add: sys_ok_def)
  show "conn_ok ?v d" for d using tcp_okD(2)[OF ok, of d] assms(2,4,6) by (auto simp: conn_ok_def)
  show "call_ok ?v i" for i
    using tcp_okD(3)[OF ok, of i] assms(5)[of i] by (auto simp: call_ok_def pcs)
  show "alone_ok ?v i j" for i j using tcp_okD(4)[OF ok, of i j] by (simp add: alone_ok_def pcs)
  show "key_ok ?v key" for key using tcp_okD(5)[OF ok, of key] assms(7) by (auto simp: key_ok_def)
qed

text \<open>A key enters the table.\<close>

lemma link_keeps:
  assumes ok: "tcp_ok w" and "c < tNext (tr w)" and "map_of (cKeys (tHeap (tr w) c)) key \<noteq> None"
    and "\<not> gone (readers w c)"
  shows "tcp_ok (w\<lparr>tr := (tr w)\<lparr>tConns := mput key c (tConns (tr w))\<rparr>\<rparr>)" (is "tcp_ok ?v")
proof (rule tcp_okI)
  have pcs: "pc_of ?v i = pc_of w i" for i by (simp add: pc_of_def)
  show "sys_ok ?v" using tcp_okD(1)[OF ok] by (simp add: sys_ok_def gm.wf_put)
  show "conn_ok ?v d" for d using tcp_okD(2)[OF ok, of d] by (simp add: conn_ok_def)
  show "call_ok ?v i" for i using tcp_okD(3)[OF ok, of i] by (simp add: call_ok_def pcs)
  show "alone_ok ?v i j" for i j using tcp_okD(4)[OF ok, of i j] by (simp add: alone_ok_def pcs)
  show "key_ok ?v k" for k
    using tcp_okD(5)[OF ok, of k] assms(2-4) by (auto simp: key_ok_def gm.get_put)
qed

text \<open>A call moves on, and may have worked on a connection it greets or holds.\<close>

lemma caller_keeps:
  assumes ok: "tcp_ok w" and call: "calls w i = Some k"
    and other: "\<And>d. d \<noteq> c \<Longrightarrow> tHeap t d = tHeap (tr w) d"
    and sys: "tNext t = tNext (tr w)" "tStarted t = tStarted (tr w)" "tListener t = tListener (tr w)"
      "tHandler t = tHandler (tr w)" "mwf (tConns t)"
    and keys: "\<And>key d. map_of (tConns t) key = Some d \<Longrightarrow> map_of (tConns (tr w)) key = Some d"
    and known: "\<And>key. map_of (cKeys (tHeap (tr w) c)) key \<noteq> None \<Longrightarrow> map_of (cKeys (tHeap t c)) key \<noteq> None"
    and ready: "cReady (tHeap t c) = cReady (tHeap (tr w) c) \<or> greets (callPc k) = Some c \<and> cReady (tHeap t c)"
    and pc: "greets pc \<noteq> None \<Longrightarrow> greets pc = Some c \<and> greets (callPc k) = Some c \<and> \<not> cReady (tHeap t c)"
      "holds pc \<noteq> None \<Longrightarrow> holds pc = Some c \<and> cReady (tHeap t c) \<and> c < tNext t"
      "\<And>d. awaits pc = Some d \<Longrightarrow> d < tNext t"
  shows "tcp_ok (w\<lparr>tr := t, calls := (calls w)(i \<mapsto> k\<lparr>callPc := pc\<rparr>)\<rparr>)" (is "tcp_ok ?v")
proof (rule tcp_okI)
  have pcs: "pc_of ?v j = (if j = i then pc else pc_of w j)" for j by (simp add: pc_of_def)
  have old: "pc_of w i = callPc k" using call by (simp add: pc_of_def)
  have mono: "cReady (tHeap (tr w) d) \<Longrightarrow> cReady (tHeap t d)" for d
    using ready other[of d] by (cases "d = c") auto
  have idle: "greets (callPc k) = Some c \<Longrightarrow> c < tNext (tr w) \<and> readers w c = NoReader"
    using tcp_okD(3)[OF ok, of i] old by (auto simp: call_ok_def)
  show "sys_ok ?v" using tcp_okD(1)[OF ok] sys by (simp add: sys_ok_def)
  show "conn_ok ?v d" for d
    using tcp_okD(2)[OF ok, of d] ready idle other[of d] sys(1) by (cases "d = c") (auto simp: conn_ok_def)
  show "call_ok ?v j" for j
  proof (cases "j = i")
    case True
    then show ?thesis using pc idle sys(1) by (auto simp: call_ok_def pcs)
  next
    case False
    have "\<not> cReady (tHeap t d)" if "greets (pc_of w j) = Some d" for d
    proof (cases "d = c")
      case True
      then have "greets (callPc k) \<noteq> Some c"
        using that False tcp_okD(4)[OF ok, of j i] old by (auto simp: alone_ok_def)
      then show ?thesis using that True ready tcp_okD(3)[OF ok, of j] by (auto simp: call_ok_def)
    next
      case other': False
      then show ?thesis using that other tcp_okD(3)[OF ok, of j] by (auto simp: call_ok_def)
    qed
    then show ?thesis using False tcp_okD(3)[OF ok, of j] mono sys(1) by (auto simp: call_ok_def pcs)
  qed
  show "alone_ok ?v j l" for j l
  proof -
    have "greets pc \<noteq> None \<Longrightarrow> greets pc = greets (pc_of w i)" using pc(1) old by simp
    then show ?thesis
      using tcp_okD(4)[OF ok, of j l] tcp_okD(4)[OF ok, of i l] tcp_okD(4)[OF ok, of j i]
      unfolding alone_ok_def pcs by (cases "j = i"; cases "l = i") auto
  qed
  show "key_ok ?v key" for key
    unfolding key_ok_def
  proof (intro allI impI)
    fix d assume "map_of (tConns (tr ?v)) key = Some d"
    then have "map_of (tConns (tr w)) key = Some d" using keys by simp
    then have "d < tNext (tr w) \<and> map_of (cKeys (tHeap (tr w) d)) key \<noteq> None \<and> \<not> gone (readers w d)"
      using tcp_okD(5)[OF ok, of key] by (simp add: key_ok_def)
    then show "d < tNext (tr ?v) \<and> map_of (cKeys (tHeap (tr ?v) d)) key \<noteq> None \<and> \<not> gone (readers ?v d)"
      using known[of key] other[of d] sys(1) by (cases "d = c") auto
  qed
qed

end
