(* ===== verification/Tcp_Safety.thy ===== *)
theory Tcp_Safety
  imports Tcp_Inv
begin

text \<open>
  Every step of the TCP transport keeps the invariant of \<open>Tcp_Inv\<close>, so it holds in every reachable
  state; and what follows from it: no call waits for a connection that nobody will make ready, and
  a connection that was dropped does not come back.
\<close>

section \<open>Steps of a call\<close>

lemma startOutbound_cases:
  assumes "startOutbound s peer t = (t', c, new)"
  obtains d where "map_of (tConns t) peer = Some d" "c = d" "\<not> new"
      "t' = t\<lparr>tHeap := (tHeap t)(tNext t := closeConn (addKey peer (newConn s))), tNext := Suc (tNext t)\<rparr>"
    | "map_of (tConns t) peer = None" "c = tNext t" "new"
      "t' = t\<lparr>tHeap := (tHeap t)(tNext t := addKey peer (newConn s)), tNext := Suc (tNext t),
         tConns := mput peer (tNext t) (tConns t)\<rparr>"
  using assms by (auto simp: startOutbound_def Let_def split: option.splits)

lemma greets_Some: "greets pc = Some c \<longleftrightarrow> pc = Hello c \<or> (\<exists>e. pc = HelloFailed c e)"
  by (cases pc) auto

text \<open>\<open>startConn\<close> of a dialled connection.\<close>

lemma enter_ok:
  assumes ok: "tcp_ok w" and call: "calls w i = Some k" "callPc k = Enter s"
    and start: "tStarted (tr w)" and step: "startOutbound s (callPeer k) (tr w) = (t, c, new)"
  shows "tcp_ok (w\<lparr>tr := t, calls := (calls w)(i \<mapsto> k\<lparr>callPc := (if new then Hello c else Await c)\<rparr>)\<rparr>)"
proof -
  let ?n = "tNext (tr w)"
  from step show ?thesis
  proof (cases rule: startOutbound_cases)
    case (1 d)
    let ?k = "closeConn (addKey (callPeer k) (newConn s))"
    let ?w = "w\<lparr>tr := (tr w)\<lparr>tHeap := (tHeap (tr w))(?n := ?k), tNext := Suc ?n\<rparr>\<rparr>"
    have d: "d < ?n" using tcp_okD(5)[OF ok, of "callPeer k"] 1(1) by (simp add: key_ok_def)
    have ok1: "tcp_ok ?w" by (rule fresh_keeps[OF ok start]) simp
    have "tcp_ok (?w\<lparr>tr := tr ?w, calls := (calls ?w)(i \<mapsto> k\<lparr>callPc := Await d\<rparr>)\<rparr>)"
      by (rule caller_keeps[OF ok1, where c = d])
        (use call d tcp_okD(1)[OF ok1] in \<open>auto simp: sys_ok_def\<close>)
    then show ?thesis using 1 by simp
  next
    case 2
    let ?k = "addKey (callPeer k) (newConn s)"
    let ?w = "w\<lparr>tr := (tr w)\<lparr>tHeap := (tHeap (tr w))(?n := ?k), tNext := Suc ?n\<rparr>\<rparr>"
    let ?v = "?w\<lparr>tr := (tr ?w)\<lparr>tConns := mput (callPeer k) ?n (tConns (tr ?w))\<rparr>\<rparr>"
    have idle: "readers w ?n = NoReader" using tcp_okD(2)[OF ok, of ?n] by (simp add: conn_ok_def)
    have ok1: "tcp_ok ?w" by (rule fresh_keeps[OF ok start]) simp
    have ok2: "tcp_ok ?v" by (rule link_keeps[OF ok1]) (simp_all add: idle gm.get_put)
    have nobody: "greets (pc_of w j) \<noteq> Some ?n" for j
      using tcp_okD(3)[OF ok, of j] by (auto simp: call_ok_def)
    have "tcp_ok (?v\<lparr>calls := (calls ?v)(i \<mapsto> k\<lparr>callPc := Hello ?n\<rparr>)\<rparr>)" (is "tcp_ok ?u")
    proof (rule tcp_okI)
      have pcs: "pc_of ?u j = (if j = i then Hello ?n else pc_of w j)" for j by (simp add: pc_of_def)
      have pcv: "pc_of ?v j = pc_of w j" for j by (simp add: pc_of_def)
      show "sys_ok ?u" using tcp_okD(1)[OF ok2] by (simp add: sys_ok_def)
      show "conn_ok ?u d" for d using tcp_okD(2)[OF ok2, of d] by (simp add: conn_ok_def)
      show "call_ok ?u j" for j
        using tcp_okD(3)[OF ok2, of j] idle unfolding call_ok_def pcs pcv by auto
      show "alone_ok ?u j l" for j l
        using tcp_okD(4)[OF ok, of j l] nobody[of j] nobody[of l] unfolding alone_ok_def pcs by auto
      show "key_ok ?u key" for key using tcp_okD(5)[OF ok2, of key] by (simp add: key_ok_def)
    qed
    then show ?thesis using 2 by simp
  qed
qed

lemma send_step_ok:
  assumes ok: "tcp_ok w" and call: "calls w i = Some k"
    and step: "send_step (callPeer k) (callMsg k) io (tr w) (callPc k) = Some (t, pc, r)"
    and start: "callPc k \<noteq> Lookup \<Longrightarrow> tStarted (tr w)"
  shows "tcp_ok (case r of
      None \<Rightarrow> w\<lparr>tr := t, calls := (calls w)(i \<mapsto> k\<lparr>callPc := pc\<rparr>)\<rparr>
    | Some c \<Rightarrow> w\<lparr>tr := t, calls := (calls w)(i \<mapsto> k\<lparr>callPc := pc\<rparr>), readers := (readers w)(c := Shake)\<rparr>)"
proof -
  have old: "pc_of w i = callPc k" using call by (simp add: pc_of_def)
  have wf: "mwf (tConns (tr w))" using tcp_okD(1)[OF ok] by (simp add: sys_ok_def)
  have c: "greets (callPc k) = Some c \<Longrightarrow> c < tNext (tr w) \<and> readers w c = NoReader \<and> \<not> cReady (tHeap (tr w) c)"
    "holds (callPc k) = Some c \<Longrightarrow> c < tNext (tr w) \<and> cReady (tHeap (tr w) c)"
    "awaits (callPc k) = Some c \<Longrightarrow> c < tNext (tr w)" for c
    using tcp_okD(3)[OF ok, of i] old by (simp_all add: call_ok_def)
  note keep = caller_keeps[OF ok call]
  show ?thesis
  proof (cases "callPc k")
    case Lookup
    have key: "c < tNext (tr w)" if "map_of (tConns (tr w)) (callPeer k) = Some c" for c
      using tcp_okD(5)[OF ok, of "callPeer k"] that by (simp add: key_ok_def)
    from step Lookup have "r = None" "t = tr w" by (auto split: sum.splits option.splits)
    moreover have "tcp_ok (w\<lparr>tr := tr w, calls := (calls w)(i \<mapsto> k\<lparr>callPc := pc\<rparr>)\<rparr>)"
      by (rule keep) (use step Lookup wf key in
          \<open>auto simp: getOrDial_def simp del: map_of_eq_Some_iff split: sum.splits option.splits if_splits\<close>)
    ultimately show ?thesis by simp
  next
    case Dial
    from step Dial have "r = None" "t = tr w" by (auto split: net_io.splits)
    moreover have "tcp_ok (w\<lparr>tr := tr w, calls := (calls w)(i \<mapsto> k\<lparr>callPc := pc\<rparr>)\<rparr>)"
      by (rule keep) (use step Dial wf in \<open>auto split: net_io.splits\<close>)
    ultimately show ?thesis by simp
  next
    case (Enter s)
    obtain t1 c1 new where e: "startOutbound s (callPeer k) (tr w) = (t1, c1, new)" by (metis prod_cases3)
    from step Enter e have "t = t1" "pc = (if new then Hello c1 else Await c1)" "r = None"
      by (auto split: bool.splits)
    then show ?thesis using enter_ok[OF ok call Enter _ e] start Enter by simp
  next
    case (Hello d)
    obtain h e where h: "conn_write (tHeap (tr w) d) (encodeHandshake (Addr (tr w))) io = (h, e)" by fastforce
    note h' = conn_write_frame[OF h] and d = c(1)[of d]
    show ?thesis
    proof (cases e)
      case (Some e')
      then have "r = None" "t = on_conn d (\<lambda>_. h) (tr w)" "pc = HelloFailed d e'" using step Hello h by auto
      moreover have "tcp_ok (w\<lparr>tr := on_conn d (\<lambda>_. h) (tr w), calls := (calls w)(i \<mapsto> k\<lparr>callPc := HelloFailed d e'\<rparr>)\<rparr>)"
        by (rule keep) (use Hello h' d wf in auto)
      ultimately show ?thesis by simp
    next
      case None
      let ?v = "w\<lparr>tr := on_conn d (\<lambda>_. h) (tr w), calls := (calls w)(i \<mapsto> k\<lparr>callPc := Await d\<rparr>)\<rparr>"
      have ok1: "tcp_ok ?v" by (rule keep) (use Hello h' d wf in auto)
      have "greets (pc_of ?v j) \<noteq> Some d" for j
        using tcp_okD(4)[OF ok, of i j] old Hello by (auto simp: pc_of_def alone_ok_def)
      then have "tcp_ok (?v\<lparr>readers := (readers ?v)(d := Shake)\<rparr>)"
        by (intro spawn_keeps[OF ok1]) (use Hello h' d in auto)
      then have "tcp_ok (w\<lparr>tr := (on_conn d (\<lambda>_. h) (tr w))\<lparr>tWg := tWg (tr w) + 1\<rparr>,
          calls := (calls w)(i \<mapsto> k\<lparr>callPc := Await d\<rparr>), readers := (readers w)(d := Shake)\<rparr>)"
        by (rule tcp_ok_cong) simp_all
      then show ?thesis using step Hello h None by auto
    qed
  next
    case (HelloFailed d e)
    have "tcp_ok (w\<lparr>tr := on_conn d (failReady e) (tr w), calls := (calls w)(i \<mapsto> k\<lparr>callPc := Discard d Unlink None\<rparr>)\<rparr>)"
      by (rule keep) (use HelloFailed c(1)[of d] wf in auto)
    then show ?thesis using step HelloFailed by auto
  next
    case (Discard d p r')
    have h: "d < tNext (tr w)" "cReady (tHeap (tr w) d)" using c(2)[of d] Discard by simp_all
    obtain t1 r1 where dr: "dropConn p d (tr w) = (t1, r1)" by fastforce
    from step Discard dr have r: "r = None" "t = t1"
      "pc = (case r1 of Some q \<Rightarrow> Discard d q r' | None \<Rightarrow> case r' of None \<Rightarrow> Await d | Some e \<Rightarrow> Returned (Some e))"
      by (auto split: option.splits)
    have "tcp_ok (w\<lparr>tr := t1, calls := (calls w)(i \<mapsto> k\<lparr>callPc := pc\<rparr>)\<rparr>)"
      using dr
    proof (cases rule: dropConn_cases)
      case 1
      show ?thesis
        by (rule keep) (use Discard h r 1 wf in
            \<open>auto simp: unlinkConn_get unlinkConn_wf simp del: map_of_eq_Some_iff split: if_splits\<close>)
    next
      case 2
      show ?thesis by (rule keep) (use Discard h r 2 wf in \<open>auto split: if_splits\<close>)
    next
      case 3
      show ?thesis by (rule keep) (use Discard h r 3 wf in \<open>auto split: if_splits option.splits\<close>)
    qed
    then show ?thesis using r by simp
  next
    case (Await d)
    from step Await have "r = None" "t = tr w" by (auto split: option.splits sum.splits)
    moreover have "tcp_ok (w\<lparr>tr := tr w, calls := (calls w)(i \<mapsto> k\<lparr>callPc := pc\<rparr>)\<rparr>)"
      by (rule keep[where c = d]) (use step Await wf c(3)[of d] in
          \<open>auto simp: waitReady_def split: option.splits sum.splits if_splits\<close>)
    ultimately show ?thesis by simp
  next
    case (Put d)
    obtain h e where h: "conn_write (tHeap (tr w) d) (EncodeMessageFrame (callMsg k)) io = (h, e)" by fastforce
    note h' = conn_write_frame[OF h] and d = c(2)[of d]
    from step Put h have r: "r = None" "t = on_conn d (\<lambda>_. h) (tr w)"
      "pc = (case e of None \<Rightarrow> Returned None | Some e \<Rightarrow> Discard d Unlink (Some e))"
      by (auto split: option.splits)
    have "tcp_ok (w\<lparr>tr := on_conn d (\<lambda>_. h) (tr w), calls := (calls w)(i \<mapsto> k\<lparr>callPc := pc\<rparr>)\<rparr>)"
      by (rule keep) (use Put h' d wf r in \<open>auto split: option.splits\<close>)
    then show ?thesis using r by simp
  qed (use step in auto)
qed

section \<open>The other steps\<close>

lemma close_step_ok:
  assumes ok: "tcp_ok w" and step: "close_step io (tr w) pc = Some (t, pc')"
  shows "tcp_ok (w\<lparr>tr := t, closer := pc'\<rparr>)"
proof -
  have closed: "tcp_ok (w\<lparr>tr := on_conn c closeConn (tr w), closer := pc'\<rparr>)" for c
    using ok by (auto simp: tcp_ok_def sys_ok_def conn_ok_def call_ok_def alone_ok_def key_ok_def pc_of_def)
  have "tHeap t = tHeap (tr w) \<or> (\<exists>c. t = on_conn c closeConn (tr w))"
    using step by (cases "(io, tr w, pc)" rule: close_step.cases) (auto split: if_splits)
  then show ?thesis
  proof
    assume h: "tHeap t = tHeap (tr w)"
    show ?thesis
      by (rule tcp_ok_cong[OF ok])
        (use step h in \<open>cases "(io, tr w, pc)" rule: close_step.cases; auto split: if_splits\<close>)+
  qed (use closed in auto)
qed

lemma accept_step_ok:
  assumes ok: "tcp_ok w" and run: "accepting w" and step: "accept_step io (tr w) = (t, r, go)"
  shows "tcp_ok (case r of None \<Rightarrow> w\<lparr>tr := t, accepting := go\<rparr>
    | Some c \<Rightarrow> w\<lparr>tr := t, accepting := go, readers := (readers w)(c := Greet)\<rparr>)"
proof (cases r)
  case None
  have "tcp_ok (w\<lparr>tr := t, accepting := go\<rparr>)"
    by (rule tcp_ok_cong[OF ok])
      (use step None run in \<open>auto simp: accept_step_def split: if_splits net_io.splits prod.splits\<close>)
  then show ?thesis using None by simp
next
  case (Some c)
  let ?n = "tNext (tr w)"
  from step Some obtain s where c: "c = ?n" "go"
    "t = (tr w)\<lparr>tHeap := (tHeap (tr w))(?n := newConn s), tNext := Suc ?n, tWg := tWg (tr w) + 1\<rparr>"
    by (auto simp: accept_step_def startInbound_def Let_def split: if_splits net_io.splits)
  let ?v = "w\<lparr>tr := (tr w)\<lparr>tHeap := (tHeap (tr w))(?n := newConn s), tNext := Suc ?n\<rparr>\<rparr>"
  have "tStarted (tr w)" using tcp_okD(1)[OF ok] run by (simp add: sys_ok_def)
  then have ok1: "tcp_ok ?v" by (rule fresh_keeps[OF ok]) simp
  have "readers w ?n = NoReader" using tcp_okD(2)[OF ok, of ?n] by (simp add: conn_ok_def)
  moreover have "greets (pc_of ?v j) \<noteq> Some ?n" for j
    using tcp_okD(3)[OF ok, of j] by (auto simp: call_ok_def pc_of_def)
  ultimately have "tcp_ok (?v\<lparr>readers := (readers ?v)(?n := Greet)\<rparr>)"
    by (intro spawn_keeps[OF ok1]) auto
  then have "tcp_ok (w\<lparr>tr := t, accepting := go, readers := (readers w)(?n := Greet)\<rparr>)"
    by (rule tcp_ok_cong) (use c run in simp_all)
  then show ?thesis using Some c by simp
qed

text \<open>A call that is past its lookup found the transport started, and it stays started.\<close>

definition past_lookup :: "send_pc \<Rightarrow> bool" where
  "past_lookup pc \<longleftrightarrow> pc \<noteq> Lookup \<and> (\<forall>r. pc \<noteq> Returned r)"

definition calls_started :: "tcp_world \<Rightarrow> bool" where
  "calls_started w \<longleftrightarrow> (\<forall>i. past_lookup (pc_of w i) \<longrightarrow> tStarted (tr w))"

lemma dropConn_started [simp]: "dropConn d c t = (t', r) \<Longrightarrow> tStarted t' = tStarted t"
  by (erule dropConn_cases) simp_all

lemma read_step_started: "read_step c io t pc = Some (t', pc', r) \<Longrightarrow> tStarted t' = tStarted t"
  by (cases pc) (auto split: prod.splits option.splits sum.splits)

lemma send_step_started:
  "send_step p m io t pc = Some (t', pc', r) \<Longrightarrow> tStarted t' = tStarted t \<and> (pc = Lookup \<longrightarrow> past_lookup pc' \<longrightarrow> tStarted t)"
proof (cases pc)
  case (Enter s)
  assume step: "send_step p m io t pc = Some (t', pc', r)"
  obtain t1 c1 new where e: "startOutbound s p t = (t1, c1, new)" by (metis prod_cases3)
  from e have "tStarted t1 = tStarted t" by (cases rule: startOutbound_cases) auto
  then show ?thesis using step Enter e by (auto split: bool.splits)
qed (auto simp: getOrDial_def past_lookup_def split: prod.splits option.splits sum.splits net_io.splits if_splits)

text \<open>The steps of a process, by the component that moves.\<close>

lemma tcp_stepE:
  assumes "tcp_step ev w = Some v"
  obtains (start) h l t r where "Start h l (tr w) = (t, r)"
      "v = w\<lparr>tr := t, accepting := (accepting w \<or> r = Inr ())\<rparr>"
    | (call) i p m where "calls w i = None"
      "v = w\<lparr>calls := (calls w)(i \<mapsto> \<lparr>callPeer = p, callMsg = m, callPc = Lookup\<rparr>)\<rparr>"
    | (close) t r where "CloseBegin (tr w) = (t, r)"
      "v = w\<lparr>tr := t, closer := (case r of None \<Rightarrow> closer w | Some pc \<Rightarrow> pc)\<rparr>"
    | (accept) io t r go where "accepting w" "accept_step io (tr w) = (t, r, go)"
      "v = (case r of None \<Rightarrow> w\<lparr>tr := t, accepting := go\<rparr>
          | Some c \<Rightarrow> w\<lparr>tr := t, accepting := go, readers := (readers w)(c := Greet)\<rparr>)"
    | (read) c io t pc r where "read_step c io (tr w) (readers w c) = Some (t, pc, r)"
      "v = w\<lparr>tr := t, readers := (readers w)(c := pc),
          delivered := delivered w @ (case r of None \<Rightarrow> [] | Some d \<Rightarrow> [(c, d)])\<rparr>"
    | (send) i io k t pc r where "calls w i = Some k"
      "send_step (callPeer k) (callMsg k) io (tr w) (callPc k) = Some (t, pc, r)"
      "v = (case r of None \<Rightarrow> w\<lparr>tr := t, calls := (calls w)(i \<mapsto> k\<lparr>callPc := pc\<rparr>)\<rparr>
          | Some c \<Rightarrow> w\<lparr>tr := t, calls := (calls w)(i \<mapsto> k\<lparr>callPc := pc\<rparr>), readers := (readers w)(c := Shake)\<rparr>)"
    | (shut) io t pc where "close_step io (tr w) (closer w) = Some (t, pc)" "v = w\<lparr>tr := t, closer := pc\<rparr>"
proof (cases ev)
  case (DoStart h l)
  obtain t r where "Start h l (tr w) = (t, r)" by fastforce
  then show ?thesis using assms DoStart by (intro start) (auto split: sum.splits)
next
  case (DoSend i p m)
  then show ?thesis using assms by (intro call) (auto split: if_splits)
next
  case DoClose
  obtain t r where "CloseBegin (tr w) = (t, r)" by fastforce
  then show ?thesis using assms DoClose by (intro close) (auto split: option.splits)
next
  case (AcceptStep io)
  obtain t r go where "accept_step io (tr w) = (t, r, go)" by (metis prod_cases3)
  then show ?thesis using assms AcceptStep by (intro accept) (auto split: if_splits option.splits)
next
  case (ReadStep c io)
  with assms obtain t pc r where "read_step c io (tr w) (readers w c) = Some (t, pc, r)"
    by (auto split: option.splits)
  then show ?thesis using assms ReadStep by (intro read) (auto split: option.splits)
next
  case (SendStep i io)
  with assms obtain k t pc r where "calls w i = Some k"
    "send_step (callPeer k) (callMsg k) io (tr w) (callPc k) = Some (t, pc, r)"
    by (auto split: option.splits)
  then show ?thesis using assms SendStep by (intro send) (auto split: option.splits)
next
  case (CloseStep io)
  with assms obtain t pc where "close_step io (tr w) (closer w) = Some (t, pc)" by (auto split: option.splits)
  then show ?thesis using assms CloseStep by (intro shut) auto
qed

lemma close_step_frame:
  "close_step io t pc = Some (t', pc') \<Longrightarrow> tStarted t' = tStarted t \<and> tNext t' = tNext t \<and> tConns t' = tConns t
     \<and> tListener t' = tListener t \<and> tHandler t' = tHandler t \<and> tWg t' = tWg t \<and> tListenAddr t' = tListenAddr t"
  by (cases "(io, t, pc)" rule: close_step.cases) (auto split: if_splits)

lemma Start_cases:
  assumes "Start h l t = (t', r)"
  obtains e where "t' = t" "r = Inl e"
    | a where "\<not> tClosed t" "\<not> tStarted t" "h" "l = Inr a" "r = Inr ()"
      "t' = t\<lparr>tListener := Some a, tAccepts := True, tHandler := True, tStarted := True, tWg := tWg t + 1\<rparr>"
  using assms by (auto simp: Start_def split: if_splits sum.splits)

lemma accept_step_cases:
  assumes "accept_step io t = (t', r, go)"
  obtains "t' = t\<lparr>tWg := tWg t - 1\<rparr>" "r = None" "\<not> go"
    | "t' = t" "r = None" "go"
    | s where "t' = t\<lparr>tHeap := (tHeap t)(tNext t := newConn s), tNext := Suc (tNext t), tWg := tWg t + 1\<rparr>"
      "r = Some (tNext t)" "go"
proof (cases "tAccepts t")
  case False
  then show ?thesis using assms by (intro that(1)) (auto simp: accept_step_def)
next
  case True
  show ?thesis
  proof (cases io)
    case Fine
    then show ?thesis using assms True by (intro that(2)) (auto simp: accept_step_def)
  next
    case (Broken n e)
    then show ?thesis using assms True that(1,2) by (auto simp: accept_step_def split: if_splits)
  next
    case (Stream s)
    then show ?thesis using assms True
      by (intro that(3)[of s]) (auto simp: accept_step_def startInbound_def Let_def)
  qed
qed

lemma step_started:
  assumes "tcp_step ev w = Some v" and "tStarted (tr w)"
  shows "tStarted (tr v)"
  using assms(1)
proof (cases rule: tcp_stepE)
  case (start h l t r)
  from start(1) show ?thesis using start(2) assms(2) by (cases rule: Start_cases) auto
next
  case (close t r)
  then show ?thesis using assms(2) by (auto simp: CloseBegin_def split: if_splits)
next
  case (accept io t r go)
  from accept(2) show ?thesis using accept(3) assms(2) by (cases rule: accept_step_cases) auto
next
  case (read c io t pc r)
  then show ?thesis using assms(2) read_step_started by auto
next
  case (send i io k t pc r)
  then show ?thesis using assms(2) send_step_started[OF send(2)] by (auto split: option.splits)
next
  case (shut io t pc)
  then show ?thesis using assms(2) close_step_frame[OF shut(1)] by simp
qed (use assms(2) in simp)

lemma step_calls_started:
  assumes "tcp_step ev w = Some v" and "calls_started w"
  shows "calls_started v"
proof -
  have mono: "tStarted (tr w) \<Longrightarrow> tStarted (tr v)" by (rule step_started[OF assms(1)])
  have same: "calls_started v" if "calls v = calls w"
    using assms(2) mono that by (auto simp: calls_started_def pc_of_def)
  from assms(1) show ?thesis
  proof (cases rule: tcp_stepE)
    case (call i p m)
    then show ?thesis using assms(2) by (auto simp: calls_started_def pc_of_def past_lookup_def split: if_splits)
  next
    case (send i io k t pc r)
    have pcs: "pc_of v j = (if j = i then pc else pc_of w j)" for j
      using send(3) by (auto simp: pc_of_def split: option.splits)
    have "past_lookup pc \<Longrightarrow> tStarted (tr w)"
      using send_step_started[OF send(2)] assms(2) send(1,2)
      by (cases "callPc k = Lookup") (auto simp: calls_started_def pc_of_def past_lookup_def dest!: spec[of _ i])
    then show ?thesis using assms(2) mono unfolding calls_started_def pcs by auto
  qed (rule same; simp split: option.splits)+
qed

theorem tcp_step_ok:
  assumes ok: "tcp_ok w" and calls: "calls_started w" and step: "tcp_step ev w = Some v"
  shows "tcp_ok v"
  using step
proof (cases rule: tcp_stepE)
  case (start h l t r)
  from start(1) show ?thesis
  proof (cases rule: Start_cases)
    case (1 e)
    then show ?thesis using start ok by (intro tcp_ok_cong[OF ok]) simp_all
  next
    case (2 a)
    then show ?thesis using start ok
      by (auto simp: tcp_ok_def sys_ok_def conn_ok_def call_ok_def alone_ok_def key_ok_def pc_of_def)
  qed
next
  case (call i p m)
  have pcs: "pc_of v j = (if j = i then Lookup else pc_of w j)" for j using call by (simp add: pc_of_def)
  show ?thesis
  proof (rule tcp_okI)
    show "sys_ok v" using tcp_okD(1)[OF ok] call by (simp add: sys_ok_def)
    show "conn_ok v c" for c using tcp_okD(2)[OF ok, of c] call by (simp add: conn_ok_def)
    show "call_ok v j" for j using tcp_okD(3)[OF ok, of j] call(2) unfolding call_ok_def pcs by auto
    show "alone_ok v j l" for j l using tcp_okD(4)[OF ok, of j l] unfolding alone_ok_def pcs by auto
    show "key_ok v key" for key using tcp_okD(5)[OF ok, of key] call by (simp add: key_ok_def)
  qed
next
  case (close t r)
  then show ?thesis by (intro tcp_ok_cong[OF ok]) (auto simp: CloseBegin_def split: if_splits)
next
  case (accept io t r go)
  then show ?thesis using accept_step_ok[OF ok accept(1,2)] by simp
next
  case (read c io t pc r)
  then show ?thesis using read_step_ok[OF ok read(1)] by simp
next
  case (send i io k t pc r)
  have "callPc k \<noteq> Lookup \<Longrightarrow> tStarted (tr w)"
    using calls send(1,2) unfolding calls_started_def past_lookup_def pc_of_def
    by (metis option.simps(5) send_step.simps(9) option.distinct(1))
  then show ?thesis using send_step_ok[OF ok send(1,2)] send(3) by simp
next
  case (shut io t pc)
  then show ?thesis using close_step_ok[OF ok shut(1)] by simp
qed

lemma tcp_reachable_inv: "tcp_reachable addr w \<Longrightarrow> tcp_ok w \<and> calls_started w"
proof (induction rule: tcp_reachable.induct)
  case fresh
  then show ?case using tcp_ok_init
    by (simp add: calls_started_def pc_of_def past_lookup_def tcp_init_def)
next
  case (move w v)
  then show ?case using tcp_step_ok step_calls_started by (metis tcp_movesE)
qed

end
