(* ===== verification/Tcp_Facts.thy ===== *)
theory Tcp_Facts
  imports Tcp_Safety
begin

text \<open>
  What a step does to a connection that exists already, and the properties that rest on it: nobody
  waits in vain, what is written on a connection, what is read from it and handed on, and when
  \<open>Close\<close> returns.
\<close>

section \<open>Connections only grow\<close>

definition conn_le :: "tcp_conn \<Rightarrow> tcp_conn \<Rightarrow> bool" where
  "conn_le k k' \<longleftrightarrow> cStream k' = cStream k \<and> (cReady k \<longrightarrow> cReady k') \<and> (cErr k \<noteq> None \<longrightarrow> cErr k' = cErr k)
     \<and> (cOpen k' \<longrightarrow> cOpen k) \<and> (\<forall>key. map_of (cKeys k) key \<noteq> None \<longrightarrow> map_of (cKeys k') key \<noteq> None)"

lemma conn_le_refl [simp]: "conn_le k k"
  by (simp add: conn_le_def)

lemma failReady_err: "cErr k \<noteq> None \<Longrightarrow> cErr (failReady e k) = cErr k"
  by (simp add: failReady_def markReady_def)

lemma conn_le_ops [simp]:
  "conn_le k (addKey key k)" "conn_le k (setPeer key k)" "conn_le k (failReady e k)" "conn_le k (markReady k)"
  "conn_le k (closeConn k)" "conn_le k (cIn_update f k)" "conn_write k frame io = (k', r) \<Longrightarrow> conn_le k k'"
  by (auto simp: conn_le_def gm.get_put failReady_err dest: conn_write_frame)

lemma conn_le_on_conn: "conn_le (tHeap t c) (f (tHeap t c)) \<Longrightarrow> conn_le (tHeap t d) (tHeap (on_conn c f t) d)"
  by simp

lemma conn_le_register [simp]: "conn_le (tHeap t d) (tHeap (registerConnKey c k t) d)"
  by (simp add: conn_le_def registerConnKey_heap)

lemma dropConn_le: "dropConn d c t = (t', r) \<Longrightarrow> conn_le (tHeap t e) (tHeap t' e) \<and> tNext t' = tNext t"
  by (erule dropConn_cases) auto

lemma read_step_le: "read_step c io t pc = Some (t', pc', r) \<Longrightarrow> conn_le (tHeap t d) (tHeap t' d) \<and> tNext t' = tNext t"
  by (cases pc) (auto split: prod.splits option.splits sum.splits dest: dropConn_le[where e = d])

lemma send_step_le:
  "send_step p m io t pc = Some (t', pc', r) \<Longrightarrow> d < tNext t \<Longrightarrow> conn_le (tHeap t d) (tHeap t' d) \<and> tNext t \<le> tNext t'"
proof (cases pc)
  case (Enter s)
  assume step: "send_step p m io t pc = Some (t', pc', r)" and d: "d < tNext t"
  obtain t1 c1 new where e: "startOutbound s p t = (t1, c1, new)" by (metis prod_cases3)
  from e have "tHeap t1 d = tHeap t d" "tNext t1 = Suc (tNext t)"
    by (cases rule: startOutbound_cases; use d in simp)+
  then show ?thesis using step Enter e by (auto split: bool.splits)
qed (auto split: prod.splits option.splits sum.splits net_io.splits dest: dropConn_le[where e = d])

lemma close_step_le: "close_step io t pc = Some (t', pc') \<Longrightarrow> conn_le (tHeap t d) (tHeap t' d)"
  by (cases "(io, t, pc)" rule: close_step.cases) (auto split: if_splits)

lemma step_le:
  assumes "tcp_step ev w = Some v"
  shows "c < tNext (tr w) \<Longrightarrow> conn_le (tHeap (tr w) c) (tHeap (tr v) c)" and "tNext (tr w) \<le> tNext (tr v)"
proof -
  have "(c < tNext (tr w) \<longrightarrow> conn_le (tHeap (tr w) c) (tHeap (tr v) c)) \<and> tNext (tr w) \<le> tNext (tr v)"
    using assms
  proof (cases rule: tcp_stepE)
    case (start h l t r)
    from start(1) show ?thesis using start(2) by (cases rule: Start_cases) auto
  next
    case (close t r)
    then show ?thesis by (auto simp: CloseBegin_def split: if_splits)
  next
    case (accept io t r go)
    from accept(2) show ?thesis using accept(3) by (cases rule: accept_step_cases) auto
  next
    case (read d io t pc r)
    then show ?thesis using read_step_le[OF read(1)] by simp
  next
    case (send i io k t pc r)
    have "tNext (tr w) \<le> tNext t"
    proof (cases "tNext (tr w) = 0")
      case False
      then show ?thesis using send_step_le[OF send(2), of 0] by simp
    qed simp
    then show ?thesis using send_step_le[OF send(2), of c] send(3) by (auto split: option.splits)
  next
    case (shut io t pc)
    then show ?thesis using close_step_le[OF shut(1), of c] close_step_frame[OF shut(1)] by simp
  qed simp
  then show "c < tNext (tr w) \<Longrightarrow> conn_le (tHeap (tr w) c) (tHeap (tr v) c)" and "tNext (tr w) \<le> tNext (tr v)"
    by blast+
qed

section \<open>Nobody waits in vain\<close>

text \<open>A goroutine or a caller that will make the connection ready is \<open>in_charge\<close> of it.\<close>

definition in_charge :: "tcp_world \<Rightarrow> nat \<Rightarrow> bool" where
  "in_charge w c \<longleftrightarrow> early (readers w c) \<or> (\<exists>i. greets (pc_of w i) = Some c)"

definition attended :: "tcp_world \<Rightarrow> nat \<Rightarrow> bool" where
  "attended w c \<longleftrightarrow> c < tNext (tr w) \<and> (cReady (tHeap (tr w) c) \<or> in_charge w c)"

text \<open>The connections a call can come to wait for.\<close>

definition wanted :: "tcp_world \<Rightarrow> nat \<Rightarrow> bool" where
  "wanted w c \<longleftrightarrow> (\<exists>key. map_of (tConns (tr w)) key = Some c) \<or> (\<exists>i. awaits (pc_of w i) = Some c)"

lemma attended_reader: "tcp_ok w \<Longrightarrow> readers w c \<noteq> NoReader \<Longrightarrow> attended w c"
  using tcp_okD(2)[of w c] by (auto simp: attended_def in_charge_def conn_ok_def not_le)

lemma reader_stays:
  assumes "tcp_step ev w = Some v" and "readers v c = NoReader"
  shows "readers w c = NoReader"
  using assms(1)
proof (cases rule: tcp_stepE)
  case (read d io t pc r)
  have "pc \<noteq> NoReader"
    using read(1) by (cases "readers w d") (auto split: prod.splits option.splits sum.splits)
  then show ?thesis using read(2) assms(2) by (auto split: if_splits)
qed (use assms(2) in \<open>auto split: option.splits if_splits\<close>)

lemma greets_step:
  assumes "send_step p m io t pc = Some (t', pc', r)" and "greets pc = Some c"
  shows "greets pc' = Some c \<or> cReady (tHeap t' c) \<or> r = Some c"
  using assms by (auto simp: greets_Some split: prod.splits option.splits)

lemma attended_step:
  assumes ok: "tcp_ok w" "tcp_ok v" and step: "tcp_step ev w = Some v" and "attended w c"
  shows "attended v c"
proof (cases "readers v c = NoReader \<and> \<not> cReady (tHeap (tr v) c)")
  case False
  then show ?thesis
    using attended_reader[OF ok(2), of c] assms(4) step_le(2)[OF step] by (auto simp: attended_def)
next
  case True
  have c: "c < tNext (tr w)" using assms(4) by (simp add: attended_def)
  have "\<not> cReady (tHeap (tr w) c)" using step_le(1)[OF step c] True by (auto simp: conn_le_def)
  moreover have "readers w c = NoReader" using reader_stays[OF step] True by blast
  ultimately obtain i where i: "greets (pc_of w i) = Some c"
    using assms(4) by (auto simp: attended_def in_charge_def)
  have "greets (pc_of v i) = Some c"
    using step
  proof (cases rule: tcp_stepE)
    case (call j p m)
    then show ?thesis using i by (auto simp: pc_of_def split: if_splits)
  next
    case (send j io k t pc r)
    show ?thesis
    proof (cases "j = i")
      case j: True
      then have "greets (callPc k) = Some c" using i send(1) by (simp add: pc_of_def)
      from greets_step[OF send(2) this] show ?thesis
        using send(3) True j by (auto simp: pc_of_def split: option.splits)
    next
      case False
      then show ?thesis using i send(3) by (auto simp: pc_of_def split: option.splits)
    qed
  qed (use i in \<open>simp add: pc_of_def split: option.splits\<close>)+
  then show ?thesis using c step_le(2)[OF step] by (auto simp: attended_def in_charge_def)
qed

lemma read_step_table:
  assumes "read_step c io t pc = Some (t', pc', r)" and "map_of (tConns t') key = Some d"
  shows "map_of (tConns t) key = Some d \<or> d = c \<and> early pc'"
  using assms
proof (cases pc)
  case (Dropping e)
  then show ?thesis using assms by (cases e) (auto simp: unlinkConn_get split: if_splits)
qed (auto simp: registerConnKey_get simp del: map_of_eq_Some_iff split: prod.splits option.splits sum.splits if_splits)

lemma send_step_wanted:
  assumes ok: "tcp_ok w" and call: "calls w i = Some k"
    and step: "send_step (callPeer k) (callMsg k) io (tr w) (callPc k) = Some (t, pc, r)"
    and want: "map_of (tConns t) key = Some d \<or> awaits pc = Some d"
  shows "wanted w d \<or> greets pc = Some d \<or> r = Some d \<or> cReady (tHeap t d)"
proof (cases "callPc k")
  case (Enter s)
  obtain t1 c1 new where e: "startOutbound s (callPeer k) (tr w) = (t1, c1, new)" by (metis prod_cases3)
  from e show ?thesis
  proof (cases rule: startOutbound_cases)
    case (1 d')
    then show ?thesis using step want Enter e by (auto simp: wanted_def)
  next
    case 2
    then show ?thesis
      using step want Enter e by (auto simp: wanted_def gm.get_put split: if_splits)
  qed
next
  case (Discard c p r')
  have "holds (pc_of w i) = Some c" using call Discard by (simp add: pc_of_def)
  then have c: "cReady (tHeap (tr w) c)" using tcp_okD(3)[OF ok, of i] by (simp add: call_ok_def)
  obtain t1 r1 where dr: "dropConn p c (tr w) = (t1, r1)" by fastforce
  from dr show ?thesis
    by (cases rule: dropConn_cases; use step want Discard dr c in
        \<open>auto simp: wanted_def unlinkConn_get simp del: map_of_eq_Some_iff split: option.splits if_splits\<close>)
qed (use step want call in \<open>auto simp: wanted_def getOrDial_def pc_of_def simp del: map_of_eq_Some_iff
      split: prod.splits option.splits sum.splits net_io.splits if_splits\<close>)

lemma wanted_step:
  assumes ok: "tcp_ok w" "tcp_ok v" and step: "tcp_step ev w = Some v" and want: "wanted v c"
  shows "wanted w c \<or> attended v c"
proof (cases "attended v c")
  case False
  have n: "tcp_ok v \<Longrightarrow> wanted v c \<Longrightarrow> c < tNext (tr v)"
    using tcp_okD(3)[OF ok(2)] tcp_okD(5)[OF ok(2)] by (auto simp: wanted_def call_ok_def key_ok_def)
  then have not: "\<not> cReady (tHeap (tr v) c)" "\<not> early (readers v c)" "\<And>i. greets (pc_of v i) \<noteq> Some c"
    using False ok(2) want by (auto simp: attended_def in_charge_def)
  from step show ?thesis
  proof (cases rule: tcp_stepE)
    case (start h l t r)
    from start(1) show ?thesis using start(2) want
      by (cases rule: Start_cases) (auto simp: wanted_def pc_of_def)
  next
    case (call i p m)
    then show ?thesis using want by (auto simp: wanted_def pc_of_def split: if_splits)
  next
    case (close t r)
    then show ?thesis using want by (auto simp: wanted_def pc_of_def CloseBegin_def split: if_splits)
  next
    case (accept io t r go)
    from accept(2) show ?thesis using accept(3) want
      by (cases rule: accept_step_cases) (auto simp: wanted_def pc_of_def)
  next
    case (read d io t pc r)
    then show ?thesis using want not(2) read_step_table[OF read(1), of _ c]
      by (auto simp: wanted_def pc_of_def split: if_splits)
  next
    case (send i io k t pc r)
    have pcs: "pc_of v j = (if j = i then pc else pc_of w j)" for j
      using send(3) by (auto simp: pc_of_def split: option.splits)
    have tr: "tr v = t" "r = Some c \<Longrightarrow> readers v c = Shake" using send(3) by (auto split: option.splits)
    show ?thesis
    proof (cases "\<exists>key. map_of (tConns t) key = Some c \<or> awaits pc = Some c")
      case True
      then have "wanted w c \<or> greets pc = Some c \<or> r = Some c \<or> cReady (tHeap t c)"
        using send_step_wanted[OF ok(1) send(1,2)] by blast
      then show ?thesis using not(1,2) not(3)[of i] tr pcs[of i] by fastforce
    next
      case False
      then show ?thesis using want tr unfolding wanted_def pcs by (auto split: if_splits)
    qed
  next
    case (shut io t pc)
    then show ?thesis using want close_step_frame[OF shut(1)] by (auto simp: wanted_def pc_of_def)
  qed
qed simp

lemma wanted_attended: "tcp_reachable addr w \<Longrightarrow> wanted w c \<Longrightarrow> attended w c"
proof (induction rule: tcp_reachable.induct)
  case fresh
  then show ?case by (simp add: wanted_def pc_of_def tcp_init_def NewTCPTransport_def)
next
  case (move w v)
  then obtain ev where ev: "tcp_step ev w = Some v" by (blast elim: tcp_movesE)
  have "tcp_reachable addr v" using move(1,2) by (rule tcp_reachable.move)
  then have ok: "tcp_ok w" "tcp_ok v" using move(1) tcp_reachable_inv by blast+
  then show ?case using wanted_step[OF ok ev move(4)] attended_step[OF ok ev] move(3) by blast
qed

section \<open>The wait group\<close>

definition running :: "tcp_world \<Rightarrow> nat set" where
  "running w = {c. readers w c \<noteq> NoReader \<and> readers w c \<noteq> Exited}"

definition wg_ok :: "tcp_world \<Rightarrow> bool" where
  "wg_ok w \<longleftrightarrow> finite (running w) \<and> tWg (tr w) = of_bool (accepting w) + card (running w)
     \<and> (accepting w \<longrightarrow> tStarted (tr w))"

lemma dropConn_wg: "dropConn d c t = (t', r) \<Longrightarrow> tWg t' = tWg t"
  by (erule dropConn_cases) auto

lemma read_step_wg:
  assumes "read_step c io t pc = Some (t', pc', r)"
  shows "pc \<noteq> NoReader" "pc \<noteq> Exited" "pc' \<noteq> NoReader"
    "tWg t' = (if pc' = Exited then tWg t - 1 else tWg t)"
  using assms by (cases pc; auto split: prod.splits option.splits sum.splits dest: dropConn_wg)+

lemma send_step_wg:
  assumes "send_step p m io t pc = Some (t', pc', r)"
  shows "tWg t' = tWg t + (if r = None then 0 else 1)" and "r = Some c \<Longrightarrow> greets pc = Some c"
proof -
  have "tWg t' = tWg t + (if r = None then 0 else 1) \<and> (r = Some c \<longrightarrow> greets pc = Some c)"
  proof (cases pc)
    case (Enter s)
    obtain t1 c1 new where e: "startOutbound s p t = (t1, c1, new)" by (metis prod_cases3)
    from e have "tWg t1 = tWg t" by (cases rule: startOutbound_cases) auto
    then show ?thesis using assms Enter e by (auto split: bool.splits)
  qed (use assms in \<open>auto split: prod.splits option.splits sum.splits net_io.splits dest: dropConn_wg\<close>)
  then show "tWg t' = tWg t + (if r = None then 0 else 1)" and "r = Some c \<Longrightarrow> greets pc = Some c" by blast+
qed

lemma running_upd:
  "running (w\<lparr>tr := t, readers := (readers w)(c := pc), delivered := l\<rparr>) =
     (if pc = NoReader \<or> pc = Exited then running w - {c} else insert c (running w))"
  "running (w\<lparr>tr := t, accepting := g, readers := (readers w)(c := Greet)\<rparr>) = insert c (running w)"
  "running (w\<lparr>tr := t, calls := k, readers := (readers w)(c := Shake)\<rparr>) = insert c (running w)"
  by (auto simp: running_def)

lemma step_wg:
  assumes ok: "tcp_ok w" and wg: "wg_ok w" and step: "tcp_step ev w = Some v"
  shows "wg_ok v"
  using step
proof (cases rule: tcp_stepE)
  case (start h l t r)
  from start(1) show ?thesis using start(2) wg
    by (cases rule: Start_cases) (auto simp: wg_ok_def running_def)
next
  case (call i p m)
  then show ?thesis using wg by (simp add: wg_ok_def running_def)
next
  case (close t r)
  then show ?thesis using wg by (auto simp: wg_ok_def running_def CloseBegin_def split: if_splits)
next
  case (accept io t r go)
  have n: "tNext (tr w) \<notin> running w"
    using tcp_okD(2)[OF ok, of "tNext (tr w)"] by (simp add: running_def conn_ok_def)
  from accept(2) show ?thesis
  proof (cases rule: accept_step_cases)
    case (3 s)
    then show ?thesis using accept(1,3) wg n by (simp add: wg_ok_def running_upd)
  qed (use accept(1,3) wg in \<open>auto simp: wg_ok_def running_def\<close>)
next
  case (read c io t pc r)
  have c: "c \<in> running w" using read_step_wg(1,2)[OF read(1)] by (simp add: running_def)
  have st: "accepting w \<Longrightarrow> tStarted t" using read_step_started[OF read(1)] wg by (simp add: wg_ok_def)
  have fin: "finite (running w)" using wg by (simp add: wg_ok_def)
  have card: "card (running w) = Suc (card (running w - {c}))" using card_Suc_Diff1[OF fin c] by simp
  show ?thesis
  proof (cases "pc = Exited")
    case True
    then show ?thesis
      using read_step_wg(4)[OF read(1)] wg card st unfolding read(2) wg_ok_def running_upd by simp
  next
    case False
    then show ?thesis
      using read_step_wg(3,4)[OF read(1)] wg st unfolding read(2) wg_ok_def running_upd
      by (simp add: insert_absorb[OF c])
  qed
next
  case (send i io k t pc r)
  have st: "accepting w \<Longrightarrow> tStarted t" using send_step_started[OF send(2)] wg by (simp add: wg_ok_def)
  show ?thesis
  proof (cases r)
    case None
    then show ?thesis using send(3) send_step_wg(1)[OF send(2)] wg st by (auto simp: wg_ok_def running_def)
  next
    case (Some c)
    then have "greets (pc_of w i) = Some c" using send_step_wg(2)[OF send(2)] send(1) by (simp add: pc_of_def)
    then have "c \<notin> running w" using tcp_okD(3)[OF ok, of i] by (simp add: call_ok_def running_def)
    then show ?thesis using send(3) Some send_step_wg(1)[OF send(2)] wg st by (simp add: wg_ok_def running_upd)
  qed
next
  case (shut io t pc)
  then show ?thesis using wg close_step_frame[OF shut(1)] by (simp add: wg_ok_def running_def)
qed

lemma reachable_wg: "tcp_reachable addr w \<Longrightarrow> wg_ok w"
proof (induction rule: tcp_reachable.induct)
  case fresh
  then show ?case by (simp add: wg_ok_def running_def tcp_init_def NewTCPTransport_def)
next
  case (move w v)
  then show ?case using step_wg tcp_reachable_inv by (metis tcp_movesE)
qed

end
