(* ===== verification/Tcp_Streams.thy ===== *)
theory Tcp_Streams
  imports Tcp_Facts
begin

text \<open>
  The bytes on the connections of a TCP transport. Outwards: the handshake first, then frames, each
  call of \<open>write\<close> in one piece. Inwards: what the handler gets from a connection is what the other
  end framed after its handshake, in order, under the address of that handshake. And \<open>Close\<close> closes
  every connection the table holds when it begins.
\<close>

section \<open>Which connection a step touches\<close>

lemma dropConn_other: "dropConn d c t = (t', r) \<Longrightarrow> e \<noteq> c \<Longrightarrow> tHeap t' e = tHeap t e"
  by (erule dropConn_cases) auto

lemma read_step_other: "read_step c io t pc = Some (t', pc', r) \<Longrightarrow> d \<noteq> c \<Longrightarrow> tHeap t' d = tHeap t d"
  by (cases pc) (auto simp: registerConnKey_other split: prod.splits option.splits sum.splits dest: dropConn_other)

lemma send_step_other:
  "send_step p m io t pc = Some (t', pc', r) \<Longrightarrow> c < tNext t \<Longrightarrow> greets pc \<noteq> Some c \<Longrightarrow> holds pc \<noteq> Some c
     \<Longrightarrow> tHeap t' c = tHeap t c"
proof (cases pc)
  case (Enter s)
  assume step: "send_step p m io t pc = Some (t', pc', r)" and c: "c < tNext t"
  obtain t1 c1 new where e: "startOutbound s p t = (t1, c1, new)" by (metis prod_cases3)
  from e have "tHeap t1 c = tHeap t c" by (cases rule: startOutbound_cases; use c in simp)
  then show ?thesis using step Enter e by (auto split: bool.splits)
qed (auto split: prod.splits option.splits sum.splits net_io.splits dest: dropConn_other[where e = c])

lemma dropConn_Addr: "dropConn d c t = (t', r) \<Longrightarrow> Addr t' = Addr t"
  by (erule dropConn_cases) auto

lemma Addr_cong: "tListener t' = tListener t \<Longrightarrow> tListenAddr t' = tListenAddr t \<Longrightarrow> Addr t' = Addr t"
  by (simp add: Addr_def split: option.split)

lemma Addr_wg [simp]: "Addr (tWg_update f t) = Addr t"
  by (rule Addr_cong) simp_all

lemma read_step_Addr: "read_step c io t pc = Some (t', pc', r) \<Longrightarrow> Addr t' = Addr t"
  by (cases pc) (auto split: prod.splits option.splits sum.splits dest: dropConn_Addr)

lemma send_step_Addr: "send_step p m io t pc = Some (t', pc', r) \<Longrightarrow> Addr t' = Addr t"
proof (cases pc)
  case (Enter s)
  assume step: "send_step p m io t pc = Some (t', pc', r)"
  obtain t1 c1 new where e: "startOutbound s p t = (t1, c1, new)" by (metis prod_cases3)
  from e have "Addr t1 = Addr t" by (cases rule: startOutbound_cases; intro Addr_cong; simp)
  then show ?thesis using step Enter e by (auto split: bool.splits)
qed (auto split: prod.splits option.splits sum.splits net_io.splits dest: dropConn_Addr)

text \<open>Once started, a transport has one address.\<close>

lemma step_Addr:
  assumes "tcp_step ev w = Some v" and "tStarted (tr w)"
  shows "Addr (tr v) = Addr (tr w)"
  using assms(1)
proof (cases rule: tcp_stepE)
  case (start h l t r)
  from start(1) show ?thesis using start(2) assms(2) by (cases rule: Start_cases) auto
next
  case (close t r)
  then show ?thesis by (intro Addr_cong) (auto simp: CloseBegin_def split: if_splits)
next
  case (accept io t r go)
  from accept(2) show ?thesis using accept(3)
    by (cases rule: accept_step_cases; intro Addr_cong; simp)
next
  case (read c io t pc r)
  then show ?thesis using read_step_Addr[OF read(1)] by simp
next
  case (send i io k t pc r)
  then show ?thesis using send_step_Addr[OF send(2)] by (auto split: option.splits)
next
  case (shut io t pc)
  then show ?thesis using close_step_frame[OF shut(1)] by (intro Addr_cong) simp_all
qed simp

section \<open>What is written\<close>

definition frame_pieces :: "bytes list \<Rightarrow> bool" where
  "frame_pieces fs \<longleftrightarrow> (\<forall>x \<in> set fs. \<exists>n m. x = take n (EncodeMessageFrame m))"

text \<open>The handshake with address \<open>a\<close> is out, and nothing but frames after it.\<close>

definition greeted :: "string \<Rightarrow> tcp_conn \<Rightarrow> bool" where
  "greeted a k \<longleftrightarrow> (\<exists>fs. cOut k = encodeHandshake a # fs \<and> frame_pieces fs)"

definition out_shape :: "string \<Rightarrow> tcp_conn \<Rightarrow> bool" where
  "out_shape a k \<longleftrightarrow> cOut k = [] \<or> (\<exists>n. cOut k = [take n (encodeHandshake a)]) \<or> greeted a k"

fun talking :: "read_pc \<Rightarrow> bool" where
  "talking Shake = True" | "talking (Name p) = True" | "talking (Register p) = True"
| "talking (Announce p) = True" | "talking (Serve p) = True" | "talking _ = False"

text \<open>Which phase has written what, for an existing connection.\<close>

definition out_ok :: "tcp_world \<Rightarrow> nat \<Rightarrow> bool" where
  "out_ok w c \<longleftrightarrow> out_shape (Addr (tr w)) (tHeap (tr w) c)
     \<and> (readers w c = Greet \<longrightarrow> cOut (tHeap (tr w) c) = [])
     \<and> (talking (readers w c) \<longrightarrow> greeted (Addr (tr w)) (tHeap (tr w) c))
     \<and> (cReady (tHeap (tr w) c) \<and> cErr (tHeap (tr w) c) = None \<longrightarrow> greeted (Addr (tr w)) (tHeap (tr w) c))"

definition out_call_ok :: "tcp_world \<Rightarrow> nat \<Rightarrow> bool" where
  "out_call_ok w i \<longleftrightarrow> (\<forall>c. pc_of w i = Hello c \<longrightarrow> cOut (tHeap (tr w) c) = [])
     \<and> (\<forall>c. pc_of w i = Put c \<longrightarrow> greeted (Addr (tr w)) (tHeap (tr w) c))"

definition outs_ok :: "tcp_world \<Rightarrow> bool" where
  "outs_ok w \<longleftrightarrow> (\<forall>c < tNext (tr w). out_ok w c) \<and> (\<forall>i. out_call_ok w i)"

lemma greeted_put: "greeted a k \<Longrightarrow> greeted a (k\<lparr>cOut := cOut k @ [take n (EncodeMessageFrame m)]\<rparr>)"
  unfolding greeted_def frame_pieces_def by auto blast+

lemma greeted_frame: "greeted a k \<Longrightarrow> greeted a (k\<lparr>cOut := cOut k @ [EncodeMessageFrame m]\<rparr>)"
  using greeted_put[of a k "length (EncodeMessageFrame m)" m] by simp

lemma greeted_cong: "cOut k' = cOut k \<Longrightarrow> greeted a k' = greeted a k"
  by (simp add: greeted_def)

lemma greeted_shape [simp]: "greeted a k \<Longrightarrow> out_shape a k"
  by (simp add: out_shape_def)

lemma shape_cong: "cOut k' = cOut k \<Longrightarrow> out_shape a k' = out_shape a k"
  by (simp add: out_shape_def greeted_cong[of k' k])

text \<open>The first write of a connection.\<close>

lemma hello_written:
  assumes "conn_write k (encodeHandshake a) io = (h, r)" and "cOut k = []"
  shows "out_shape a h" and "r = None \<Longrightarrow> greeted a h"
  by (rule conn_write_cases[OF assms(1)];
      use assms(2) in \<open>auto simp: out_shape_def greeted_def frame_pieces_def\<close>)+

lemma frame_written:
  assumes "conn_write k (EncodeMessageFrame m) io = (h, r)" and "greeted a k"
  shows "greeted a h"
  by (rule conn_write_cases[OF assms(1)]) (use assms(2) greeted_put greeted_frame in auto)

lemma read_out:
  assumes ok: "tcp_ok w" and outs: "out_ok w c" and step: "read_step c io (tr w) (readers w c) = Some (t, pc, r)"
  shows "out_ok (w\<lparr>tr := t, readers := (readers w)(c := pc), delivered := l\<rparr>) c"
proof -
  let ?k = "tHeap (tr w) c"
  have ready: "cReady ?k = (\<not> early (readers w c))"
    using tcp_okD(2)[OF ok, of c] read_step_wg(1)[OF step] by (simp add: conn_ok_def)
  have A: "Addr t = Addr (tr w)" by (rule read_step_Addr[OF step])
  have same: ?thesis if "cOut (tHeap t c) = cOut ?k" "readers w c \<noteq> Greet" "pc \<noteq> Greet"
    "talking pc \<longrightarrow> talking (readers w c)"
    "cReady (tHeap t c) \<and> cErr (tHeap t c) = None \<longrightarrow> cReady ?k \<and> cErr ?k = None \<or> talking (readers w c)"
    using outs that A greeted_cong[OF that(1)] shape_cong[OF that(1)] by (auto simp: out_ok_def)
  show ?thesis
  proof (cases "readers w c")
    case Greet
    obtain h e where h: "conn_write ?k (encodeHandshake (Addr (tr w))) io = (h, e)" by fastforce
    have "cOut ?k = []" using outs Greet by (simp add: out_ok_def)
    note hello_written[OF h this] and conn_write_frame[OF h]
    then show ?thesis using step Greet h A ready by (auto simp: out_ok_def split: option.splits)
  next
    case (Dropping d)
    obtain t1 r1 where d: "dropConn d c (tr w) = (t1, r1)" by fastforce
    from d show ?thesis
      by (cases rule: dropConn_cases) (rule same; use step Dropping d ready in auto)+
  next
    case (Failed e)
    have "cErr (failReady e ?k) \<noteq> None" by simp
    then show ?thesis by (intro same) (use step Failed in \<open>auto simp del: failReady_simps(2)\<close>)
  next
    case Exited
    then show ?thesis using step by simp
  qed (rule same; use step ready in \<open>auto simp: registerConnKey_heap split: prod.splits sum.splits\<close>)+
qed

text \<open>A step that touches one connection, \<open>c\<close>.\<close>

lemma outs_touch:
  assumes outs: "outs_ok w" and A: "Addr (tr v) = Addr (tr w)" and n: "tNext (tr v) = tNext (tr w)"
    and other: "\<And>d. d \<noteq> c \<Longrightarrow> tHeap (tr v) d = tHeap (tr w) d \<and> readers v d = readers w d"
    and conn: "c < tNext (tr w) \<Longrightarrow> out_ok v c"
    and calls: "\<And>i d. d \<noteq> c \<Longrightarrow> pc_of v i = Hello d \<or> pc_of v i = Put d \<Longrightarrow> pc_of w i = pc_of v i"
    and hello: "\<And>i. pc_of v i = Hello c \<Longrightarrow> cOut (tHeap (tr v) c) = []"
    and put: "\<And>i. pc_of v i = Put c \<Longrightarrow> greeted (Addr (tr w)) (tHeap (tr v) c)"
  shows "outs_ok v"
proof -
  have "out_ok v d" if "d < tNext (tr v)" for d
    using outs that conn other[of d] A n by (cases "d = c") (simp_all add: outs_ok_def out_ok_def)
  moreover have "out_call_ok v i" for i
    unfolding out_call_ok_def
  proof (intro conjI allI impI)
    fix d assume d: "pc_of v i = Hello d"
    have "out_call_ok w i" using outs by (simp add: outs_ok_def)
    then show "cOut (tHeap (tr v) d) = []"
      using d hello[of i] calls[of d i] other[of d] by (cases "d = c") (auto simp: out_call_ok_def)
  next
    fix d assume d: "pc_of v i = Put d"
    have "out_call_ok w i" using outs by (simp add: outs_ok_def)
    then show "greeted (Addr (tr v)) (tHeap (tr v) d)"
      using d put[of i] calls[of d i] other[of d] A by (cases "d = c") (auto simp: out_call_ok_def)
  qed
  ultimately show ?thesis by (simp add: outs_ok_def)
qed

text \<open>A new connection, with nothing written yet.\<close>

lemma outs_fresh:
  assumes outs: "outs_ok w" and A: "tNext (tr w) \<noteq> 0 \<Longrightarrow> Addr (tr v) = Addr (tr w)"
    and n: "tNext (tr v) = Suc (tNext (tr w))"
    and other: "\<And>d. d < tNext (tr w) \<Longrightarrow> tHeap (tr v) d = tHeap (tr w) d \<and> readers v d = readers w d"
    and conn: "cOut (tHeap (tr v) (tNext (tr w))) = []" "\<not> cReady (tHeap (tr v) (tNext (tr w)))"
      "\<not> talking (readers v (tNext (tr w)))"
    and calls: "\<And>i d. pc_of v i = Hello d \<or> pc_of v i = Put d \<Longrightarrow>
      pc_of w i = pc_of v i \<and> d < tNext (tr w) \<or> pc_of v i = Hello (tNext (tr w))"
  shows "outs_ok v"
proof -
  have "out_ok v d" if "d < tNext (tr v)" for d
  proof (cases "d = tNext (tr w)")
    case True
    then show ?thesis using conn by (simp add: out_ok_def out_shape_def)
  next
    case False
    then have d: "d < tNext (tr w)" using that n by simp
    then show ?thesis using outs other[OF d] A by (simp add: outs_ok_def out_ok_def)
  qed
  moreover have "out_call_ok v i" for i
    unfolding out_call_ok_def
  proof (intro conjI allI impI)
    fix d assume d: "pc_of v i = Hello d"
    have "out_call_ok w i" using outs by (simp add: outs_ok_def)
    then show "cOut (tHeap (tr v) d) = []"
      using d calls[of i d] other[of d] conn(1) by (auto simp: out_call_ok_def)
  next
    fix d assume d: "pc_of v i = Put d"
    have "out_call_ok w i" using outs by (simp add: outs_ok_def)
    then show "greeted (Addr (tr v)) (tHeap (tr v) d)"
      using d calls[of i d] other[of d] A by (auto simp: out_call_ok_def)
  qed
  ultimately show ?thesis by (simp add: outs_ok_def)
qed

lemma read_step_out:
  "read_step c io t pc = Some (t', pc', r) \<Longrightarrow> pc \<noteq> Greet \<Longrightarrow> cOut (tHeap t' d) = cOut (tHeap t d)"
proof (cases pc)
  case (Dropping e)
  assume "read_step c io t pc = Some (t', pc', r)"
  then show ?thesis using Dropping by (cases e) auto
qed (auto simp: registerConnKey_heap split: prod.splits sum.splits)

text \<open>What a call leaves on the connection it works on.\<close>

lemma send_out:
  assumes ok: "tcp_ok w" and outs: "outs_ok w" and call: "calls w i = Some k"
    and step: "send_step (callPeer k) (callMsg k) io (tr w) (callPc k) = Some (t, pc, r)"
    and work: "greets (callPc k) = Some c \<or> holds (callPc k) = Some c \<or> awaits (callPc k) = Some c"
    and v: "tr v = t" "readers v c = (if r = Some c then Shake else readers w c)"
  shows "out_ok v c" and "pc = Hello d \<Longrightarrow> False" and "pc = Put d \<Longrightarrow> d = c \<and> greeted (Addr (tr w)) (tHeap t c)"
    and "greeted (Addr (tr w)) (tHeap (tr w) c) \<Longrightarrow> greeted (Addr (tr w)) (tHeap t c)"
proof -
  let ?k = "tHeap (tr w) c" and ?a = "Addr (tr w)"
  have old: "pc_of w i = callPc k" using call by (simp add: pc_of_def)
  have c: "c < tNext (tr w)" using tcp_okD(3)[OF ok, of i] work old by (auto simp: call_ok_def)
  have o: "out_ok w c" "out_call_ok w i" using outs c by (simp_all add: outs_ok_def)
  have A: "Addr t = ?a" by (rule send_step_Addr[OF step])
  let ?G = "(\<forall>d. pc \<noteq> Hello d) \<and> (\<forall>d. pc = Put d \<longrightarrow> d = c \<and> greeted ?a (tHeap t c))
    \<and> (greeted ?a ?k \<longrightarrow> greeted ?a (tHeap t c))"
  have unchanged: "out_ok v c \<and> ?G"
    if "cOut (tHeap t c) = cOut ?k" "cReady (tHeap t c) \<and> cErr (tHeap t c) = None \<longrightarrow> cReady ?k \<and> cErr ?k = None"
      "r = None" "\<forall>d. pc \<noteq> Hello d" "\<forall>d. pc = Put d \<longrightarrow> d = c \<and> cReady ?k \<and> cErr ?k = None"
    using o(1) that A v greeted_cong[OF that(1)] shape_cong[OF that(1)] unfolding out_ok_def by auto
  have "out_ok v c \<and> ?G"
  proof (cases "callPc k")
    case (Hello d)
    then have d: "d = c" using work by simp
    have e: "cOut ?k = []" "readers w c = NoReader" "\<not> cReady ?k"
      using o(2) tcp_okD(3)[OF ok, of i] old Hello d by (auto simp: out_call_ok_def call_ok_def)
    obtain h x where h: "conn_write ?k (encodeHandshake ?a) io = (h, x)" by fastforce
    have t: "tHeap t c = h" "x = None \<Longrightarrow> r = Some c" "x \<noteq> None \<Longrightarrow> r = None" "\<forall>d. pc \<noteq> Hello d \<and> pc \<noteq> Put d"
      using step Hello d h by (auto split: option.splits)
    have "\<not> greeted ?a ?k" using e(1) by (simp add: greeted_def)
    then show ?thesis using t A v e hello_written[OF h e(1)] conn_write_frame(1)[OF h]
      by (cases x) (simp_all add: out_ok_def)
  next
    case (HelloFailed d e)
    then have d: "d = c" using work by simp
    have "cErr (failReady e ?k) \<noteq> None" by simp
    then show ?thesis using step HelloFailed d by (intro unchanged) (auto simp del: failReady_simps(2))
  next
    case (Discard d p x)
    then have d: "d = c" using work by simp
    obtain t1 r1 where dr: "dropConn p c (tr w) = (t1, r1)" by fastforce
    from step Discard d dr have r: "t = t1" "r = None" "\<forall>d. pc \<noteq> Hello d \<and> pc \<noteq> Put d"
      by (auto split: option.splits)
    have "cErr (failReady ReadEOF ?k) \<noteq> None" by simp
    with dr show ?thesis
      by (cases rule: dropConn_cases; intro unchanged) (use r in \<open>auto simp del: failReady_simps(2)\<close>)
  next
    case (Await d)
    then have d: "d = c" using work by simp
    show ?thesis using step Await d
      by (intro unchanged) (auto simp: waitReady_def split: option.splits if_splits)
  next
    case (Put d)
    then have d: "d = c" using work by simp
    have g: "greeted ?a ?k" using o(2) old Put d by (simp add: out_call_ok_def)
    have rdy: "cReady ?k" using tcp_okD(3)[OF ok, of i] old Put d by (auto simp: call_ok_def)
    obtain h x where h: "conn_write ?k (EncodeMessageFrame (callMsg k)) io = (h, x)" by fastforce
    have t: "tHeap t c = h" "r = None" "\<forall>d. pc \<noteq> Hello d \<and> pc \<noteq> Put d"
      using step Put d h by (auto split: option.splits)
    have "readers w c \<noteq> Greet" using tcp_okD(2)[OF ok, of c] rdy by (auto simp: conn_ok_def)
    then show ?thesis using t A v frame_written[OF h g] by (simp add: out_ok_def)
  qed (use work in auto)
  then show "out_ok v c" and "pc = Hello d \<Longrightarrow> False" and "pc = Put d \<Longrightarrow> d = c \<and> greeted ?a (tHeap t c)"
    and "greeted ?a ?k \<Longrightarrow> greeted ?a (tHeap t c)" by blast+
qed

text \<open>A step keeps the output discipline of every connection and of every call.\<close>

lemma step_outs:
  assumes ok: "tcp_ok w" and outs: "outs_ok w" and step: "tcp_step ev w = Some v"
  shows "outs_ok v"
proof -
  have A: "Addr (tr v) = Addr (tr w)" if "tNext (tr w) \<noteq> 0"
    using that tcp_okD(1)[OF ok] step_Addr[OF step] by (simp add: sys_ok_def)
  have conn: "out_ok w c" if "c < tNext (tr w)" for c using outs that by (simp add: outs_ok_def)
  have at: "d < tNext (tr w)" if "pc_of w i = Hello d \<or> pc_of w i = Put d" for i d
    using tcp_okD(3)[OF ok, of i] that by (auto simp: call_ok_def)
  have keep: "outs_ok v"
    if h: "\<And>d. cOut (tHeap (tr v) d) = cOut (tHeap (tr w) d) \<and> cReady (tHeap (tr v) d) = cReady (tHeap (tr w) d)
        \<and> cErr (tHeap (tr v) d) = cErr (tHeap (tr w) d)"
      and n: "tNext (tr v) = tNext (tr w)" and r: "readers v = readers w"
      and pc: "\<And>i d. pc_of v i = Hello d \<or> pc_of v i = Put d \<Longrightarrow> pc_of w i = pc_of v i"
  proof -
    have "out_ok v d" if d: "d < tNext (tr v)" for d
      using conn[of d] d n r h[of d] A greeted_cong[of "tHeap (tr v) d" "tHeap (tr w) d"]
        shape_cong[of "tHeap (tr v) d" "tHeap (tr w) d"] by (simp add: out_ok_def)
    moreover have "out_call_ok v i" for i
      unfolding out_call_ok_def
    proof (intro conjI allI impI)
      fix d assume d: "pc_of v i = Hello d"
      then show "cOut (tHeap (tr v) d) = []"
        using outs pc[of i d] h[of d] by (simp add: outs_ok_def out_call_ok_def)
    next
      fix d assume d: "pc_of v i = Put d"
      then have p: "pc_of w i = Put d" using pc[of i d] by simp
      then have "greeted (Addr (tr w)) (tHeap (tr w) d)" using outs by (simp add: outs_ok_def out_call_ok_def)
      then show "greeted (Addr (tr v)) (tHeap (tr v) d)"
        using A at[of i d] p h[of d] by (auto simp: greeted_def)
    qed
    ultimately show ?thesis by (simp add: outs_ok_def)
  qed
  from step show ?thesis
  proof (cases rule: tcp_stepE)
    case (start h l t r)
    from start(1) show ?thesis
      by (cases rule: Start_cases; intro keep; use start(2) in \<open>simp add: pc_of_def\<close>)
  next
    case (call i p m)
    then show ?thesis by (intro keep) (auto simp: pc_of_def split: if_splits)
  next
    case (close t r)
    then show ?thesis by (intro keep) (auto simp: pc_of_def CloseBegin_def split: if_splits)
  next
    case (accept io t r go)
    from accept(2) show ?thesis
    proof (cases rule: accept_step_cases)
      case (3 s)
      have pcs: "pc_of v i = pc_of w i" for i using accept(3) 3 by (simp add: pc_of_def)
      show ?thesis by (rule outs_fresh[OF outs A]) (use accept(3) 3 at pcs in auto)
    qed (use accept(3) in \<open>intro keep; simp add: pc_of_def\<close>)+
  next
    case (read c io t pc r)
    have c: "readers w c \<noteq> NoReader" by (rule read_step_wg(1)[OF read(1)])
    then have n: "c < tNext (tr w)" "tNext (tr w) \<noteq> 0"
      using tcp_okD(2)[OF ok, of c] by (auto simp: conn_ok_def not_le)
    have pcs: "pc_of v i = pc_of w i" for i using read(2) by (simp add: pc_of_def)
    show ?thesis
    proof (rule outs_touch[OF outs A[OF n(2)], where c = c])
      show "tNext (tr v) = tNext (tr w)" using read(2) read_step_le[OF read(1)] by simp
      show "tHeap (tr v) d = tHeap (tr w) d \<and> readers v d = readers w d" if "d \<noteq> c" for d
        using read(2) read_step_other[OF read(1) that] that by simp
      show "out_ok v c" unfolding read(2) by (rule read_out[OF ok conn[OF n(1)] read(1)])
      show "cOut (tHeap (tr v) c) = []" if "pc_of v i = Hello c" for i
        using that c tcp_okD(3)[OF ok, of i] by (simp add: pcs call_ok_def)
      show "greeted (Addr (tr w)) (tHeap (tr v) c)" if "pc_of v i = Put c" for i
      proof -
        have "cReady (tHeap (tr w) c)" using that tcp_okD(3)[OF ok, of i] by (simp add: pcs call_ok_def)
        then have "readers w c \<noteq> Greet" using tcp_okD(2)[OF ok, of c] by (auto simp: conn_ok_def)
        then have "cOut (tHeap (tr v) c) = cOut (tHeap (tr w) c)"
          using read_step_out[OF read(1)] read(2) by simp
        moreover have "out_call_ok w i" using outs by (simp add: outs_ok_def)
        ultimately show ?thesis using that by (simp add: pcs out_call_ok_def greeted_def)
      qed
    qed (use pcs in simp)
  next
    case (send i io k t pc r)
    have pcs: "pc_of v j = (if j = i then pc else pc_of w j)" for j
      using send(3) by (auto simp: pc_of_def split: option.splits)
    have tr: "tr v = t" using send(3) by (auto split: option.splits)
    have rd: "readers v d = (if r = Some d then Shake else readers w d)" for d
      using send(3) by (auto split: option.splits)
    have old: "pc_of w i = callPc k" using send(1) by (simp add: pc_of_def)
    show ?thesis
    proof (cases "\<exists>c. greets (callPc k) = Some c \<or> holds (callPc k) = Some c \<or> awaits (callPc k) = Some c")
      case True
      then obtain c where work: "greets (callPc k) = Some c \<or> holds (callPc k) = Some c \<or> awaits (callPc k) = Some c"
        by blast
      then have n: "c < tNext (tr w)" "tNext (tr w) \<noteq> 0"
        using tcp_okD(3)[OF ok, of i] old by (auto simp: call_ok_def)
      note o = send_out[OF ok outs send(1,2) work tr rd]
      have r: "r = Some d \<Longrightarrow> d = c" for d using send_step_wg(2)[OF send(2)] work by (cases "callPc k") auto
      have same: "tNext t = tNext (tr w)" using send(2) work
        by (cases "callPc k") (auto split: prod.splits option.splits sum.splits dest: dropConn_le)
      show ?thesis
      proof (rule outs_touch[OF outs A[OF n(2)], where c = c])
        show "tNext (tr v) = tNext (tr w)" using same tr by simp
        fix d
        show "tHeap (tr v) d = tHeap (tr w) d \<and> readers v d = readers w d" if "d \<noteq> c"
        proof -
          have "tHeap t d = tHeap (tr w) d" using send(2) work that
            by (cases "callPc k") (auto split: prod.splits option.splits sum.splits dest: dropConn_other[where e = d])
          then show ?thesis using tr rd r that by auto
        qed
        show "out_ok v c" by (rule o(1))
        fix j
        show "pc_of v j = Hello d \<or> pc_of v j = Put d \<Longrightarrow> d \<noteq> c \<Longrightarrow> pc_of w j = pc_of v j"
          using o(2,3) by (auto simp: pcs split: if_splits)
        have ready: "holds (pc_of w l) = Some c \<Longrightarrow> cReady (tHeap (tr w) c)"
          "greets (pc_of w l) = Some c \<Longrightarrow> \<not> cReady (tHeap (tr w) c)" for l
          using tcp_okD(3)[OF ok, of l] by (simp_all add: call_ok_def)
        show "cOut (tHeap (tr v) c) = []" if h: "pc_of v j = Hello c"
        proof -
          have j: "j \<noteq> i" "pc_of w j = Hello c" using h o(2) by (auto simp: pcs split: if_splits)
          then have "greets (callPc k) \<noteq> Some c" "holds (callPc k) \<noteq> Some c"
            using tcp_okD(4)[OF ok, of i j] ready[of i] ready[of j] old by (auto simp: alone_ok_def)
          then have "tHeap t c = tHeap (tr w) c" using send_step_other[OF send(2) n(1)] by simp
          then show ?thesis using j(2) outs tr by (simp add: outs_ok_def out_call_ok_def)
        qed
        show "greeted (Addr (tr w)) (tHeap (tr v) c)" if h: "pc_of v j = Put c"
        proof (cases "j = i")
          case True
          then show ?thesis using h o(3) tr by (simp add: pcs)
        next
          case False
          then have "pc_of w j = Put c" using h by (simp add: pcs)
          then show ?thesis using outs tr o(4) by (simp add: outs_ok_def out_call_ok_def)
        qed
      qed
    next
      case False
      show ?thesis
      proof (cases "\<exists>s. callPc k = Enter s")
        case True
        then obtain s where s: "callPc k = Enter s" by blast
        obtain t1 c1 new where e: "startOutbound s (callPeer k) (tr w) = (t1, c1, new)" by (metis prod_cases3)
        have t: "t = t1" "pc = (if new then Hello c1 else Await c1)" "r = None"
          using send(2) s e by (auto split: bool.splits)
        have "readers w (tNext (tr w)) = NoReader" using tcp_okD(2)[OF ok, of "tNext (tr w)"] by (simp add: conn_ok_def)
        moreover have "greets pc \<noteq> None \<Longrightarrow> pc = Hello (tNext (tr w))"
          using e t(2) by (cases rule: startOutbound_cases) auto
        moreover have "tNext t1 = Suc (tNext (tr w))"
          "d < tNext (tr w) \<Longrightarrow> tHeap t1 d = tHeap (tr w) d"
          "cOut (tHeap t1 (tNext (tr w))) = []" "\<not> cReady (tHeap t1 (tNext (tr w)))" for d
          using e by (cases rule: startOutbound_cases; simp)+
        ultimately show ?thesis
          using t by (intro outs_fresh[OF outs A]) (auto simp: tr rd pcs at split: if_splits)
      next
        case other: False
        then have "tHeap t = tHeap (tr w)" "tNext t = tNext (tr w)" "r = None" "\<And>c. pc \<noteq> Hello c \<and> pc \<noteq> Put c"
          using send(2) False by (cases "callPc k"; auto simp: getOrDial_def
              split: sum.splits option.splits net_io.splits if_splits)+
        then show ?thesis by (intro keep) (auto simp: tr rd pcs fun_eq_iff)
      qed
    qed
  next
    case (shut io t pc)
    have "cOut (tHeap t d) = cOut (tHeap (tr w) d) \<and> cReady (tHeap t d) = cReady (tHeap (tr w) d)
        \<and> cErr (tHeap t d) = cErr (tHeap (tr w) d)" for d
      using shut(1) by (cases "(io, tr w, closer w)" rule: close_step.cases) (auto split: if_splits)
    then show ?thesis using shut close_step_frame[OF shut(1)] by (intro keep) (simp_all add: pc_of_def)
  qed
qed

end
