(* ===== verification/Tcp_Delivery.thy ===== *)
theory Tcp_Delivery
  imports Tcp_Streams
begin

text \<open>
  What the handler gets from a connection, what a successful \<open>Send\<close> has written and where, that a
  \<open>Send\<close> can always come to its end, and what \<open>Close\<close> has done when it returns.
\<close>

section \<open>What is handed on\<close>

definition from_conn :: "tcp_world \<Rightarrow> nat \<Rightarrow> (string \<times> message) list" where
  "from_conn w c = map snd (filter (\<lambda>x. fst x = c) (delivered w))"

text \<open>
  The other end introduced itself as \<open>p\<close>; then came the frames of the messages handed on, and
  nothing was skipped up to the unread rest.
\<close>

definition came :: "tcp_world \<Rightarrow> nat \<Rightarrow> string \<Rightarrow> bool" where
  "came w c p \<longleftrightarrow> p \<noteq> [] \<and> length p \<le> 1024 \<and> (\<forall>x \<in> set (from_conn w c). fst x = p \<and> frame_ok (snd x))
     \<and> concat (cStream (tHeap (tr w) c)) =
         encodeHandshake p @ concat (map (EncodeMessageFrame \<circ> snd) (from_conn w c)) @ concat (cIn (tHeap (tr w) c))"

definition in_ok :: "tcp_world \<Rightarrow> nat \<Rightarrow> bool" where
  "in_ok w c \<longleftrightarrow>
     (case readers w c of
        Name p \<Rightarrow> came w c p \<and> from_conn w c = []
      | Register p \<Rightarrow> came w c p \<and> from_conn w c = []
      | Announce p \<Rightarrow> came w c p \<and> from_conn w c = []
      | Serve p \<Rightarrow> came w c p
      | Failed e \<Rightarrow> from_conn w c = []
      | Dropping d \<Rightarrow> from_conn w c = [] \<or> (\<exists>p. came w c p)
      | Exited \<Rightarrow> from_conn w c = [] \<or> (\<exists>p. came w c p)
      | _ \<Rightarrow> cIn (tHeap (tr w) c) = cStream (tHeap (tr w) c) \<and> from_conn w c = [])"

definition ins_ok :: "tcp_world \<Rightarrow> bool" where
  "ins_ok w \<longleftrightarrow> (\<forall>c < tNext (tr w). in_ok w c) \<and> (\<forall>x \<in> set (delivered w). fst x < tNext (tr w))"

lemma came_cong:
  assumes "cIn (tHeap (tr v) c) = cIn (tHeap (tr w) c)" "cStream (tHeap (tr v) c) = cStream (tHeap (tr w) c)"
    "from_conn v c = from_conn w c"
  shows "came v c p = came w c p"
  using assms by (simp add: came_def)

lemma in_ok_cong:
  assumes "cIn (tHeap (tr v) c) = cIn (tHeap (tr w) c)" "cStream (tHeap (tr v) c) = cStream (tHeap (tr w) c)"
    "from_conn v c = from_conn w c"
    "readers v c = readers w c \<or> readers w c = NoReader \<and> (readers v c = Shake \<or> readers v c = Greet)"
  shows "in_ok w c \<Longrightarrow> in_ok v c"
  using assms by (auto simp: in_ok_def came_def split: read_pc.splits)

lemma read_in:
  assumes ins: "in_ok w c" and handler: "tHandler (tr w)"
    and step: "read_step c io (tr w) (readers w c) = Some (t, pc, r)"
  shows "in_ok (w\<lparr>tr := t, readers := (readers w)(c := pc),
      delivered := delivered w @ (case r of None \<Rightarrow> [] | Some d \<Rightarrow> [(c, d)])\<rparr>) c" (is "in_ok ?v c")
proof -
  have d: "from_conn ?v c = from_conn w c @ (case r of None \<Rightarrow> [] | Some d \<Rightarrow> [d])"
    by (simp add: from_conn_def split: option.split)
  show ?thesis
  proof (cases "readers w c")
    case Greet
    obtain h e where h: "conn_write (tHeap (tr w) c) (encodeHandshake (Addr (tr w))) io = (h, e)" by fastforce
    then show ?thesis using step Greet ins d conn_write_frame[OF h]
      by (auto simp: in_ok_def split: option.splits)
  next
    case Shake
    then have old: "cIn (tHeap (tr w) c) = cStream (tHeap (tr w) c)" "from_conn w c = []"
      using ins by (simp_all add: in_ok_def)
    show ?thesis
    proof (cases "conn_read (tHeap (tr w) c) decodeHandshake io")
      case (Inl e)
      then show ?thesis using step Shake d old by (auto simp: in_ok_def)
    next
      case (Inr x)
      obtain p rest where x: "x = (p, rest)" by fastforce
      then have "decodeHandshake (cIn (tHeap (tr w) c)) = Inr (p, rest)"
        using Inr by (auto simp: conn_read_def split: if_splits net_io.splits)
      note b = handshake_bounds[OF this]
      then show ?thesis using step Shake d old Inr x
        by (auto simp: in_ok_def came_def maxHandshakeAddrLen_def)
    qed
  next
    case (Serve p)
    show ?thesis
    proof (cases "conn_read (tHeap (tr w) c) DecodeMessageFrame io")
      case (Inl e)
      then have "came ?v c p" using step Serve d ins by (auto simp: in_ok_def came_def)
      then show ?thesis using step Serve Inl by (auto simp: in_ok_def)
    next
      case (Inr x)
      obtain m rest where x: "x = (m, rest)" by fastforce
      then have "DecodeMessageFrame (cIn (tHeap (tr w) c)) = Inr (m, rest)"
        using Inr by (auto simp: conn_read_def split: if_splits net_io.splits)
      note b = frame_decodes_only[OF this]
      have r: "t = on_conn c (cIn_update (\<lambda>_. rest)) (tr w)" "pc = Serve p" "r = Some (p, m)"
        using step Serve Inr x handler by auto
      have "came w c p" using ins Serve by (simp add: in_ok_def)
      then have "came ?v c p" using b d r by (auto simp: came_def)
      then show ?thesis using r by (simp add: in_ok_def)
    qed
  next
    case (Dropping e)
    then have r: "r = None" "pc = Exited \<or> (\<exists>e. pc = Dropping e)" "cIn (tHeap t c) = cIn (tHeap (tr w) c)"
      "cStream (tHeap t c) = cStream (tHeap (tr w) c)" using step by (cases e; auto)+
    then have "came ?v c p = came w c p" for p using d by (intro came_cong) simp_all
    then show ?thesis using r ins d Dropping by (auto simp: in_ok_def)
  qed (use step d ins in \<open>auto simp: in_ok_def came_def registerConnKey_heap\<close>)
qed

lemma send_step_in:
  "send_step p m io t pc = Some (t', pc', r) \<Longrightarrow> c < tNext t \<Longrightarrow> cIn (tHeap t' c) = cIn (tHeap t c)"
proof (cases pc)
  case (Enter s)
  assume step: "send_step p m io t pc = Some (t', pc', r)" and c: "c < tNext t"
  obtain t1 c1 new where e: "startOutbound s p t = (t1, c1, new)" by (metis prod_cases3)
  from e have "tHeap t1 c = tHeap t c" by (cases rule: startOutbound_cases; use c in simp)
  then show ?thesis using step Enter e by (auto split: bool.splits)
next
  case (Discard d e x)
  assume "send_step p m io t pc = Some (t', pc', r)"
  then show ?thesis using Discard by (cases e) auto
qed (auto split: prod.splits option.splits sum.splits net_io.splits dest: conn_write_frame(5))

lemma step_ins:
  assumes ok: "tcp_ok w" and ins: "ins_ok w" and step: "tcp_step ev w = Some v"
  shows "ins_ok v"
proof -
  have n: "tNext (tr w) \<le> tNext (tr v)" by (rule step_le(2)[OF step])
  have other: "ins_ok v"
    if i: "\<And>c. c < tNext (tr w) \<Longrightarrow> cIn (tHeap (tr v) c) = cIn (tHeap (tr w) c)"
      and d: "delivered v = delivered w"
      and r: "\<And>c. c < tNext (tr w) \<Longrightarrow> readers v c = readers w c \<or> readers w c = NoReader \<and> readers v c = Shake"
      and new: "\<And>c. tNext (tr w) \<le> c \<Longrightarrow> c < tNext (tr v) \<Longrightarrow>
        cIn (tHeap (tr v) c) = cStream (tHeap (tr v) c) \<and> readers v c \<in> {NoReader, Greet}"
  proof -
    have f: "from_conn v c = from_conn w c" for c using d by (simp add: from_conn_def)
    have "in_ok v c" if "c < tNext (tr v)" for c
    proof (cases "c < tNext (tr w)")
      case True
      have "in_ok w c" using ins True by (simp add: ins_ok_def)
      then show ?thesis
        using in_ok_cong[of v c w] i[OF True] f[of c] r[OF True] step_le(1)[OF step True] by (auto simp: conn_le_def)
    next
      case False
      then have "from_conn w c = []" using ins by (auto simp: ins_ok_def from_conn_def filter_empty_conv)
      then show ?thesis using new[of c] False that f[of c] by (auto simp: in_ok_def)
    qed
    then show ?thesis using ins d n by (auto simp: ins_ok_def intro: less_le_trans)
  qed
  from step show ?thesis
  proof (cases rule: tcp_stepE)
    case (start h l t r)
    from start(1) show ?thesis by (cases rule: Start_cases; intro other; use start(2) in simp)
  next
    case (call i p m)
    then show ?thesis by (intro other) auto
  next
    case (close t r)
    then show ?thesis by (intro other) (auto simp: CloseBegin_def split: if_splits)
  next
    case (accept io t r go)
    from accept(2) show ?thesis
      by (cases rule: accept_step_cases; intro other; use accept(3) in \<open>auto simp: less_Suc_eq_le\<close>)
  next
    case (read c io t pc r)
    have c: "c < tNext (tr w)"
      using tcp_okD(2)[OF ok, of c] read_step_wg(1)[OF read(1)] by (auto simp: conn_ok_def not_le)
    then have handler: "tHandler (tr w)" using tcp_okD(1)[OF ok] by (auto simp: sys_ok_def)
    have n': "tNext t = tNext (tr w)" using read_step_le[OF read(1)] by simp
    have "in_ok v d" if d: "d < tNext (tr w)" for d
    proof (cases "d = c")
      case True
      then show ?thesis using read_in[OF _ handler read(1)] ins d unfolding read(2) by (simp add: ins_ok_def)
    next
      case False
      have "from_conn v d = from_conn w d" using read(2) False by (simp add: from_conn_def split: option.split)
      then show ?thesis
        using in_ok_cong[of v d w] read(2) read_step_other[OF read(1) False] False ins d
        by (simp add: ins_ok_def)
    qed
    then show ?thesis using ins c n' read(2) by (auto simp: ins_ok_def split: option.splits)
  next
    case (send i io k t pc r)
    have tr: "tr v = t" "delivered v = delivered w" using send(3) by (auto split: option.splits)
    have rd: "readers v c = readers w c \<or> readers w c = NoReader \<and> readers v c = Shake \<and> c < tNext (tr w)" for c
    proof (cases "r = Some c")
      case True
      then have "greets (pc_of w i) = Some c" using send_step_wg(2)[OF send(2)] send(1) by (simp add: pc_of_def)
      then show ?thesis using tcp_okD(3)[OF ok, of i] send(3) True by (simp add: call_ok_def)
    qed (use send(3) in \<open>auto split: option.splits\<close>)
    have new: "cIn (tHeap t c) = cStream (tHeap t c)" if "tNext (tr w) \<le> c" "c < tNext t" for c
    proof (cases "\<exists>s. callPc k = Enter s")
      case True
      then obtain s where s: "callPc k = Enter s" by blast
      obtain t1 c1 new where e: "startOutbound s (callPeer k) (tr w) = (t1, c1, new)" by (metis prod_cases3)
      have "t = t1" using send(2) s e by (auto split: bool.splits)
      with e show ?thesis using that by (cases rule: startOutbound_cases) (auto simp: less_Suc_eq)
    next
      case False
      then have "tNext t = tNext (tr w)" using send(2)
        by (cases "callPc k") (auto split: prod.splits option.splits sum.splits net_io.splits dest: dropConn_le)
      then show ?thesis using that by simp
    qed
    have "readers v c \<in> {NoReader, Greet}" if "tNext (tr w) \<le> c" for c
      using rd[of c] tcp_okD(2)[OF ok, of c] that by (auto simp: conn_ok_def)
    then show ?thesis using send_step_in[OF send(2)] tr rd new by (intro other) auto
  next
    case (shut io t pc)
    have "cIn (tHeap t d) = cIn (tHeap (tr w) d)" for d
      using shut(1) by (cases "(io, tr w, closer w)" rule: close_step.cases) (auto split: if_splits)
    then show ?thesis using shut close_step_frame[OF shut(1)] by (intro other) auto
  qed
qed

lemma reachable_streams: "tcp_reachable addr w \<Longrightarrow> outs_ok w \<and> ins_ok w"
proof (induction rule: tcp_reachable.induct)
  case fresh
  then show ?case
    by (simp add: outs_ok_def ins_ok_def out_call_ok_def pc_of_def tcp_init_def NewTCPTransport_def)
next
  case (move w v)
  then show ?case using step_outs step_ins tcp_reachable_inv by (metis tcp_movesE)
qed

section \<open>What a successful Send has done\<close>

definition call_key :: "tcp_world \<Rightarrow> nat \<Rightarrow> bool" where
  "call_key w i \<longleftrightarrow> (\<forall>k c. calls w i = Some k \<longrightarrow>
     greets (callPc k) = Some c \<or> holds (callPc k) = Some c \<or> awaits (callPc k) = Some c \<longrightarrow>
     map_of (cKeys (tHeap (tr w) c)) (callPeer k) \<noteq> None)"

lemma step_call_key:
  assumes ok: "tcp_ok w" and keys: "call_key w i" and step: "tcp_step ev w = Some v"
  shows "call_key v i"
proof -
  have same: "call_key v i" if c: "calls v i = calls w i"
    unfolding call_key_def
  proof (intro allI impI)
    fix k c assume k: "calls v i = Some k"
      and g: "greets (callPc k) = Some c \<or> holds (callPc k) = Some c \<or> awaits (callPc k) = Some c"
    then have "pc_of w i = callPc k" using c by (simp add: pc_of_def)
    then have "c < tNext (tr w)" using tcp_okD(3)[OF ok, of i] g by (auto simp: call_ok_def)
    moreover have "map_of (cKeys (tHeap (tr w) c)) (callPeer k) \<noteq> None"
      using keys k g c unfolding call_key_def by metis
    ultimately show "map_of (cKeys (tHeap (tr v) c)) (callPeer k) \<noteq> None"
      using step_le(1)[OF step] by (simp add: conn_le_def)
  qed
  from step show ?thesis
  proof (cases rule: tcp_stepE)
    case (call j p m)
    show ?thesis
    proof (cases "j = i")
      case True
      then show ?thesis using call by (simp add: call_key_def)
    qed (use call in \<open>intro same; simp\<close>)
  next
    case (send j io k t pc r)
    show ?thesis
    proof (cases "j = i")
      case False
      then show ?thesis using send(3) by (intro same) (simp split: option.split)
    next
      case True
      have v: "calls v i = Some (k\<lparr>callPc := pc\<rparr>)" "tr v = t" using send(3) True by (auto split: option.splits)
      have old: "pc_of w i = callPc k" using send(1) True by (simp add: pc_of_def)
      have kept: "map_of (cKeys (tHeap t c)) (callPeer k) \<noteq> None"
        if "greets (callPc k) = Some c \<or> holds (callPc k) = Some c \<or> awaits (callPc k) = Some c" for c
      proof -
        have "c < tNext (tr w)" using tcp_okD(3)[OF ok, of i] old that by (auto simp: call_ok_def)
        moreover have "map_of (cKeys (tHeap (tr w) c)) (callPeer k) \<noteq> None"
          using keys send(1) True that unfolding call_key_def by metis
        ultimately show ?thesis using step_le(1)[OF step] v(2) by (simp add: conn_le_def)
      qed
      have table: "map_of (cKeys (tHeap (tr w) c)) (callPeer k) \<noteq> None"
        if "map_of (tConns (tr w)) (callPeer k) = Some c" for c
        using tcp_okD(5)[OF ok, of "callPeer k"] that by (simp add: key_ok_def)
      have "map_of (cKeys (tHeap t c)) (callPeer k) \<noteq> None"
        if g: "greets pc = Some c \<or> holds pc = Some c \<or> awaits pc = Some c" for c
      proof (cases "callPc k")
        case Lookup
        then show ?thesis using send(2) g table
          by (auto simp: getOrDial_def simp del: map_of_eq_Some_iff split: sum.splits option.splits if_splits)
      next
        case (Enter s)
        obtain t1 c1 new where e: "startOutbound s (callPeer k) (tr w) = (t1, c1, new)" by (metis prod_cases3)
        have "t = t1" "c = c1" using send(2) g Enter e by (auto split: bool.splits)
        with e show ?thesis
        proof (cases rule: startOutbound_cases)
          case (1 d)
          then have "d < tNext (tr w)" using tcp_okD(5)[OF ok, of "callPeer k"] by (simp add: key_ok_def)
          then show ?thesis using 1 table[OF 1(1)] \<open>t = t1\<close> \<open>c = c1\<close> by simp
        qed (simp add: gm.get_put)
      qed (rule kept; use send(2) g in \<open>auto split: prod.splits option.splits sum.splits net_io.splits\<close>)+
      then show ?thesis using v by (simp add: call_key_def)
    qed
  qed (intro same; simp split: option.split)+
qed

lemma reachable_call_key: "tcp_reachable addr w \<Longrightarrow> call_key w i"
proof (induction rule: tcp_reachable.induct)
  case fresh
  then show ?case by (simp add: call_key_def tcp_init_def)
next
  case (move w v)
  then show ?case using step_call_key tcp_reachable_inv by (metis tcp_movesE)
qed

text \<open>A call returns without an error only by its write.\<close>

lemma send_returns:
  assumes "send_step p m io t pc = Some (t', Returned None, r)"
  obtains c where "pc = Put c" "cOpen (tHeap t c)"
    "t' = on_conn c (\<lambda>k. k\<lparr>cOut := cOut k @ [EncodeMessageFrame m]\<rparr>) t"
proof (cases pc)
  case (Put c)
  obtain h x where h: "conn_write (tHeap t c) (EncodeMessageFrame m) io = (h, x)" by fastforce
  then have "x = None" "t' = on_conn c (\<lambda>_. h) t" using assms Put by (auto split: option.splits)
  then show ?thesis using Put by (intro that[of c]) (auto intro: conn_write_cases[OF h] simp: on_conn_def)
next
  case (Enter s)
  obtain t1 c1 new where e: "startOutbound s p t = (t1, c1, new)" by (metis prod_cases3)
  then show ?thesis using assms Enter by (auto split: bool.splits)
qed (use assms in \<open>auto split: prod.splits option.splits sum.splits net_io.splits\<close>)

end
