(* ===== verification/Tcp_Calls.thy ===== *)
theory Tcp_Calls
  imports Tcp_Delivery
begin

text \<open>
  A call of \<open>Send\<close> is never stuck: whatever the state, there are steps after which it has returned.
  And \<open>Close\<close>: which connections it has closed, and what has ended, when it returns.
\<close>

section \<open>Sends can end\<close>

definition can_return :: "tcp_world \<Rightarrow> nat \<Rightarrow> bool" where
  "can_return w i \<longleftrightarrow> (\<exists>v r. tcp_moves\<^sup>*\<^sup>* w v \<and> pc_of v i = Returned r)"

lemma moves_reachable: "tcp_moves\<^sup>*\<^sup>* w v \<Longrightarrow> tcp_reachable addr w \<Longrightarrow> tcp_reachable addr v"
  by (induction rule: rtranclp_induct) (auto intro: tcp_reachable.move)

lemma can_return_moves: "tcp_moves\<^sup>*\<^sup>* w v \<Longrightarrow> can_return v i \<Longrightarrow> can_return w i"
  unfolding can_return_def by (meson rtranclp_trans)

text \<open>One step of call \<open>i\<close>, and where it leads.\<close>

lemma send_stepI:
  assumes "calls w i = Some k" and "send_step (callPeer k) (callMsg k) io (tr w) (callPc k) = Some (t, pc, r)"
  shows "\<exists>v. tcp_moves w v \<and> calls v i = Some (k\<lparr>callPc := pc\<rparr>) \<and> tr v = t
     \<and> (\<forall>j. j \<noteq> i \<longrightarrow> calls v j = calls w j)"
  using assms by (cases r) (auto intro!: exI tcp_moves.intros[of "SendStep i io"])

lemma read_stepI:
  assumes "read_step c io (tr w) (readers w c) = Some (t, pc, r)"
  shows "\<exists>v. tcp_moves w v \<and> calls v = calls w \<and> tr v = t \<and> readers v = (readers w)(c := pc)"
  using assms by (cases r) (auto intro!: exI tcp_moves.intros[of "ReadStep c io"])

lemma broken_write: "\<exists>e. conn_write k frame (Broken 0 ReadEOF) = (fst (conn_write k frame (Broken 0 ReadEOF)), Some e)"
  by (simp add: conn_write_def)

lemma broken_read: "\<exists>e. conn_read k decode (Broken 0 ReadEOF) = Inl e"
  by (simp add: conn_read_def)

text \<open>How far the goroutine of a connection is from marking it, if the network fails it.\<close>

fun stage :: "read_pc \<Rightarrow> nat" where
  "stage Greet = 3" | "stage Shake = 3" | "stage (Name p) = 3" | "stage (Register p) = 2" | "stage _ = 1"

lemma reader_wakes:
  assumes "tcp_reachable addr w" and "early (readers w c)"
  shows "\<exists>v. tcp_moves\<^sup>*\<^sup>* w v \<and> cReady (tHeap (tr v) c) \<and> calls v = calls w"
  using assms
proof (induction "stage (readers w c)" arbitrary: w rule: less_induct)
  case less
  have "\<exists>io t pc r. read_step c io (tr w) (readers w c) = Some (t, pc, r)
      \<and> (early pc \<and> stage pc < stage (readers w c) \<or> \<not> early pc)"
  proof (cases "readers w c")
    case Greet
    then show ?thesis
      using broken_write[of "tHeap (tr w) c" "encodeHandshake (Addr (tr w))"]
      by (intro exI[of _ "Broken 0 ReadEOF"]) (auto split: prod.splits option.splits)
  next
    case Shake
    then show ?thesis
      using broken_read[of "tHeap (tr w) c" decodeHandshake] by (intro exI[of _ "Broken 0 ReadEOF"]) auto
  qed (use less.prems in auto)
  then obtain io t pc r where step: "read_step c io (tr w) (readers w c) = Some (t, pc, r)"
    and pc: "early pc \<and> stage pc < stage (readers w c) \<or> \<not> early pc" by blast
  from read_stepI[OF step] obtain v where v: "tcp_moves w v" "calls v = calls w"
    "readers v c = pc" by auto
  have r: "tcp_reachable addr v" using less.prems(1) v(1) by (rule tcp_reachable.move)
  show ?case
  proof (cases "early pc")
    case True
    with less.hyps[of v] pc r v obtain u where "tcp_moves\<^sup>*\<^sup>* v u" "cReady (tHeap (tr u) c)" "calls u = calls v"
      by auto
    then show ?thesis using v(1,2) by (metis converse_rtranclp_into_rtranclp)
  next
    case False
    have "pc \<noteq> NoReader" by (rule read_step_wg(3)[OF step])
    then have "cReady (tHeap (tr v) c)"
      using tcp_okD(2)[of v c] tcp_reachable_inv[OF r] False v(3) by (simp add: conn_ok_def)
    then show ?thesis using v(1,2) by blast
  qed
qed

text \<open>A connection that is attended to becomes ready without a move of any other call.\<close>

lemma attended_wakes:
  assumes r: "tcp_reachable addr w" and "attended w c" and i: "greets (pc_of w i) \<noteq> Some c"
  shows "\<exists>v. tcp_moves\<^sup>*\<^sup>* w v \<and> cReady (tHeap (tr v) c) \<and> calls v i = calls w i"
proof (cases "cReady (tHeap (tr w) c)")
  case False
  show ?thesis
  proof (cases "early (readers w c)")
    case True
    then show ?thesis using reader_wakes[OF r True] by fastforce
  next
    case late: False
    then obtain j where j: "greets (pc_of w j) = Some c" using assms(2) False
      by (auto simp: attended_def in_charge_def)
    then have ji: "j \<noteq> i" using i by auto
    from j obtain k where k: "calls w j = Some k" "pc_of w j = callPc k"
      by (cases "calls w j") (auto simp: pc_of_def)
    have fail: "\<exists>u. tcp_moves\<^sup>*\<^sup>* x u \<and> cReady (tHeap (tr u) c) \<and> calls u i = calls x i"
      if "calls x j = Some l" "callPc l = HelloFailed c e" for x l e
    proof -
      have "send_step (callPeer l) (callMsg l) Fine (tr x) (callPc l)
          = Some (on_conn c (failReady e) (tr x), Discard c Unlink None, None)" using that by simp
      from send_stepI[OF that(1) this] obtain u where "tcp_moves x u" "tr u = on_conn c (failReady e) (tr x)"
        "calls u i = calls x i" using ji by metis
      then show ?thesis by (intro exI[of _ u]) auto
    qed
    from j k consider "callPc k = Hello c" | e where "callPc k = HelloFailed c e"
      by (auto simp: greets_Some)
    then show ?thesis
    proof cases
      case 1
      obtain e where "conn_write (tHeap (tr w) c) (encodeHandshake (Addr (tr w))) (Broken 0 ReadEOF)
          = (fst (conn_write (tHeap (tr w) c) (encodeHandshake (Addr (tr w))) (Broken 0 ReadEOF)), Some e)" 
        using broken_write by blast
      then have "\<exists>t. send_step (callPeer k) (callMsg k) (Broken 0 ReadEOF) (tr w) (callPc k)
          = Some (t, HelloFailed c e, None)" using 1 by (auto split: prod.splits option.splits)
      then obtain t where "send_step (callPeer k) (callMsg k) (Broken 0 ReadEOF) (tr w) (callPc k)
          = Some (t, HelloFailed c e, None)" by blast
      from send_stepI[OF k(1) this] obtain x where x: "tcp_moves w x"
        "calls x j = Some (k\<lparr>callPc := HelloFailed c e\<rparr>)" "calls x i = calls w i" using ji by metis
      from fail[OF x(2)] obtain u where "tcp_moves\<^sup>*\<^sup>* x u" "cReady (tHeap (tr u) c)" "calls u i = calls x i"
        by auto
      then show ?thesis using x(1,3) by (metis converse_rtranclp_into_rtranclp)
    next
      case 2
      then show ?thesis using fail[OF k(1)] by blast
    qed
  qed
qed blast

text \<open>Calls at \<open>pc\<close> can return, in every reachable state.\<close>

definition ends_from :: "string \<Rightarrow> nat \<Rightarrow> send_pc \<Rightarrow> bool" where
  "ends_from addr i pc \<longleftrightarrow>
     (\<forall>w k. tcp_reachable addr w \<longrightarrow> calls w i = Some k \<longrightarrow> callPc k = pc \<longrightarrow> can_return w i)"

lemma ends_step:
  assumes "\<And>p m t. \<exists>io t' pc' r. send_step p m io t pc = Some (t', pc', r) \<and> ends_from addr i pc'"
  shows "ends_from addr i pc"
  unfolding ends_from_def
proof (intro allI impI)
  fix w k assume r: "tcp_reachable addr w" and k: "calls w i = Some k" and pc: "callPc k = pc"
  obtain io t' pc' r' where step: "send_step (callPeer k) (callMsg k) io (tr w) (callPc k) = Some (t', pc', r')"
    and ends: "ends_from addr i pc'" using assms[of "callPeer k" "callMsg k" "tr w"] pc by blast
  from send_stepI[OF k step] obtain v where v: "tcp_moves w v" "calls v i = Some (k\<lparr>callPc := pc'\<rparr>)" by blast
  have "can_return v i"
    using ends v r unfolding ends_from_def by (metis tcp_reachable.move tcp_call.select_convs(3) tcp_call.surjective tcp_call.update_convs(3))
  then show "can_return w i" using v(1) by (meson can_return_moves r_into_rtranclp)
qed

lemma ends_returned: "ends_from addr i (Returned r)"
  unfolding ends_from_def can_return_def pc_of_def by (metis option.simps(5) rtranclp.rtrancl_refl)

lemma ends_discard:
  assumes "ends_from addr i (case r of None \<Rightarrow> Await c | Some e \<Rightarrow> Returned (Some e))"
  shows "ends_from addr i (Discard c d r)"
proof -
  have w: "ends_from addr i (Discard c Wake r)" by (rule ends_step) (use assms in simp)
  have s: "ends_from addr i (Discard c Shut r)" by (rule ends_step) (use w in simp)
  have "ends_from addr i (Discard c Unlink r)" by (rule ends_step) (use s in simp)
  with w s show ?thesis by (cases d) simp_all
qed

lemma ends_put: "ends_from addr i (Put c)"
proof (rule ends_step)
  fix p m and t :: tcp
  obtain e where "conn_write (tHeap t c) (EncodeMessageFrame m) (Broken 0 ReadEOF)
      = (fst (conn_write (tHeap t c) (EncodeMessageFrame m) (Broken 0 ReadEOF)), Some e)"
    using broken_write by blast
  then have "\<exists>t'. send_step p m (Broken 0 ReadEOF) t (Put c) = Some (t', Discard c Unlink (Some e), None)"
    by (auto split: prod.splits option.splits)
  moreover have "ends_from addr i (Discard c Unlink (Some e))" by (rule ends_discard) (simp add: ends_returned)
  ultimately show "\<exists>io t' pc' r. send_step p m io t (Put c) = Some (t', pc', r) \<and> ends_from addr i pc'" by blast
qed

lemma ends_await: "ends_from addr i (Await c)"
  unfolding ends_from_def
proof (intro allI impI)
  fix w k assume r: "tcp_reachable addr w" and k: "calls w i = Some k" and pc: "callPc k = Await c"
  then have "wanted w c" and g: "greets (pc_of w i) \<noteq> Some c" by (auto simp: wanted_def pc_of_def intro!: exI[of _ i])
  then have "attended w c" using wanted_attended[OF r] by blast
  from attended_wakes[OF r this g] obtain v where v: "tcp_moves\<^sup>*\<^sup>* w v" "cReady (tHeap (tr v) c)"
    "calls v i = Some k" using k by auto
  have rv: "tcp_reachable addr v" by (rule moves_reachable[OF v(1) r])
  have "\<exists>pc' e. send_step (callPeer k) (callMsg k) Fine (tr v) (callPc k) = Some (tr v, pc', None)
      \<and> (pc' = Put c \<or> pc' = Returned (Some e))"
    using v(2) pc by (auto simp: waitReady_def split: option.splits)
  then obtain pc' e where step: "send_step (callPeer k) (callMsg k) Fine (tr v) (callPc k) = Some (tr v, pc', None)"
    and pc': "pc' = Put c \<or> pc' = Returned (Some e)" by blast
  have ends: "ends_from addr i pc'" using pc' ends_put ends_returned by auto
  from send_stepI[OF v(3) step] obtain u where u: "tcp_moves v u" "calls u i = Some (k\<lparr>callPc := pc'\<rparr>)" by blast
  have "tcp_reachable addr u" using rv u(1) by (rule tcp_reachable.move)
  then have "can_return u i" using ends u(2) by (simp add: ends_from_def)
  then show "can_return w i" using v(1) u(1) by (meson can_return_moves r_into_rtranclp)
qed

lemma ends_hello: "ends_from addr i (Hello c)"
proof -
  have d: "ends_from addr i (Discard c Unlink None)" by (rule ends_discard) (simp add: ends_await)
  have f: "ends_from addr i (HelloFailed c e)" for e by (rule ends_step) (use d in simp)
  show ?thesis
  proof (rule ends_step)
    fix p m and t :: tcp
    obtain e where "conn_write (tHeap t c) (encodeHandshake (Addr t)) (Broken 0 ReadEOF)
        = (fst (conn_write (tHeap t c) (encodeHandshake (Addr t)) (Broken 0 ReadEOF)), Some e)"
      using broken_write by blast
    then have "\<exists>t'. send_step p m (Broken 0 ReadEOF) t (Hello c) = Some (t', HelloFailed c e, None)"
      by (auto split: prod.splits option.splits)
    then show "\<exists>io t' pc' r. send_step p m io t (Hello c) = Some (t', pc', r) \<and> ends_from addr i pc'"
      using f by blast
  qed
qed

lemma ends_all: "ends_from addr i pc"
proof (cases pc)
  case Lookup
  have d: "ends_from addr i Dial"
  proof (rule ends_step)
    fix p m and t :: tcp
    have "send_step p m (Broken 0 ReadEOF) t Dial = Some (t, Returned (Some ReadEOF), None)" by simp
    then show "\<exists>io t' pc' r. send_step p m io t Dial = Some (t', pc', r) \<and> ends_from addr i pc'"
      using ends_returned by blast
  qed
  show ?thesis unfolding Lookup
    by (rule ends_step) (auto simp: ends_returned ends_await d split: sum.split option.split)
next
  case Dial
  have "send_step p m (Broken 0 ReadEOF) t Dial = Some (t, Returned (Some ReadEOF), None)" for p m and t :: tcp by simp
  then show ?thesis unfolding Dial by (intro ends_step) (use ends_returned in blast)
next
  case (Enter s)
  show ?thesis unfolding Enter
  proof (rule ends_step)
    fix p m and t :: tcp
    obtain t1 c1 new where e: "startOutbound s p t = (t1, c1, new)" by (metis prod_cases3)
    then show "\<exists>io t' pc' r. send_step p m io t (Enter s) = Some (t', pc', r) \<and> ends_from addr i pc'"
      by (cases new) (auto simp: ends_hello ends_await)
  qed
next
  case (HelloFailed c e)
  have d: "ends_from addr i (Discard c Unlink None)" by (rule ends_discard) (simp add: ends_await)
  show ?thesis unfolding HelloFailed by (rule ends_step) (use d in simp)
next
  case (Discard c d r)
  show ?thesis unfolding Discard by (rule ends_discard) (simp add: ends_await ends_returned split: option.split)
qed (simp_all add: ends_hello ends_await ends_put ends_returned)

section \<open>Close\<close>

text \<open>The connections that \<open>Close\<close> has still to close.\<close>

fun to_close :: "close_pc \<Rightarrow> nat set" where
  "to_close (ShutListener cs) = set cs" | "to_close (ShutConns cs err) = set cs" | "to_close _ = {}"

lemma distinct_conns_set: "set (distinct_conns had cs) = set cs - set had"
  by (induction cs arbitrary: had) auto

text \<open>The connections \<open>C\<close> are closed, or \<open>Close\<close> will come to them.\<close>

definition closing :: "nat set \<Rightarrow> tcp_world \<Rightarrow> bool" where
  "closing C w \<longleftrightarrow> tClosed (tr w) \<and> (\<forall>c \<in> C. c < tNext (tr w) \<and> (cOpen (tHeap (tr w) c) \<longrightarrow> c \<in> to_close (closer w)))"

lemma dropConn_closed: "dropConn d c t = (t', r) \<Longrightarrow> tClosed t' = tClosed t"
  by (erule dropConn_cases) auto

lemma step_closed:
  assumes "tcp_step ev w = Some v" and "tClosed (tr w)"
  shows "tClosed (tr v) \<and> (closer v = closer w \<or> (\<exists>io. close_step io (tr w) (closer w) = Some (tr v, closer v)))"
  using assms(1)
proof (cases rule: tcp_stepE)
  case (start h l t r)
  from start(1) show ?thesis using start(2) assms(2) by (cases rule: Start_cases) auto
next
  case (close t r)
  then show ?thesis using assms(2) by (auto simp: CloseBegin_def)
next
  case (accept io t r go)
  from accept(2) show ?thesis using accept(3) assms(2) by (cases rule: accept_step_cases) auto
next
  case (read c io t pc r)
  have "tClosed t = tClosed (tr w)"
    using read(1) by (cases "readers w c") (auto split: prod.splits option.splits sum.splits dest: dropConn_closed)
  then show ?thesis using read(2) assms(2) by simp
next
  case (send i io k t pc r)
  have "tClosed t = tClosed (tr w)"
  proof (cases "callPc k")
    case (Enter s)
    obtain t1 c1 new where e: "startOutbound s (callPeer k) (tr w) = (t1, c1, new)" by (metis prod_cases3)
    then have "tClosed t1 = tClosed (tr w)" by (cases rule: startOutbound_cases) auto
    then show ?thesis using send(2) Enter e by (auto split: bool.splits)
  qed (use send(2) in \<open>auto split: prod.splits option.splits sum.splits net_io.splits dest: dropConn_closed\<close>)
  then show ?thesis using send(3) assms(2) by (auto split: option.splits)
next
  case (shut io t pc)
  then show ?thesis using assms(2)
    by (cases "(io, tr w, closer w)" rule: close_step.cases) (auto split: if_splits)
qed (use assms(2) in simp)

lemma step_closing:
  assumes "tcp_step ev w = Some v" and "closing C w"
  shows "closing C v"
proof -
  have closed: "tClosed (tr w)" using assms(2) by (simp add: closing_def)
  note v = step_closed[OF assms(1) closed]
  have "c < tNext (tr v) \<and> (cOpen (tHeap (tr v) c) \<longrightarrow> c \<in> to_close (closer v))" if c: "c \<in> C" for c
  proof -
    have n: "c < tNext (tr w)" and o: "cOpen (tHeap (tr w) c) \<longrightarrow> c \<in> to_close (closer w)"
      using assms(2) c by (auto simp: closing_def)
    have le: "cOpen (tHeap (tr v) c) \<longrightarrow> cOpen (tHeap (tr w) c)"
      using step_le(1)[OF assms(1) n] by (simp add: conn_le_def)
    have "c \<in> to_close (closer w) \<Longrightarrow> cOpen (tHeap (tr v) c) \<Longrightarrow> c \<in> to_close (closer v)"
      using v
    proof (elim conjE disjE exE)
      fix io assume s: "close_step io (tr w) (closer w) = Some (tr v, closer v)"
        and cc: "c \<in> to_close (closer w)" and op: "cOpen (tHeap (tr v) c)"
      show "c \<in> to_close (closer v)"
      proof (cases "closer w")
        case (ShutListener cs)
        then obtain e where "ShutConns cs e = closer v" using s by (auto split: if_splits)
        then show ?thesis using cc ShutListener by (metis to_close.simps(1,2))
      next
        case (ShutConns cs err)
        then obtain a l where l: "cs = a # l" "closer w = ShutConns (a # l) err"
          using cc s by (cases cs) auto
        from s have "Some (tr v, closer v) = close_step io (tr w) (closer w)" by simp
        then obtain e where "tr v = on_conn a closeConn (tr w)" "closer v = ShutConns l e" unfolding l by simp
        then show ?thesis using cc op l by (auto split: if_splits)
      qed (use cc in auto)
    qed simp
    then show ?thesis using n o le step_le(2)[OF assms(1)] by auto
  qed
  then show ?thesis using v by (simp add: closing_def)
qed

lemma moves_closing: "tcp_moves\<^sup>*\<^sup>* w v \<Longrightarrow> closing C w \<Longrightarrow> closing C v"
  by (induction rule: rtranclp_induct) (auto elim: tcp_movesE intro: step_closing)

lemma close_begins:
  assumes "tcp_reachable addr w" and "\<not> tClosed (tr w)" and "tcp_step DoClose w = Some v"
  shows "closing (ran (map_of (tConns (tr w)))) v"
proof -
  have ok: "tcp_ok w" using tcp_reachable_inv[OF assms(1)] by blast
  have wf: "mwf (tConns (tr w))" using tcp_okD(1)[OF ok] by (simp add: sys_ok_def)
  have "c < tNext (tr w)" if "c \<in> ran (map_of (tConns (tr w)))" for c
    using that tcp_okD(5)[OF ok] by (auto simp: ran_def key_ok_def)
  moreover have "v = w\<lparr>tr := (tr w)\<lparr>tClosed := True\<rparr>,
      closer := ShutListener (distinct_conns [] (map snd (tConns (tr w))))\<rparr>"
    using assms(2,3) by (simp add: CloseBegin_def)
  moreover have "ran (map_of (tConns (tr w))) = set (distinct_conns [] (map snd (tConns (tr w))))"
    by (simp add: distinct_conns_set ran_distinct[OF wf])
  ultimately show ?thesis by (simp add: closing_def)
qed

text \<open>\<open>Close\<close> goes from waiting to its return only when no goroutine is left.\<close>

lemma close_waits:
  assumes "tcp_reachable addr w" and "tcp_step ev w = Some v" and "closer w = Waiting err" and "closer v = CloseReturned e"
  shows "tr v = tr w \<and> \<not> accepting v \<and> running v = {} \<and> e = err"
  using assms(2)
proof (cases rule: tcp_stepE)
  case (shut io t pc)
  then have "tWg (tr w) = 0" "t = tr w" "pc = CloseReturned err" using assms(3) by (auto split: if_splits)
  moreover have "wg_ok w" by (rule reachable_wg[OF assms(1)])
  ultimately show ?thesis using shut(2) assms(4) by (auto simp: wg_ok_def running_def)
next
  case (close t r)
  then show ?thesis using assms(3,4) by (auto simp: CloseBegin_def split: if_splits)
qed (use assms(3,4) in \<open>auto split: option.splits\<close>)

end
