(* ===== verification/Tcp_Properties.thy ===== *)
theory Tcp_Properties
  imports Tcp_Calls
begin

text \<open>
  The properties of the TCP transport, over all interleavings of its goroutines and all answers of
  the network, and two runs in which \<open>Close\<close> leaves connections behind.
\<close>

section \<open>Runs\<close>

lemma tcp_run_moves: "tcp_run evs w = Some v \<Longrightarrow> tcp_moves\<^sup>*\<^sup>* w v"
proof (induction evs arbitrary: w)
  case (Cons ev evs)
  then obtain u where "tcp_step ev w = Some u" and "tcp_run evs u = Some v" by (auto split: option.splits)
  then show ?case using Cons.IH by (meson converse_rtranclp_into_rtranclp tcp_moves.intros)
qed simp

lemma run_from_init: "tcp_run evs (tcp_init addr) = Some v \<Longrightarrow> tcp_reachable addr v"
  by (rule tcp_run_reachable[OF tcp_reachable.fresh])

definition hello_msg :: message where
  "hello_msg = NewINVMessage (replicate 16 8) 100 30 (replicate 32 3)"

lemma hello_msg_ok: "frame_ok hello_msg"
  by (simp add: frame_ok_def message_ok_def hello_msg_def new_message_defs EncodeINVID_def INV_def maxFrameSize_def
      EncodeMessage_eq)

text \<open>A peer called \<open>y\<close> that sends one message.\<close>

definition peer_stream :: "string \<Rightarrow> reader" where
  "peer_stream y = [encodeHandshake y @ EncodeMessageFrame hello_msg]"

lemma peer_reads:
  assumes "y \<noteq> []" and "length y \<le> 1024"
  obtains r1 r2 where "decodeHandshake (peer_stream y) = Inr (y, r1)" "DecodeMessageFrame r1 = Inr (hello_msg, r2)"
proof -
  obtain r1 where r1: "decodeHandshake (peer_stream y) = Inr (y, r1)" "concat r1 = EncodeMessageFrame hello_msg"
    using handshake_decodes[of y "peer_stream y" "EncodeMessageFrame hello_msg"] assms
    by (auto simp: peer_stream_def maxHandshakeAddrLen_def)
  obtain r2 where "DecodeMessageFrame r1 = Inr (hello_msg, r2)"
    using frame_decodes[OF hello_msg_ok, of r1 "[]"] r1(2) by auto
  then show ?thesis using r1(1) by (rule that[rotated])
qed

text \<open>Call 0 of \<open>x\<close> has dialled \<open>y\<close> and greeted it; call 1 waits on the same connection.\<close>

definition dial_events :: "string \<Rightarrow> string \<Rightarrow> tcp_event list" where
  "dial_events x y = [DoStart True (Inr x), DoSend 0 y hello_msg, SendStep 0 Fine,
     SendStep 0 (Stream (peer_stream y)), SendStep 0 Fine, SendStep 0 Fine, DoSend 1 y hello_msg, SendStep 1 Fine]"

definition dialled :: "string \<Rightarrow> string \<Rightarrow> tcp_world \<Rightarrow> bool" where
  "dialled x y w \<longleftrightarrow> tcp_run (dial_events x y) (tcp_init x) = Some w \<and> tConns (tr w) = [(y, 0)]
     \<and> calls w 1 = Some \<lparr>callPeer = y, callMsg = hello_msg, callPc = Await 0\<rparr>
     \<and> tNext (tr w) = 1 \<and> readers w 0 = Shake \<and> cIn (tHeap (tr w) 0) = peer_stream y \<and> cOpen (tHeap (tr w) 0)
     \<and> tListener (tr w) = Some x \<and> cOut (tHeap (tr w) 0) = [encodeHandshake x] \<and> tHandler (tr w)
     \<and> \<not> tClosed (tr w) \<and> cStream (tHeap (tr w) 0) = peer_stream y \<and> delivered w = []
     \<and> closer w = NotClosing \<and> cErr (tHeap (tr w) 0) = None"

lemma dial_run: "\<exists>w. dialled x y w"
  by (simp add: dialled_def dial_events_def tcp_init_def NewTCPTransport_def Start_def getOrDial_def startOutbound_def
      conn_write_def Addr_def addKey_def newConn_def on_conn_def)

lemma dialled_reachable: "dialled x y w \<Longrightarrow> tcp_reachable x w"
  unfolding dialled_def by (blast intro: run_from_init)

section \<open>Calls\<close>

text \<open>C8: No \<open>Send\<close> is ever stuck: from every reachable state, in whatever phase the call is and whatever the other goroutines have done, there are steps after which it has returned. In particular it never waits for the handshake of a connection that nobody will mark ready or failed.\<close>

theorem send_never_stuck:
  assumes "tcp_reachable addr w" and "calls w i \<noteq> None"
  shows "\<exists>v r. tcp_moves\<^sup>*\<^sup>* w v \<and> pc_of v i = Returned r"
  using ends_all[of addr i] assms unfolding ends_from_def can_return_def by blast

theorem send_never_stuck_witness:
  "\<exists>w v r. pc_of w 1 = Await 0 \<and> \<not> cReady (tHeap (tr w) 0) \<and> tcp_moves\<^sup>*\<^sup>* w v \<and> pc_of v 1 = Returned r"
proof -
  obtain w where w: "dialled ''a'' ''b'' w" using dial_run by blast
  note r = dialled_reachable[OF w]
  have "\<not> cReady (tHeap (tr w) 0)"
    using tcp_okD(2)[of w 0] tcp_reachable_inv[OF r] w by (simp add: conn_ok_def dialled_def)
  moreover have c: "calls w 1 = Some \<lparr>callPeer = ''b'', callMsg = hello_msg, callPc = Await 0\<rparr>"
    using w by (simp add: dialled_def)
  moreover have "\<exists>v r. tcp_moves\<^sup>*\<^sup>* w v \<and> pc_of v 1 = Returned r"
    by (rule send_never_stuck[OF r]) (use c in simp)
  moreover have "pc_of w 1 = Await 0" using c by (simp add: pc_of_def)
  ultimately show ?thesis by blast
qed

text \<open>C11: A \<open>Send\<close> that returns no error has put the whole frame of its message on an open connection, after the handshake, and that connection is known under the peer the call named.\<close>

theorem send_success:
  assumes "tcp_reachable addr w" and "calls w i = Some k" and "pc_of w i \<noteq> Returned None"
    and "tcp_step (SendStep i io) w = Some v" and "pc_of v i = Returned None"
  shows "\<exists>c fs. cOpen (tHeap (tr w) c) \<and> map_of (cKeys (tHeap (tr w) c)) (callPeer k) \<noteq> None
     \<and> cOut (tHeap (tr w) c) = encodeHandshake (Addr (tr w)) # fs
     \<and> cOut (tHeap (tr v) c) = encodeHandshake (Addr (tr w)) # fs @ [EncodeMessageFrame (callMsg k)]"
proof -
  obtain t r where step: "send_step (callPeer k) (callMsg k) io (tr w) (callPc k) = Some (t, Returned None, r)"
    and t: "tr v = t" using assms(2,4,5) by (auto simp: pc_of_def split: option.splits)
  from step obtain c where c: "callPc k = Put c" "cOpen (tHeap (tr w) c)"
    "t = on_conn c (\<lambda>k'. k'\<lparr>cOut := cOut k' @ [EncodeMessageFrame (callMsg k)]\<rparr>) (tr w)" by (rule send_returns)
  have "outs_ok w" using reachable_streams[OF assms(1)] by blast
  then have "out_call_ok w i" by (simp add: outs_ok_def)
  then obtain fs where "cOut (tHeap (tr w) c) = encodeHandshake (Addr (tr w)) # fs"
    using c(1) assms(2) by (auto simp: out_call_ok_def pc_of_def greeted_def)
  moreover have "map_of (cKeys (tHeap (tr w) c)) (callPeer k) \<noteq> None"
    using reachable_call_key[OF assms(1), of i] assms(2) c(1) by (simp add: call_key_def)
  ultimately show ?thesis using c(2,3) t by (intro exI[of _ c] exI[of _ fs]) simp
qed

text \<open>The handshake has come, the message after it has been handed on, and call 1 is about to write.\<close>

definition written :: "string \<Rightarrow> string \<Rightarrow> tcp_world \<Rightarrow> bool" where
  "written x y v \<longleftrightarrow> tcp_reachable x v \<and> pc_of v 1 = Returned None \<and> Addr (tr v) = x
     \<and> cOut (tHeap (tr v) 0) = [encodeHandshake x, EncodeMessageFrame hello_msg]
     \<and> from_conn v 0 = [(y, hello_msg)] \<and> tNext (tr v) = 1 \<and> cStream (tHeap (tr v) 0) = peer_stream y
     \<and> tConns (tr v) = [(y, 0)] \<and> cOpen (tHeap (tr v) 0) \<and> \<not> tClosed (tr v) \<and> closer v = NotClosing"

lemma dial_ready:
  assumes "y \<noteq> []" and "length y \<le> 1024"
  shows "\<exists>w v. tcp_reachable x w \<and> calls w 1 = Some \<lparr>callPeer = y, callMsg = hello_msg, callPc = Put 0\<rparr>
    \<and> Addr (tr w) = x \<and> tcp_step (SendStep 1 Fine) w = Some v \<and> written x y v"
proof -
  obtain w where w: "dialled x y w" using dial_run by blast
  obtain r1 r2 where rd: "decodeHandshake (peer_stream y) = Inr (y, r1)" "DecodeMessageFrame r1 = Inr (hello_msg, r2)"
    by (rule peer_reads[OF assms])
  let ?evs = "[ReadStep 0 Fine, ReadStep 0 Fine, ReadStep 0 Fine, ReadStep 0 Fine, ReadStep 0 Fine, SendStep 1 Fine]"
  obtain u where u: "tcp_run ?evs w = Some u"
    "calls u 1 = Some \<lparr>callPeer = y, callMsg = hello_msg, callPc = Put 0\<rparr>"
    "cOpen (tHeap (tr u) 0)" "cOut (tHeap (tr u) 0) = [encodeHandshake x]" "Addr (tr u) = x"
    "from_conn u 0 = [(y, hello_msg)]" "tNext (tr u) = 1" "cStream (tHeap (tr u) 0) = peer_stream y"
    "tConns (tr u) = [(y, 0)]" "\<not> tClosed (tr u)" "closer u = NotClosing"
    using w[unfolded dialled_def] rd assms(1)
    by (simp add: conn_read_def registerConnKey_def on_conn_def setPeer_def addKey_def markReady_def waitReady_def
        from_conn_def Addr_def)
  have ru: "tcp_reachable x u" using dialled_reachable[OF w] u(1) by (rule tcp_run_reachable)
  obtain v where v: "tcp_step (SendStep 1 Fine) u = Some v" "pc_of v 1 = Returned None"
    "cOut (tHeap (tr v) 0) = [encodeHandshake x, EncodeMessageFrame hello_msg]"
    "Addr (tr v) = x" "from_conn v 0 = [(y, hello_msg)]" "tNext (tr v) = 1"
    "cStream (tHeap (tr v) 0) = peer_stream y" "tConns (tr v) = [(y, 0)]" "cOpen (tHeap (tr v) 0)" "\<not> tClosed (tr v)"
    "closer v = NotClosing"
    using u(2-) by (simp add: conn_write_def pc_of_def from_conn_def)
  have "tcp_reachable x v" using ru v(1) by (blast intro: tcp_reachable.move tcp_moves.intros)
  then have "written x y v" using v by (simp add: written_def)
  then show ?thesis using ru u(2,5) v(1) by blast
qed

theorem send_success_witness:
  "\<exists>w v c fs. tcp_step (SendStep 1 Fine) w = Some v
     \<and> cOut (tHeap (tr v) c) = encodeHandshake ''a'' # fs @ [EncodeMessageFrame hello_msg]"
proof -
  obtain w v where w: "tcp_reachable ''a'' w"
    "calls w 1 = Some \<lparr>callPeer = ''b'', callMsg = hello_msg, callPc = Put 0\<rparr>" "Addr (tr w) = ''a''"
    "tcp_step (SendStep 1 Fine) w = Some v" "written ''a'' ''b'' v" using dial_ready[of "''b''" "''a''"] by auto
  have "pc_of w 1 \<noteq> Returned None" "pc_of v 1 = Returned None" using w(2,5) by (simp_all add: pc_of_def written_def)
  from send_success[OF w(1,2) this(1) w(4) this(2)] obtain c fs where
    "cOut (tHeap (tr v) c) = encodeHandshake ''a'' # fs @ [EncodeMessageFrame hello_msg]" using w(3) by auto
  then show ?thesis using w(4) by blast
qed

section \<open>The connection table\<close>

text \<open>C12: Every entry of the connection table is a connection that knows the key it is filed under, that is ready or about to be made ready or failed by a goroutine or caller in charge, and whose goroutine has not dropped it; so a drop removes it from the table for good.\<close>

theorem table_sound:
  assumes "tcp_reachable addr w" and "map_of (tConns (tr w)) key = Some c"
  shows "c < tNext (tr w) \<and> key \<in> set (keysSnapshot (tHeap (tr w) c)) \<and> \<not> gone (readers w c)
     \<and> (cReady (tHeap (tr w) c) \<or> early (readers w c)
        \<or> (\<exists>i e. pc_of w i = Hello c \<or> pc_of w i = HelloFailed c e))"
proof -
  have "tcp_ok w" using tcp_reachable_inv[OF assms(1)] by blast
  from tcp_okD(5)[OF this, of key] have k: "c < tNext (tr w)" "map_of (cKeys (tHeap (tr w) c)) key \<noteq> None"
    "\<not> gone (readers w c)" using assms(2) by (auto simp: key_ok_def)
  have "attended w c" using wanted_attended[OF assms(1)] assms(2) by (auto simp: wanted_def)
  then show ?thesis using k by (auto simp: attended_def in_charge_def greets_Some keysSnapshot_def map_of_eq_None_iff)
qed

theorem table_sound_witness:
  "\<exists>w :: tcp_world. map_of (tConns (tr w)) ''b'' = Some 0 \<and> ''b'' \<in> set (keysSnapshot (tHeap (tr w) 0)) \<and> \<not> gone (readers w 0)"
proof -
  obtain w where w: "dialled ''a'' ''b'' w" using dial_run by blast
  then have "map_of (tConns (tr w)) ''b'' = Some 0" by (simp add: dialled_def)
  with table_sound[OF dialled_reachable[OF w] this] show ?thesis by blast
qed

section \<open>What travels\<close>

text \<open>On every connection the first thing written is the handshake with the transport's own address, whatever calls compete for the connection. Every later write is a frame or, where the network failed, a beginning of one, and nothing follows a handshake that was cut off.\<close>

theorem handshake_before_frames:
  assumes "tcp_reachable addr w" and "c < tNext (tr w)"
  shows "cOut (tHeap (tr w) c) = [] \<or> (\<exists>n. cOut (tHeap (tr w) c) = [take n (encodeHandshake (Addr (tr w)))])
     \<or> (\<exists>fs. cOut (tHeap (tr w) c) = encodeHandshake (Addr (tr w)) # fs
          \<and> (\<forall>f \<in> set fs. \<exists>n m. f = take n (EncodeMessageFrame m)))"
  using reachable_streams[OF assms(1)] assms(2)
  by (auto simp: outs_ok_def out_ok_def out_shape_def greeted_def frame_pieces_def)

theorem handshake_before_frames_witness:
  "\<exists>(w :: tcp_world) fs. cOut (tHeap (tr w) 0) = encodeHandshake ''a'' # fs \<and> fs \<noteq> []
     \<and> (\<forall>f \<in> set fs. \<exists>n m. f = take n (EncodeMessageFrame m))"
proof -
  obtain w where w: "written ''a'' ''b'' w" using dial_ready[of "''b''" "''a''"] by auto
  then have "tcp_reachable ''a'' w" "0 < tNext (tr w)" by (simp_all add: written_def)
  from handshake_before_frames[OF this] show ?thesis
    using w[unfolded written_def] by (intro exI[of _ w] exI[of _ "[EncodeMessageFrame hello_msg]"]) (auto simp: encodeHandshake_def)
qed

text \<open>Two readings of the same stream agree: the shorter one is a prefix of the longer.\<close>

lemma frames_unique:
  assumes "\<forall>m \<in> set ms. frame_ok m" and "\<forall>m \<in> set ns. frame_ok m"
    and "concat (map EncodeMessageFrame ms) @ rest = concat (map EncodeMessageFrame ns)"
  shows "\<exists>n. ms = take n ns"
  using assms
proof (induction ms arbitrary: ns)
  case (Cons m ms)
  have s: "EncodeMessageFrame m @ concat (map EncodeMessageFrame ms) @ rest = concat (map EncodeMessageFrame ns)"
    using Cons.prems(3) by simp
  then obtain n ns' where ns: "ns = n # ns'" using length_frame[of m] by (cases ns) auto
  let ?r = "[concat (map EncodeMessageFrame ns)]"
  obtain r1 where r1: "DecodeMessageFrame ?r = Inr (m, r1)"
      "concat r1 = concat (map EncodeMessageFrame ms) @ rest"
    using frame_decodes[of m ?r] Cons.prems(1) s by (metis append_Nil2 concat.simps list.set_intros(1))
  obtain r2 where r2: "DecodeMessageFrame ?r = Inr (n, r2)" "concat r2 = concat (map EncodeMessageFrame ns')"
    using frame_decodes[of n ?r "concat (map EncodeMessageFrame ns')"] Cons.prems(2) ns by auto
  have mn: "m = n" and "concat (map EncodeMessageFrame ms) @ rest = concat (map EncodeMessageFrame ns')"
    using r1 r2 by simp_all
  then obtain l where "ms = take l ns'" using Cons.IH[of ns'] Cons.prems(1,2) ns by auto
  then show ?case using ns mn by (intro exI[of _ "Suc l"]) simp
qed (metis take_0)

text \<open>C9: Two transports on the ends of one connection: if the bytes the receiver's end gets are the handshake and the whole frames that the sender's end has written, then what the receiver's handler got from the connection is a beginning of the sender's messages, in order, without a gap and under the sender's address.\<close>

theorem tcp_channel:
  assumes "tcp_reachable addr w" and "tcp_reachable addr' v" and "d < tNext (tr v)"
    and "cOut (tHeap (tr w) c) = encodeHandshake (Addr (tr w)) # map EncodeMessageFrame ms"
    and "\<forall>m \<in> set ms. frame_ok m" and "Addr (tr w) \<noteq> []" and "length (Addr (tr w)) \<le> 1024"
    and "concat (cStream (tHeap (tr v) d)) = concat (cOut (tHeap (tr w) c))"
  shows "\<exists>n. from_conn v d = map (\<lambda>m. (Addr (tr w), m)) (take n ms)"
proof (cases "from_conn v d = []")
  case False
  let ?a = "Addr (tr w)" and ?S = "concat (cStream (tHeap (tr v) d))"
  have "ins_ok v" using reachable_streams[OF assms(2)] by blast
  then have "in_ok v d" using assms(3) by (simp add: ins_ok_def)
  then obtain p where p: "came v d p" using False by (auto simp: in_ok_def split: read_pc.splits)
  let ?ms = "map snd (from_conn v d)" and ?rest = "concat (cIn (tHeap (tr v) d))"
  have S: "concat [?S] = encodeHandshake p @ concat (map EncodeMessageFrame ?ms) @ ?rest"
    "concat [?S] = encodeHandshake ?a @ concat (map EncodeMessageFrame ms)"
    using p assms(4,8) by (simp_all add: came_def)
  have ok: "p \<noteq> []" "length p \<le> maxHandshakeAddrLen" "length ?a \<le> maxHandshakeAddrLen"
    using p assms(7) by (simp_all add: came_def maxHandshakeAddrLen_def)
  from handshake_decodes[OF ok(1,2) S(1)] handshake_decodes[OF assms(6) ok(3) S(2)]
  have pa: "p = ?a" and rest: "concat (map EncodeMessageFrame ?ms) @ ?rest = concat (map EncodeMessageFrame ms)"
    by auto
  have "\<forall>m \<in> set ?ms. frame_ok m" using p by (auto simp: came_def)
  from frames_unique[OF this assms(5) rest] obtain n where n: "?ms = take n ms" by blast
  have "\<forall>x \<in> set (from_conn v d). x = (?a, snd x)" using p pa by (auto simp: came_def)
  then have "from_conn v d = map (\<lambda>m. (?a, m)) ?ms" by (simp add: map_idI comp_def)
  then show ?thesis using n by (intro exI[of _ n]) simp
qed (auto intro: exI[of _ 0])

theorem tcp_channel_witness:
  "\<exists>(w :: tcp_world) (v :: tcp_world). Addr (tr w) = ''b'' \<and> Addr (tr v) = ''a''
     \<and> from_conn v 0 = [(''b'', hello_msg)]
     \<and> (\<exists>n. from_conn v 0 = map (\<lambda>m. (''b'', m)) (take n [hello_msg]))"
proof -
  obtain w where w: "written ''b'' ''a'' w" using dial_ready[of "''a''" "''b''"] by auto
  obtain v where v: "written ''a'' ''b'' v" using dial_ready[of "''b''" "''a''"] by auto
  have r: "tcp_reachable ''b'' w" "tcp_reachable ''a'' v" "0 < tNext (tr v)" using w v by (simp_all add: written_def)
  have "cOut (tHeap (tr w) 0) = encodeHandshake (Addr (tr w)) # map EncodeMessageFrame [hello_msg]"
    "\<forall>m \<in> set [hello_msg]. frame_ok m" "Addr (tr w) \<noteq> []" "length (Addr (tr w)) \<le> 1024"
    "concat (cStream (tHeap (tr v) 0)) = concat (cOut (tHeap (tr w) 0))"
    using w v hello_msg_ok by (simp_all add: written_def peer_stream_def)
  from tcp_channel[OF r this] have "\<exists>n. from_conn v 0 = map (\<lambda>m. (Addr (tr w), m)) (take n [hello_msg])" .
  then show ?thesis using w v by (intro exI[of _ w] exI[of _ v]) (simp add: written_def)
qed

section \<open>Close\<close>

text \<open>C10: When \<open>Close\<close> returns, the accept loop and every goroutine of a connection have ended at that moment, and every connection that was in the table when \<open>Close\<close> began has been closed.\<close>

theorem close_completes:
  assumes "tcp_reachable addr w" and "\<not> tClosed (tr w)" and "tcp_step DoClose w = Some w1"
    and "tcp_moves\<^sup>*\<^sup>* w1 u" and "closer u = Waiting err"
    and "tcp_step ev u = Some v" and "closer v = CloseReturned e"
  shows "\<not> accepting v \<and> (\<forall>c. readers v c = NoReader \<or> readers v c = Exited)
     \<and> (map_of (tConns (tr w)) key = Some c \<longrightarrow> \<not> cOpen (tHeap (tr v) c))"
proof -
  have "tcp_moves w w1" using assms(3) by (rule tcp_moves.intros)
  then have r: "tcp_reachable addr u"
    using moves_reachable[OF assms(4)] assms(1) by (blast intro: tcp_reachable.move)
  note waits = close_waits[OF r assms(6,5,7)]
  have "closing (ran (map_of (tConns (tr w)))) u"
    by (rule moves_closing[OF assms(4) close_begins[OF assms(1-3)]])
  then have "map_of (tConns (tr w)) key = Some c \<Longrightarrow> \<not> cOpen (tHeap (tr u) c)"
    using assms(5) by (auto simp: closing_def intro: ranI)
  then show ?thesis using waits by (auto simp: running_def)
qed

text \<open>A close of the transport of the first run: the reader notices, and \<open>Close\<close> returns.\<close>

theorem close_completes_witness:
  "\<exists>(w :: tcp_world) (v :: tcp_world). map_of (tConns (tr w)) ''b'' = Some 0 \<and> closer v = CloseReturned None
     \<and> \<not> accepting v \<and> \<not> cOpen (tHeap (tr v) 0)"
proof -
  obtain w where w: "dialled ''a'' ''b'' w" using dial_run by blast
  have run: "tcp_run (dial_events ''a'' ''b'') (tcp_init ''a'') = Some w" using w by (simp add: dialled_def)
  let ?evs = "[CloseStep Fine, CloseStep Fine, CloseStep Fine, AcceptStep Fine, ReadStep 0 Fine, ReadStep 0 Fine,
    ReadStep 0 Fine, ReadStep 0 Fine, ReadStep 0 Fine]"
  have "\<exists>w1 u v. tcp_step DoClose w = Some w1 \<and> tcp_run ?evs w1 = Some u \<and> closer u = Waiting None
      \<and> tcp_step (CloseStep Fine) u = Some v \<and> closer v = CloseReturned None"
    using run
    by (simp add: dial_events_def tcp_init_def NewTCPTransport_def Start_def getOrDial_def startOutbound_def
        conn_write_def Addr_def addKey_def newConn_def on_conn_def CloseBegin_def keep_error_def closeConn_def
        accept_step_def conn_read_def unlinkConn_def keysSnapshot_def failReady_def markReady_def)
      (clarsimp simp: CloseBegin_def keep_error_def closeConn_def
        accept_step_def conn_read_def unlinkConn_def keysSnapshot_def failReady_def markReady_def on_conn_def)
  then obtain w1 u v where "tcp_step DoClose w = Some w1" "tcp_run ?evs w1 = Some u" "closer u = Waiting None"
      "tcp_step (CloseStep Fine) u = Some v" and c: "closer v = CloseReturned None" by blast
  note s = this
  have "\<not> tClosed (tr w)" and t: "map_of (tConns (tr w)) ''b'' = Some 0" using w by (simp_all add: dialled_def)
  from close_completes[OF dialled_reachable[OF w] this(1) s(1) tcp_run_moves[OF s(2)] s(3,4) c, of "''b''" 0]
  show ?thesis using t c by blast
qed

text \<open>
  Two runs with a \<open>Close\<close>: one with an inbound connection whose handshake is not complete when
  \<open>Close\<close> collects the connections, one with a \<open>Send\<close> that is dialling at that time.
\<close>

definition late_inbound :: "tcp_event list" where
  "late_inbound = [DoStart True (Inr ''a''), AcceptStep (Stream (peer_stream ''b'')), ReadStep 0 Fine,
     DoClose, CloseStep Fine, CloseStep Fine]"

definition late_outbound :: "tcp_event list" where
  "late_outbound = [DoStart True (Inr ''a''), DoSend 0 ''b'' hello_msg, SendStep 0 Fine,
     SendStep 0 (Stream (peer_stream ''b'')), DoClose, CloseStep Fine, CloseStep Fine, AcceptStep Fine,
     CloseStep Fine, SendStep 0 Fine, SendStep 0 Fine]"

lemmas tcp_run_simps = tcp_init_def NewTCPTransport_def Start_def getOrDial_def startOutbound_def startInbound_def
  conn_write_def Addr_def addKey_def newConn_def on_conn_def CloseBegin_def keep_error_def accept_step_def
  conn_read_def setPeer_def registerConnKey_def markReady_def

lemma late_inbound_run:
  "\<exists>w v. tcp_run late_inbound (tcp_init ''a'') = Some w \<and> closer w = Waiting None \<and> delivered w = []
     \<and> tcp_run [ReadStep 0 Fine, ReadStep 0 Fine, ReadStep 0 Fine, ReadStep 0 Fine, ReadStep 0 Fine] w = Some v
     \<and> closer v = Waiting None \<and> delivered v = [(0, ''b'', hello_msg)] \<and> readers v 0 = Serve ''b''
     \<and> cOpen (tHeap (tr v) 0) \<and> tConns (tr v) = []"
proof -
  obtain r1 r2 where rd: "decodeHandshake (peer_stream ''b'') = Inr (''b'', r1)"
    "DecodeMessageFrame r1 = Inr (hello_msg, r2)" using peer_reads[of "''b''"] by auto
  obtain w where w: "tcp_run late_inbound (tcp_init ''a'') = Some w" "closer w = Waiting None" "delivered w = []"
    "readers w 0 = Shake" "cIn (tHeap (tr w) 0) = peer_stream ''b''" "cOpen (tHeap (tr w) 0)" "tHandler (tr w)"
    "tClosed (tr w)" "tConns (tr w) = []"
    by (simp add: late_inbound_def tcp_run_simps)
  then show ?thesis using rd by (simp add: tcp_run_simps)
qed

lemma late_outbound_run:
  "\<exists>w. tcp_run late_outbound (tcp_init ''a'') = Some w \<and> closer w = CloseReturned None
     \<and> tConns (tr w) = [(''b'', 0)] \<and> cOpen (tHeap (tr w) 0) \<and> readers w 0 = Shake"
  by (simp add: late_outbound_def tcp_run_simps)

text \<open>C37: \<open>Close\<close> misses connections. An inbound connection whose handshake is under way is not in the table: \<open>Close\<close> waits for its goroutine without closing it, and the goroutine goes on to complete the handshake and to hand messages to the handler. An outbound one that is being dialled enters the table, open and with a goroutine of its own, after \<open>Close\<close> has returned.\<close>

theorem close_leaks:
  "(\<exists>w v. tcp_reachable ''a'' w \<and> closer w = Waiting None \<and> delivered w = [] \<and> tcp_moves\<^sup>*\<^sup>* w v
      \<and> closer v = Waiting None \<and> delivered v = [(0, ''b'', hello_msg)] \<and> readers v 0 = Serve ''b''
      \<and> cOpen (tHeap (tr v) 0) \<and> tConns (tr v) = [])
   \<and> (\<exists>w. tcp_reachable ''a'' w \<and> closer w = CloseReturned None \<and> tConns (tr w) = [(''b'', 0)]
      \<and> cOpen (tHeap (tr w) 0) \<and> readers w 0 = Shake)"
  using late_inbound_run late_outbound_run run_from_init tcp_run_moves by metis

end
