(* ===== verification/Cli_Text.thy ===== *)
theory Cli_Text
  imports Float64
begin

text \<open>
  The text the command line reads and prints: hexadecimal, white space, the names of control
  sockets (\<open>internal/cli/runtime.go\<close>, \<open>shortHash\<close> of \<open>demo.go\<close>), over what these functions use of
  Go's standard library (\<open>encoding/hex\<close>, \<open>strings\<close>, \<open>unicode/utf8\<close>, \<open>path/filepath\<close>, the verbs
  \<open>%d\<close> and \<open>%.nf\<close> of \<open>fmt\<close>). A string is its bytes.
\<close>

section \<open>Hexadecimal (encoding/hex)\<close>

definition hex_digit :: "nat \<Rightarrow> char" where
  "hex_digit n = ''0123456789abcdef'' ! n"

definition hex_value :: "char \<Rightarrow> nat option" where
  "hex_value c =
     (let n = of_char c :: nat
      in if 48 \<le> n \<and> n \<le> 57 then Some (n - 48)
         else if 97 \<le> n \<and> n \<le> 102 then Some (n - 87)
         else if 65 \<le> n \<and> n \<le> 70 then Some (n - 55)
         else None)"

fun EncodeToString :: "bytes \<Rightarrow> string" where
  "EncodeToString [] = []"
| "EncodeToString (b # bs) =
     hex_digit (unat b div 16) # hex_digit (unat b mod 16) # EncodeToString bs"

text \<open>A bad digit is reported before an odd length.\<close>

fun DecodeString :: "string \<Rightarrow> error + bytes" where
  "DecodeString [] = Inr []"
| "DecodeString [p] =
     (case hex_value p of None \<Rightarrow> Inl (HexInvalidByte (of_char p)) | Some _ \<Rightarrow> Inl HexOddLength)"
| "DecodeString (p # q # s) =
     (case hex_value p of
        None \<Rightarrow> Inl (HexInvalidByte (of_char p))
      | Some a \<Rightarrow>
          (case hex_value q of
             None \<Rightarrow> Inl (HexInvalidByte (of_char q))
           | Some b \<Rightarrow> bindE (DecodeString s) (\<lambda>r. Inr (of_nat (16 * a + b) # r))))"

section \<open>White space (strings, unicode)\<close>

text \<open>The encodings of the runes for which \<open>unicode.IsSpace\<close> holds.\<close>

definition white_runes :: "string list" where
  "white_runes =
     [[CHR 0x09], [CHR 0x0A], [CHR 0x0B], [CHR 0x0C], [CHR 0x0D], [CHR 0x20],
      [CHR 0xC2, CHR 0x85], [CHR 0xC2, CHR 0xA0], [CHR 0xE1, CHR 0x9A, CHR 0x80],
      [CHR 0xE2, CHR 0x80, CHR 0x80], [CHR 0xE2, CHR 0x80, CHR 0x81], [CHR 0xE2, CHR 0x80, CHR 0x82],
      [CHR 0xE2, CHR 0x80, CHR 0x83], [CHR 0xE2, CHR 0x80, CHR 0x84], [CHR 0xE2, CHR 0x80, CHR 0x85],
      [CHR 0xE2, CHR 0x80, CHR 0x86], [CHR 0xE2, CHR 0x80, CHR 0x87], [CHR 0xE2, CHR 0x80, CHR 0x88],
      [CHR 0xE2, CHR 0x80, CHR 0x89], [CHR 0xE2, CHR 0x80, CHR 0x8A], [CHR 0xE2, CHR 0x80, CHR 0xA8],
      [CHR 0xE2, CHR 0x80, CHR 0xA9], [CHR 0xE2, CHR 0x80, CHR 0xAF], [CHR 0xE2, CHR 0x81, CHR 0x9F],
      [CHR 0xE3, CHR 0x80, CHR 0x80]]"

definition white_at :: "string list \<Rightarrow> string \<Rightarrow> string option" where
  "white_at ws s = find (\<lambda>p. p \<noteq> [] \<and> take (length p) s = p) ws"

lemma white_at_shorter:
  assumes "white_at ws s = Some p"
  shows "length s - length p < length s"
proof -
  have "p \<noteq> []" "take (length p) s = p"
    using assms by (auto simp: white_at_def find_Some_iff)
  then have "s \<noteq> []" by auto
  then show ?thesis using \<open>p \<noteq> []\<close> by simp
qed

function trim_left :: "string list \<Rightarrow> string \<Rightarrow> string" where
  "trim_left ws s = (case white_at ws s of None \<Rightarrow> s | Some p \<Rightarrow> trim_left ws (drop (length p) s))"
  by pat_completeness auto
termination by (relation "measure (\<lambda>(ws, s). length s)") (auto dest: white_at_shorter)

declare trim_left.simps [simp del]

definition TrimSpace :: "string \<Rightarrow> string" where
  "TrimSpace s = rev (trim_left (map rev white_runes) (rev (trim_left white_runes s)))"

definition flush :: "string \<Rightarrow> string list" where
  "flush cur = (if cur = [] then [] else [rev cur])"

function fields_loop :: "string \<Rightarrow> string \<Rightarrow> string list" where
  "fields_loop cur [] = flush cur"
| "fields_loop cur (c # s) =
     (case white_at white_runes (c # s) of
        None \<Rightarrow> fields_loop (c # cur) s
      | Some p \<Rightarrow> flush cur @ fields_loop [] (drop (length p) (c # s)))"
  by pat_completeness auto
termination by (relation "measure (\<lambda>(cur, s). length s)") (auto dest: white_at_shorter)

definition Fields :: "string \<Rightarrow> string list" where
  "Fields s = fields_loop [] s"

section \<open>Runes (unicode/utf8)\<close>

text \<open>The number of bytes of the first rune; a byte that starts no valid rune is one of its own.\<close>

definition byte_in :: "nat \<Rightarrow> nat \<Rightarrow> string \<Rightarrow> nat \<Rightarrow> bool" where
  "byte_in lo hi s i = (i < length s \<and> lo \<le> of_char (s ! i) \<and> of_char (s ! i) \<le> hi)"

definition rune_width :: "string \<Rightarrow> nat" where
  "rune_width s =
     (let cont = byte_in 0x80 0xBF s
      in if byte_in 0xC2 0xDF s 0 \<and> cont 1 then 2
         else if (byte_in 0xE0 0xE0 s 0 \<and> byte_in 0xA0 0xBF s 1
                  \<or> byte_in 0xED 0xED s 0 \<and> byte_in 0x80 0x9F s 1
                  \<or> (byte_in 0xE1 0xEC s 0 \<or> byte_in 0xEE 0xEF s 0) \<and> cont 1) \<and> cont 2 then 3
         else if (byte_in 0xF0 0xF0 s 0 \<and> byte_in 0x90 0xBF s 1
                  \<or> byte_in 0xF4 0xF4 s 0 \<and> byte_in 0x80 0x8F s 1
                  \<or> byte_in 0xF1 0xF3 s 0 \<and> cont 1) \<and> cont 2 \<and> cont 3 then 4
         else 1)"

lemma rune_width_pos [simp]: "0 < rune_width s"
  by (simp add: rune_width_def Let_def)

section \<open>Paths (path/filepath)\<close>

fun split_path :: "string \<Rightarrow> string \<Rightarrow> string list" where
  "split_path cur [] = [rev cur]"
| "split_path cur (c # s) = (if c = CHR ''/'' then rev cur # split_path [] s else split_path (c # cur) s)"

fun join_path :: "string list \<Rightarrow> string" where
  "join_path [] = []"
| "join_path [p] = p"
| "join_path (p # ps) = p @ ''/'' @ join_path ps"

fun clean_parts :: "bool \<Rightarrow> string list \<Rightarrow> string list \<Rightarrow> string list" where
  "clean_parts rooted acc [] = rev acc"
| "clean_parts rooted acc (p # ps) =
     (if p = [] \<or> p = ''.'' then clean_parts rooted acc ps
      else if p = ''..'' then
        (case acc of
           [] \<Rightarrow> clean_parts rooted (if rooted then [] else [p]) ps
         | q # qs \<Rightarrow> clean_parts rooted (if q = ''..'' then p # acc else qs) ps)
      else clean_parts rooted (p # acc) ps)"

definition Clean :: "string \<Rightarrow> string" where
  "Clean path =
     (let rooted = (take 1 path = ''/'');
          parts = clean_parts rooted [] (split_path [] path)
      in if rooted then ''/'' @ join_path parts
         else if parts = [] then ''.'' else join_path parts)"

definition Join :: "string \<Rightarrow> string \<Rightarrow> string" where
  "Join dir name =
     (if dir \<noteq> [] then Clean (dir @ ''/'' @ name) else if name \<noteq> [] then Clean name else [])"

section \<open>Numbers (fmt)\<close>

fun dec :: "nat \<Rightarrow> string" where
  "dec n = (if n < 10 then [] else dec (n div 10)) @ [char_of (48 + n mod 10)]"

declare dec.simps [simp del]

definition dec_int :: "int \<Rightarrow> string" where
  "dec_int i = (if i < 0 then ''-'' else []) @ dec (nat \<bar>i\<bar>)"

text \<open>\<open>%.pf\<close>: the exact decimal value, rounded half to even.\<close>

definition dec_float :: "nat \<Rightarrow> f64 \<Rightarrow> string" where
  "dec_float p x =
     (case x of
        NaN \<Rightarrow> ''NaN'' | PInf \<Rightarrow> ''+Inf'' | NInf \<Rightarrow> ''-Inf''
      | Fin r \<Rightarrow>
          let (a, b) = quotient_of \<bar>r\<bar>;
              n = nat (div_half_even (a * 10 ^ p) b);
              frac = dec (n mod 10 ^ p)
          in (if r < 0 then ''-'' else []) @ dec (n div 10 ^ p) @ ''.''
             @ replicate (p - length frac) (CHR ''0'') @ frac)"

definition show_bool :: "bool \<Rightarrow> string" where
  "show_bool b = (if b then ''true'' else ''false'')"

section \<open>Identifiers and control sockets (runtime.go, demo.go)\<close>

definition encodeHash :: "hash \<Rightarrow> string" where
  "encodeHash h = EncodeToString h"

definition shortHash :: "hash \<Rightarrow> string" where
  "shortHash h = EncodeToString (take 6 h)"

definition decodeHash :: "string \<Rightarrow> error + hash" where
  "decodeHash v =
     bindE (DecodeString (TrimSpace v)) (\<lambda>decoded.
       if length decoded \<noteq> 32 then Inl (InvalidHashLength (length decoded)) else Inr decoded)"

definition decodeRecipient :: "string \<Rightarrow> error + bytes" where
  "decodeRecipient v =
     bindE (DecodeString (TrimSpace v)) (\<lambda>decoded.
       if length decoded \<noteq> 32 then Inl (InvalidRecipientLength (length decoded)) else Inr decoded)"

definition sortStrings :: "string list \<Rightarrow> string list" where
  "sortStrings vs = sort vs"

definition plain_char :: "char \<Rightarrow> bool" where
  "plain_char c =
     (let n = of_char c :: nat
      in 97 \<le> n \<and> n \<le> 122 \<or> 65 \<le> n \<and> n \<le> 90 \<or> 48 \<le> n \<and> n \<le> 57
         \<or> c = CHR ''-'' \<or> c = CHR ''_'' \<or> c = CHR ''.'')"

function sanitize_runes :: "string \<Rightarrow> string" where
  "sanitize_runes [] = []"
| "sanitize_runes (c # s) =
     (if plain_char c then c else CHR ''-'') # sanitize_runes (drop (rune_width (c # s)) (c # s))"
  by pat_completeness auto
termination
  by (relation "measure length") (use rune_width_pos in \<open>auto simp del: rune_width_pos intro: diff_less\<close>)

definition sanitizeControlSocketID :: "string \<Rightarrow> string" where
  "sanitizeControlSocketID i = (if i = [] then ''cli'' else sanitize_runes i)"

text \<open>\<open>os.Getenv(controlSocketEnv)\<close> and \<open>os.TempDir()\<close> are the arguments \<open>env\<close> and \<open>tmp\<close>.\<close>

definition defaultControlSocketPath :: "string \<Rightarrow> string" where
  "defaultControlSocketPath tmp = Join tmp ''web4-cli.sock''"

definition derivedControlSocketPath :: "string \<Rightarrow> string \<Rightarrow> string" where
  "derivedControlSocketPath tmp i = Join tmp (''web4-'' @ sanitizeControlSocketID i @ ''.sock'')"

definition controlSocketPath :: "string \<Rightarrow> string \<Rightarrow> string" where
  "controlSocketPath envPath tmp = (if envPath \<noteq> [] then envPath else defaultControlSocketPath tmp)"

definition startControlSocketPath :: "string \<Rightarrow> string \<Rightarrow> string \<Rightarrow> string \<Rightarrow> string" where
  "startControlSocketPath envPath tmp explicit i =
     (if explicit \<noteq> [] then explicit
      else if envPath \<noteq> [] then envPath
      else derivedControlSocketPath tmp i)"

definition clientControlSocketPath :: "string \<Rightarrow> string \<Rightarrow> string \<Rightarrow> string" where
  "clientControlSocketPath envPath tmp explicit =
     (if explicit \<noteq> [] then explicit else controlSocketPath envPath tmp)"

end
