(* ===== verification/Cli_Runtime.thy ===== *)
theory Cli_Runtime
  imports Cli_Text Node_Inspect Transport_Tcp
begin

text \<open>
  The runtime behind \<open>web4 node start\<close> (\<open>internal/cli/runtime.go\<close>): a node on a TCP transport, a value
  it seeds for its own developer key, and the service that answers the requests of the command line
  over a control socket.

  A \<open>machine\<close> is what the commands of one machine share: the nodes of its runtimes (a \<open>world\<close>), the
  runtimes and the files at the paths of control sockets. Every operation of a runtime holds its
  mutex \<open>mu\<close> from beginning to end, so that operations do not overlap.
\<close>

section \<open>Data\<close>

record runtime_config =
  cfgID :: string
  cfgListen :: string
  cfgPeers :: "string list"
  cfgControlPath :: string

text \<open>\<open>rtNode\<close> is the address of the node; \<open>rtControl\<close> says that the control socket listens.\<close>

record managed_runtime =
  rtConfig :: runtime_config
  rtNode :: nat
  rtTransport :: tcp
  rtControl :: bool
  rtClosed :: bool
  devKeys :: "(hash, bytes) go_map"
  seededValue :: web4_value
  seededOwner :: string
  rtControlPath :: string
  rtListenAddr :: string

record status_reply =
  sID :: string
  sListen :: string
  sPeerCount :: nat
  sTransferCount :: nat
  sConflictSetCount :: nat
  sSelectedLineageCount :: nat
  sControlPath :: string
  sSeededValueID :: string
  sSeededOwner :: string

record send_tx_request =
  InputID :: string
  reqAmount :: uint64
  reqUnit :: string
  reqTo :: string

record send_tx_reply =
  stTxID :: string
  stStatus :: string
  stConfidence :: f64

record value_info =
  viID :: string
  viAmount :: uint64
  viUnit :: string
  viOwner :: string
  viExpiry :: int64
  viDepth :: int64

record show_tx_reply =
  shTxID :: string
  shInputs :: "string list"
  shOutputs :: "value_info list"
  shStatus :: string
  shConfidence :: f64

record selected_info =
  siInputID :: string
  siTxID :: string

record finality_info =
  fiTxID :: string
  fiConfidence :: f64
  fiStatus :: string

record conflict_info =
  ciInputID :: string
  ciTxIDs :: "string list"

text \<open>
  What the runtime takes from outside: the parameters of the node, \<open>sha256.Sum256\<close> (the identifiers
  of transfers have another digest, \<open>Sum256\<close> of \<open>prims\<close>), \<open>ed25519.NewKeyFromSeed\<close>,
  \<open>os.TempDir()\<close> and the environment variable \<open>WEB4_CONTROL_SOCK\<close>.
\<close>

record host =
  hEnv :: env
  sha256Sum :: "bytes \<Rightarrow> bytes"
  keyFromSeed :: "bytes \<Rightarrow> bytes"
  tmpDir :: string
  sockEnv :: string

abbreviation hP :: "host \<Rightarrow> prims" where
  "hP H \<equiv> crypt (hEnv H)"

section \<open>The developer value\<close>

definition defaultDevAmount :: uint64 where
  "defaultDevAmount = 1000000"

definition defaultValueExpiry :: int64 where
  "defaultValueExpiry = 1800000000"

text \<open>\<open>copy\<close> fills what the key has into the 32 zero bytes of \<open>pub\<close>.\<close>

definition copy_public :: "bytes \<Rightarrow> bytes" where
  "copy_public priv = take 32 (drop 32 priv @ replicate 32 0)"

definition developerKeys :: "host \<Rightarrow> string \<Rightarrow> bytes \<times> bytes" where
  "developerKeys H i =
     (let seed = sha256Sum H (string_bytes (''web4-dev:'' @ i));
          priv = keyFromSeed H seed
      in (copy_public priv, priv))"

definition seedDeveloperValue :: "host \<Rightarrow> managed_runtime \<Rightarrow> world \<Rightarrow> managed_runtime \<times> world" where
  "seedDeveloperValue H rt w =
     (let (pub, priv) = developerKeys H (cfgID (rtConfig rt));
          v = \<lparr>vID = zero_hash, Amount = defaultDevAmount, Unit = ''WEB4'', Owner = pub,
               Expiry = defaultValueExpiry, Depth = 0\<rparr>;
          v = v\<lparr>vID := ComputeValueID (hP H) v\<rparr>;
          w = put w (rtNode rt) (SeedValue (hP H) (nodes w (rtNode rt)) v)
      in (rt\<lparr>devKeys := mput (vID v) priv (devKeys rt), seededValue := v,
             seededOwner := EncodeToString pub\<rparr>, w))"

section \<open>Requests\<close>

definition Status_reply :: "managed_runtime \<Rightarrow> world \<Rightarrow> status_reply" where
  "Status_reply rt w =
     (let n = nodes w (rtNode rt)
      in \<lparr>sID = cfgID (rtConfig rt), sListen = rtListenAddr rt, sPeerCount = PeerCount n,
          sTransferCount = TransferCount n, sConflictSetCount = ConflictSetCount n,
          sSelectedLineageCount = SelectedLineageCount n, sControlPath = rtControlPath rt,
          sSeededValueID = encodeHash (vID (seededValue rt)), sSeededOwner = seededOwner rt\<rparr>)"

text \<open>\<open>state, _ := FinalityForTransfer\<close>: the zero value of the struct when there is none.\<close>

definition finality_or_zero :: "node \<Rightarrow> hash \<Rightarrow> finality_state" where
  "finality_or_zero n txID =
     (case FinalityForTransfer n txID of
        Some s \<Rightarrow> s | None \<Rightarrow> \<lparr>fsScore = Fin 0, Confidence = Fin 0, Status = []\<rparr>)"

text \<open>The transfer \<open>sendTx\<close> builds and signs.\<close>

definition dev_transfer ::
  "prims \<Rightarrow> int64 \<Rightarrow> bytes \<Rightarrow> web4_value \<Rightarrow> send_tx_request \<Rightarrow> bytes \<Rightarrow> transfer" where
  "dev_transfer P now priv input req recipient =
     (let output = \<lparr>vID = zero_hash, Amount = reqAmount req, Unit = reqUnit req, Owner = recipient,
                    Expiry = Expiry input, Depth = Depth input + 1\<rparr>;
          output = output\<lparr>vID := ComputeValueID P output\<rparr>;
          tx = \<lparr>tID = zero_hash, Inputs = [vID input], Outputs = [output], Sig = [], Timestamp = now\<rparr>
      in tx\<lparr>Sig := SignCanonicalTransfer P priv tx\<rparr>)"

definition sendTx ::
  "host \<Rightarrow> nat \<Rightarrow> managed_runtime \<Rightarrow> world \<Rightarrow> send_tx_request \<Rightarrow> (world \<times> (error + send_tx_reply)) option" where
  "sendTx H fuel rt w req =
     (case decodeHash (InputID req) of
        Inl e \<Rightarrow> Some (w, Inl e)
      | Inr inputID \<Rightarrow>
     (case decodeRecipient (reqTo req) of
        Inl e \<Rightarrow> Some (w, Inl e)
      | Inr recipient \<Rightarrow>
     (case ValueAt (nodes w (rtNode rt)) inputID of
        None \<Rightarrow> Some (w, Inl (UnknownInputID (InputID req)))
      | Some input \<Rightarrow>
          if Amount input < reqAmount req then Some (w, Inl AmountExceedsInput)
          else if Unit input \<noteq> reqUnit req then Some (w, Inl (InputUnitMismatch (Unit input) (reqUnit req)))
          else
     (case map_of (devKeys rt) inputID of
        None \<Rightarrow> Some (w, Inl (NoLocalSigningKey (InputID req)))
      | Some priv \<Rightarrow>
          let transfer = dev_transfer (hP H) (clock (nodes w (rtNode rt))) priv input req recipient
          in case AcceptLocalTransfer (hEnv H) fuel w (rtNode rt) transfer of
               None \<Rightarrow> None
             | Some (w, Inl e) \<Rightarrow> Some (w, Inl e)
             | Some (w, Inr _) \<Rightarrow>
                 let txID = ComputeTransferID (hP H) transfer;
                     state = finality_or_zero (nodes w (rtNode rt)) txID
                 in Some (w, Inr \<lparr>stTxID = encodeHash txID, stStatus = Status state,
                                  stConfidence = Confidence state\<rparr>)))))"

definition value_info_of :: "web4_value \<Rightarrow> value_info" where
  "value_info_of v =
     \<lparr>viID = encodeHash (vID v), viAmount = Amount v, viUnit = Unit v, viOwner = EncodeToString (Owner v),
      viExpiry = Expiry v, viDepth = Depth v\<rparr>"

definition showTx :: "managed_runtime \<Rightarrow> world \<Rightarrow> string \<Rightarrow> error + show_tx_reply" where
  "showTx rt w txIDHex =
     bindE (decodeHash txIDHex) (\<lambda>txID.
       let n = nodes w (rtNode rt)
       in case Transfer n txID of
            None \<Rightarrow> Inl (UnknownTransferID txIDHex)
          | Some tx \<Rightarrow>
              let state = finality_or_zero n txID
              in Inr \<lparr>shTxID = encodeHash txID, shInputs = map encodeHash (Inputs tx),
                      shOutputs = map value_info_of (Outputs tx), shStatus = Status state,
                      shConfidence = Confidence state\<rparr>)"

definition selectedState :: "managed_runtime \<Rightarrow> world \<Rightarrow> selected_info list" where
  "selectedState rt w =
     map (\<lambda>e. \<lparr>siInputID = encodeHash (seInput e), siTxID = encodeHash (seTxID e)\<rparr>)
       (SelectedLineages (nodes w (rtNode rt)))"

definition finalityState_reply :: "managed_runtime \<Rightarrow> world \<Rightarrow> error + finality_info list" where
  "finalityState_reply rt w =
     bindE (FinalityEntries (nodes w (rtNode rt))) (\<lambda>es.
       Inr (map (\<lambda>e. \<lparr>fiTxID = encodeHash (feTxID e), fiConfidence = Confidence (feState e),
                       fiStatus = Status (feState e)\<rparr>) es))"

definition conflictState :: "managed_runtime \<Rightarrow> world \<Rightarrow> conflict_info list" where
  "conflictState rt w =
     map (\<lambda>e. \<lparr>ciInputID = encodeHash (ceInput e), ciTxIDs = map encodeHash (ceTxIDs e)\<rparr>)
       (ConflictSetEntries (nodes w (rtNode rt)))"

definition valuesState :: "managed_runtime \<Rightarrow> world \<Rightarrow> value_info list" where
  "valuesState rt w = map value_info_of (Values (nodes w (rtNode rt)))"

section \<open>The control service\<close>

text \<open>
  The methods of \<open>ControlService\<close>, which \<open>net/rpc\<close> calls by name; a call of the client returns what
  the method returns (the library sends an error as its text).
\<close>

datatype rpc_request =
    RpcStatus | RpcSendTx send_tx_request | RpcShowTx string | RpcSelected | RpcFinality
  | RpcConflicts | RpcValues

datatype rpc_reply =
    StatusReply status_reply | SendTxReply send_tx_reply | ShowTxReply show_tx_reply
  | SelectedReply "selected_info list" | FinalityReply "finality_info list"
  | ConflictsReply "conflict_info list" | ValuesReply "value_info list"

definition ControlService ::
  "host \<Rightarrow> nat \<Rightarrow> managed_runtime \<Rightarrow> world \<Rightarrow> rpc_request \<Rightarrow> (world \<times> (error + rpc_reply)) option" where
  "ControlService H fuel rt w req =
     (case req of
        RpcStatus \<Rightarrow> Some (w, Inr (StatusReply (Status_reply rt w)))
      | RpcSendTx r \<Rightarrow>
          map_option (\<lambda>(w, res). (w, bindE res (\<lambda>reply. Inr (SendTxReply reply)))) (sendTx H fuel rt w r)
      | RpcShowTx i \<Rightarrow> Some (w, bindE (showTx rt w i) (\<lambda>reply. Inr (ShowTxReply reply)))
      | RpcSelected \<Rightarrow> Some (w, Inr (SelectedReply (selectedState rt w)))
      | RpcFinality \<Rightarrow> Some (w, bindE (finalityState_reply rt w) (\<lambda>es. Inr (FinalityReply es)))
      | RpcConflicts \<Rightarrow> Some (w, Inr (ConflictsReply (conflictState rt w)))
      | RpcValues \<Rightarrow> Some (w, Inr (ValuesReply (valuesState rt w))))"

section \<open>Control sockets and the life of a runtime\<close>

text \<open>The file at a path: a socket a runtime listens on, one that nobody does, or anything else.\<close>

datatype file_kind = LiveSocket nat | DeadSocket | OtherFile

record machine =
  mWorld :: world
  mFiles :: "(string, file_kind) go_map"
  mRuntimes :: "nat \<Rightarrow> managed_runtime option"
  mNext :: nat

text \<open>The failures of the calls of the operating system, where they have no other cause.\<close>

record sys_calls =
  ioMkdir :: "error option"
  ioLstat :: "error option"
  ioRemove :: "error option"
  ioListen :: "error option"

definition listenControlSocket ::
  "string \<Rightarrow> sys_calls \<Rightarrow> nat \<Rightarrow> (string, file_kind) go_map \<Rightarrow> (string, file_kind) go_map \<times> (error + unit)" where
  "listenControlSocket path io owner files =
     (case map_of files path of
        Some (LiveSocket r) \<Rightarrow> (files, Inl (AlreadyRunning path))
      | found \<Rightarrow>
          (case ioMkdir io of Some e \<Rightarrow> (files, Inl e) | None \<Rightarrow>
          (case ioLstat io of Some e \<Rightarrow> (files, Inl e) | None \<Rightarrow>
            if found = Some OtherFile then (files, Inl (NotASocket path))
            else if found = Some DeadSocket \<and> ioRemove io \<noteq> None then (files, Inl (the (ioRemove io)))
            else
              let files = mdel path files
              in case ioListen io of
                   Some e \<Rightarrow> (files, Inl e)
                 | None \<Rightarrow> (mput path (LiveSocket owner) files, Inr ()))))"

fun addPeerIDs :: "node \<Rightarrow> string list \<Rightarrow> node" where
  "addPeerIDs n [] = n"
| "addPeerIDs n (p # ps) = addPeerIDs (AddPeerID n p) ps"

definition with_control :: "host \<Rightarrow> runtime_config \<Rightarrow> runtime_config" where
  "with_control H config =
     (if cfgControlPath config = []
      then config\<lparr>cfgControlPath := controlSocketPath (sockEnv H) (tmpDir H)\<rparr> else config)"

definition new_runtime :: "nat \<Rightarrow> runtime_config \<Rightarrow> managed_runtime" where
  "new_runtime a config =
     \<lparr>rtConfig = config, rtNode = a, rtTransport = NewTCPTransport (cfgListen config), rtControl = False,
      rtClosed = False, devKeys = [],
      seededValue = \<lparr>vID = zero_hash, Amount = 0, Unit = [], Owner = [], Expiry = 0, Depth = 0\<rparr>,
      seededOwner = [], rtControlPath = cfgControlPath config, rtListenAddr = []\<rparr>"

text \<open>
  \<open>startManagedRuntime\<close>, with the wall clock, what \<open>net.Listen\<close> answers for the transport, the
  \<open>Send\<close> of the transport and the error of \<open>RegisterName\<close>, if any. A control listener that is
  closed removes its socket file; so does the \<open>os.Remove\<close> after it.
\<close>

definition startManagedRuntime ::
  "host \<Rightarrow> sys_calls \<Rightarrow> int64 \<Rightarrow> error + string \<Rightarrow> (peer_id \<Rightarrow> message \<Rightarrow> error option) \<Rightarrow> error option
     \<Rightarrow> runtime_config \<Rightarrow> machine \<Rightarrow> machine \<times> (error + nat)" where
  "startManagedRuntime H io now listen sendTo register config m =
     (if cfgID config = [] \<or> cfgListen config = [] then (m, Inl MissingNodeConfig)
      else
        let config = with_control H config;
            path = cfgControlPath config;
            a = mNext m;
            n = addPeerIDs (SetNowFunc (NewNode (cfgID config) now) now) (cfgPeers config);
            (rt, w) = seedDeveloperValue H (new_runtime a config) (put (mWorld m) a n);
            m = m\<lparr>mNext := Suc a\<rparr>
        in case listenControlSocket path io a (mFiles m) of
             (files, Inl e) \<Rightarrow> (m\<lparr>mFiles := files\<rparr>, Inl e)
           | (files, Inr _) \<Rightarrow>
               let w = put w a (SetSender (nodes w a) (Some sendTo));
                   gone = m\<lparr>mFiles := mdel path files\<rparr>
               in case Start True listen (rtTransport rt) of
                    (tp, Inl e) \<Rightarrow> (gone, Inl e)
                  | (tp, Inr _) \<Rightarrow>
                      (case register of
                         Some e \<Rightarrow> (gone, Inl e)
                       | None \<Rightarrow>
                           let rt = rt\<lparr>rtControl := True, rtTransport := tp, rtListenAddr := Addr tp\<rparr>
                           in (m\<lparr>mWorld := w, mFiles := files, mRuntimes := (mRuntimes m)(a \<mapsto> rt)\<rparr>, Inr a)))"

text \<open>
  \<open>Close\<close>, with the errors of the control listener, of the transport and of \<open>os.Remove\<close> (for which
  a missing file is none). Nobody listens at the control socket any more; a client that is already
  connected is still served.
\<close>

definition first_error :: "error option \<Rightarrow> error option \<Rightarrow> error option" where
  "first_error firstErr err = (if firstErr = None then err else firstErr)"

text \<open>
  \<open>acceptLoop\<close> over what \<open>Accept\<close> returns, call by call: a connection, or an error together with what
  \<open>isClosed\<close> answers then. It returns the connections it has handed to the server of requests, and
  whether it has ended and so closed \<open>acceptDone\<close>.
\<close>

datatype accept_result = Accepted nat | AcceptFailed error bool

fun acceptLoop :: "accept_result list \<Rightarrow> nat list \<Rightarrow> nat list \<times> bool" where
  "acceptLoop [] served = (served, False)"
| "acceptLoop (Accepted conn # results) served = acceptLoop results (served @ [conn])"
| "acceptLoop (AcceptFailed err isClosed # results) served =
     (if isClosed \<or> err = NetClosed then (served, True) else acceptLoop results served)"

text \<open>
  \<open>Close\<close> sets the mark and closes the socket before it waits for \<open>acceptDone\<close>: the first call of
  \<open>Accept\<close> that fails from then on ends the loop, whatever has come before.
\<close>

lemma acceptLoop_ends: "AcceptFailed err True \<in> set results \<Longrightarrow> snd (acceptLoop results served)"
  by (induction results served rule: acceptLoop.induct) auto

lemma acceptLoop_serves:
  "\<exists>conns. fst (acceptLoop results served) = served @ conns \<and> prefix conns [c. Accepted c \<leftarrow> results]"
proof (induction results served rule: acceptLoop.induct)
  case (2 conn results served)
  then obtain conns where "fst (acceptLoop results (served @ [conn])) = (served @ [conn]) @ conns"
    "prefix conns [c. Accepted c \<leftarrow> results]" by blast
  then show ?case by (intro exI[of _ "conn # conns"]) simp
qed auto

definition closeRuntime ::
  "error option \<Rightarrow> error option \<Rightarrow> error option \<Rightarrow> managed_runtime \<Rightarrow> machine \<Rightarrow> machine \<times> error option" where
  "closeRuntime controlErr transportErr removeErr rt m =
     (if rtClosed rt then (m, None)
      else
        let firstErr = (if rtControl rt \<and> controlErr \<noteq> Some NetClosed then controlErr else None);
            firstErr = first_error firstErr transportErr;
            firstErr = first_error firstErr removeErr;
            rt = rt\<lparr>rtClosed := True, rtTransport := (rtTransport rt)\<lparr>tClosed := True\<rparr>\<rparr>;
            files = (if removeErr = None then mdel (rtControlPath rt) (mFiles m)
                     else mput (rtControlPath rt) DeadSocket (mFiles m))
        in (m\<lparr>mRuntimes := (mRuntimes m)(rtNode rt \<mapsto> rt), mFiles := files\<rparr>, firstErr))"

text \<open>
  The handler given to \<open>Start\<close>: a message from a peer. A runtime that is closed gets none.
\<close>

definition rt_handler ::
  "host \<Rightarrow> nat \<Rightarrow> managed_runtime \<Rightarrow> world \<Rightarrow> string \<Rightarrow> message \<Rightarrow> outcome" where
  "rt_handler H fuel rt w from msg = OnMessage (hEnv H) fuel w (rtNode rt) from msg"

text \<open>\<open>dialControlClient\<close> and a call through the client: the runtime that listens at the path answers.\<close>

definition dialControlClient :: "string \<Rightarrow> machine \<Rightarrow> error + nat" where
  "dialControlClient path m =
     (case map_of (mFiles m) path of Some (LiveSocket r) \<Rightarrow> Inr r | _ \<Rightarrow> Inl (NodeUnreachable path))"

text \<open>\<open>controlClient.Close\<close>: the first error of closing the client and its connection.\<close>

definition closeControlClient :: "error option \<Rightarrow> error option \<Rightarrow> error option" where
  "closeControlClient rpcErr connErr = first_error (first_error None rpcErr) connErr"

definition client_call ::
  "host \<Rightarrow> nat \<Rightarrow> nat \<Rightarrow> rpc_request \<Rightarrow> machine \<Rightarrow> (machine \<times> (error + rpc_reply)) option" where
  "client_call H fuel r req m =
     (case mRuntimes m r of
        None \<Rightarrow> Some (m, Inl NetClosed)
      | Some rt \<Rightarrow>
          map_option (\<lambda>(w, reply). (m\<lparr>mWorld := w\<rparr>, reply)) (ControlService H fuel rt (mWorld m) req))"

end
