(* ===== verification/Cli_Machine.thy ===== *)
theory Cli_Machine
  imports Cli_Runtime Node_Gossip Node_Types
begin

text \<open>
  The runs of a machine: runtimes start and close, peers send them messages, the command line sends
  them requests, clocks go on and the network changes its mind, in any order. The invariant of its
  reachable states, and where the values a runtime knows come from.
\<close>

section \<open>Steps\<close>

inductive machine_step :: "host \<Rightarrow> machine \<Rightarrow> machine \<Rightarrow> bool" for H where
  ms_start: "machine_step H m (fst (startManagedRuntime H io now listen sendTo register config m))"
| ms_message: "mRuntimes m r = Some rt \<Longrightarrow> rt_handler H fuel rt (mWorld m) from msg = Some (w, res) \<Longrightarrow>
    machine_step H m (m\<lparr>mWorld := w\<rparr>)"
| ms_request: "client_call H fuel r req m = Some (m', res) \<Longrightarrow> machine_step H m m'"
| ms_clock: "mRuntimes m r = Some rt \<Longrightarrow>
    machine_step H m (m\<lparr>mWorld := put (mWorld m) r (SetNowFunc (nodes (mWorld m) r) now)\<rparr>)"
| ms_network: "mRuntimes m r = Some rt \<Longrightarrow>
    machine_step H m (m\<lparr>mWorld := put (mWorld m) r (SetSender (nodes (mWorld m) r) (Some sendTo))\<rparr>)"
| ms_close: "mRuntimes m r = Some rt \<Longrightarrow> machine_step H m (fst (closeRuntime ce te re rt m))"

inductive_cases machine_stepE: "machine_step H m m'"

text \<open>No runtime has been started, and no socket file belongs to one.\<close>

definition fresh_machine :: "machine \<Rightarrow> bool" where
  "fresh_machine m \<longleftrightarrow> initial (mWorld m) \<and> (\<forall>r. mRuntimes m r = None)"

definition machine_reachable :: "host \<Rightarrow> machine \<Rightarrow> bool" where
  "machine_reachable H m \<longleftrightarrow> (\<exists>m0. fresh_machine m0 \<and> (machine_step H)\<^sup>*\<^sup>* m0 m)"

lemma machine_reachable_steps:
  "machine_reachable H m \<Longrightarrow> (machine_step H)\<^sup>*\<^sup>* m m' \<Longrightarrow> machine_reachable H m'"
  unfolding machine_reachable_def by (meson rtranclp_trans)

section \<open>A runtime keeps its sender\<close>

interpretation sends: kept_by_steps E "\<lambda>n. sender n \<noteq> None" for E
  by unfold_locales (auto dest: nstep_grows lstep_keeps(2) simp: grows_def)

section \<open>Descent of values\<close>

text \<open>\<open>i\<close> is the first value, or an output of a stored transfer whose inputs all descend from it.\<close>

inductive descends :: "node \<Rightarrow> hash \<Rightarrow> hash \<Rightarrow> bool" for n i0 where
  d_root: "descends n i0 i0"
| d_output: "txs n t = Some x \<Longrightarrow> (\<And>i. i \<in> set (Inputs x) \<Longrightarrow> descends n i0 i) \<Longrightarrow> v \<in> set (Outputs x) \<Longrightarrow>
    descends n i0 (vID v)"

lemma descends_mono:
  assumes "descends n i0 i" and "\<And>t x. txs n t = Some x \<Longrightarrow> txs m t = Some x"
  shows "descends m i0 i"
  using assms(1) by induction (auto intro: descends.intros assms(2))

definition own_line :: "hash \<Rightarrow> node \<Rightarrow> bool" where
  "own_line i0 n \<longleftrightarrow> (\<forall>h. map_of (valueStore n) h \<noteq> None \<longrightarrow> descends n i0 h)
     \<and> (\<forall>t x. txs n t = Some x \<longrightarrow> (\<forall>i \<in> set (Inputs x). descends n i0 i))
     \<and> map_of (valueStore n) i0 \<noteq> None"

lemma own_line_cong:
  assumes "own_line i0 n" and "valueStore m = valueStore n" and "txs m = txs n"
  shows "own_line i0 m"
proof -
  have "descends n i0 h \<Longrightarrow> descends m i0 h" for h using assms(3) by (metis descends_mono)
  then show ?thesis using assms unfolding own_line_def by simp
qed

lemma accept_own_line:
  assumes inv: "node_inv (crypt E) n" and own: "own_line i0 n"
    and v: "validateTransfer (crypt E) n (normalizeTransfer (crypt E) x) = Inr ()"
  shows "own_line i0 (fst (upsert_and_recompute E n (normalizeTransfer (crypt E) x) (EncodeTransfer x) f))"
proof -
  let ?P = "crypt E" and ?x = "normalizeTransfer (crypt E) x" and ?t = "ComputeTransferID (crypt E) x"
  obtain m where m: "upsert_and_recompute E n ?x (EncodeTransfer x) f = (m, Inr (?t, txs n ?t = None))"
    "node_inv ?P m" "txs m = (if txs n ?t = None then (txs n)(?t \<mapsto> ?x) else txs n)"
    by (rule accept_effect[OF inv v, of f])
  have up: "descends n i0 h \<Longrightarrow> descends m i0 h" for h
    by (rule descends_mono) (use m(3) in \<open>auto split: if_splits\<close>)
  have ins: "descends m i0 i" if "i \<in> set (Inputs x)" for i
    using validate_known[OF v, of i] that own by (auto simp: own_line_def intro: up)
  have vals: "descends m i0 h" if "map_of (valueStore m) h \<noteq> None" for h
  proof (cases "txs n ?t = None \<and> h \<in> ComputeValueID ?P ` set (Outputs x)")
    case True
    then obtain u where u: "u \<in> set (Outputs ?x)" "h = vID u" using output_of_id by blast
    have "txs m ?t = Some ?x" using m(3) True by simp
    then have "descends m i0 (vID u)" by (rule d_output) (use ins u(1) in simp_all)
    then show ?thesis using u(2) by simp
  next
    case False
    then have "map_of (valueStore m) h = map_of (valueStore n) h"
      using accept_values[OF m(1), of h] by blast
    then show ?thesis using that own by (auto simp: own_line_def intro: up)
  qed
  have "map_of (valueStore m) i0 \<noteq> None"
    using accept_keeps_values[OF inv v m(1), of i0] own by (simp add: own_line_def)
  moreover have "descends m i0 i" if "txs m t = Some y" "i \<in> set (Inputs y)" for t y i
    using that m(3) own ins by (auto simp: own_line_def split: if_splits intro: up)
  ultimately have "own_line i0 m" using vals unfolding own_line_def by blast
  then show ?thesis using m(1) by simp
qed

lemma nstep_own_line:
  assumes "nstep E n m" and inv: "node_inv (crypt E) n" and own: "own_line i0 n"
  shows "own_line i0 m"
  using assms(1)
proof cases
  case (ns_store x f)
  then show ?thesis using accept_own_line[OF inv own] by simp
next
  case (ns_proof t p)
  obtain k where k: "proof_and_recompute E n t p = (k, Inr ())" "txs k = txs n"
    by (rule proof_effect[OF inv, of t p])
  have "valueStore k = valueStore n"
    using derived_onlyD(2)[OF proof_derived[of n t p E]] k(1) by (simp add: updateProof_def)
  then show ?thesis using own_line_cong[OF own _ k(2)] k(1) ns_proof by simp
qed (auto intro!: own_line_cong[OF own] simp: txs_def)

lemma lstep_own_line:
  assumes "lstep E n m" and inv: "node_inv (crypt E) n" and own: "own_line i0 n"
  shows "own_line i0 m"
  using assms(1)
proof cases
  case (ls_local x tk)
  let ?n = "n\<lparr>inputTracker := tk\<rparr>"
  have "node_inv (crypt E) ?n" by (rule node_inv_cong[OF inv]) (use node_invD(4)[OF inv] in simp_all)
  moreover have "own_line i0 ?n" by (rule own_line_cong[OF own]) (simp_all add: txs_def fun_eq_iff)
  moreover have "validateTransfer (crypt E) ?n (normalizeTransfer (crypt E) x) = Inr ()"
    using ls_local(2) validateTransfer_cong[of ?n n] by simp
  ultimately show ?thesis using accept_own_line ls_local(1) by blast
qed

interpretation line: kept_by_steps E "own_line i0" for E i0
  by unfold_locales (auto intro: nstep_own_line lstep_own_line)

end
