(* ===== verification/Cli_Safety.thy ===== *)
theory Cli_Safety
  imports Cli_Machine
begin

text \<open>The invariant of the reachable states of a machine, and what a request does in such a state.\<close>

section \<open>A started runtime\<close>

definition dev_value :: "host \<Rightarrow> string \<Rightarrow> web4_value" where
  "dev_value H i =
     (let v = \<lparr>vID = zero_hash, Amount = defaultDevAmount, Unit = ''WEB4'', Owner = fst (developerKeys H i),
               Expiry = defaultValueExpiry, Depth = 0\<rparr>
      in v\<lparr>vID := ComputeValueID (hP H) v\<rparr>)"

definition start_node :: "host \<Rightarrow> int64 \<Rightarrow> runtime_config \<Rightarrow> node" where
  "start_node H now config =
     SeedValue (hP H) (addPeerIDs (SetNowFunc (NewNode (cfgID config) now) now) (cfgPeers config))
       (dev_value H (cfgID config))"

definition started :: "host \<Rightarrow> int64 \<Rightarrow> runtime_config \<Rightarrow> (peer_id \<Rightarrow> message \<Rightarrow> error option)
    \<Rightarrow> machine \<Rightarrow> managed_runtime \<Rightarrow> machine \<Rightarrow> bool" where
  "started H now config sendTo m rt m' \<longleftrightarrow>
     mWorld m' = put (mWorld m) (mNext m) (SetSender (start_node H now config) (Some sendTo))
   \<and> mRuntimes m' = (mRuntimes m)(mNext m \<mapsto> rt) \<and> mNext m' = Suc (mNext m) \<and> rtNode rt = mNext m
   \<and> seededValue rt = dev_value H (cfgID config)
   \<and> devKeys rt = [(vID (dev_value H (cfgID config)), snd (developerKeys H (cfgID config)))]
   \<and> \<not> rtClosed rt \<and> map_of (mFiles m') (rtControlPath rt) = Some (LiveSocket (mNext m))"

lemma listen_owns:
  "listenControlSocket path io a files = (files', Inr ()) \<Longrightarrow> map_of files' path = Some (LiveSocket a)"
  by (auto simp: listenControlSocket_def Let_def gm.get_put split: option.splits file_kind.splits if_splits)

lemma with_control_simps [simp]:
  shows "cfgID (with_control H config) = cfgID config" and "cfgListen (with_control H config) = cfgListen config"
    and "cfgPeers (with_control H config) = cfgPeers config"
  by (simp_all add: with_control_def)

lemma seedDeveloperValue_eq:
  "seedDeveloperValue H rt w =
     (rt\<lparr>devKeys := mput (vID (dev_value H (cfgID (rtConfig rt)))) (snd (developerKeys H (cfgID (rtConfig rt)))) (devKeys rt),
         seededValue := dev_value H (cfgID (rtConfig rt)),
         seededOwner := EncodeToString (fst (developerKeys H (cfgID (rtConfig rt))))\<rparr>,
      put w (rtNode rt) (SeedValue (hP H) (nodes w (rtNode rt)) (dev_value H (cfgID (rtConfig rt)))))"
  by (simp add: seedDeveloperValue_def dev_value_def Let_def split: prod.split)

lemma startManagedRuntime_shape:
  assumes "startManagedRuntime H io now listen sendTo register config m = (m', res)"
  shows "(\<exists>e. res = Inl e) \<and> mWorld m' = mWorld m \<and> mRuntimes m' = mRuntimes m \<and> mNext m \<le> mNext m'
     \<or> res = Inr (mNext m) \<and> (\<exists>rt. started H now config sendTo m rt m')"
proof (cases "cfgID config = [] \<or> cfgListen config = []")
  case True
  then show ?thesis using assms by (auto simp: startManagedRuntime_def)
next
  case False
  obtain files q where l: "listenControlSocket (cfgControlPath (with_control H config)) io (mNext m) (mFiles m)
      = (files, q)" by fastforce
  obtain tp s where s: "Start True listen (NewTCPTransport (cfgListen config)) = (tp, s)" by fastforce
  note eq = assms[unfolded startManagedRuntime_def if_not_P[OF False] Let_def seedDeveloperValue_eq]
  show ?thesis
  proof (cases q)
    case (Inl e)
    then show ?thesis using eq l by (simp add: new_runtime_def) auto
  next
    case (Inr u)
    show ?thesis
    proof (cases "(\<exists>e. s = Inl e) \<or> register \<noteq> None")
      case True
      then show ?thesis using eq l s Inr by (cases s) (auto simp: new_runtime_def split: option.splits)
    next
      case False
      then obtain u' where "s = Inr u'" "register = None" by (cases s) auto
      moreover let ?rt = "(new_runtime (mNext m) (with_control H config))
        \<lparr>rtTransport := tp, rtControl := True,
          devKeys := [(vID (dev_value H (cfgID config)), snd (developerKeys H (cfgID config)))],
          seededValue := dev_value H (cfgID config),
          seededOwner := EncodeToString (fst (developerKeys H (cfgID config))), rtListenAddr := Addr tp\<rparr>"
      have "map_of files (cfgControlPath (with_control H config)) = Some (LiveSocket (mNext m))"
        using listen_owns l Inr by simp
      ultimately have "started H now config sendTo m ?rt m'" and "res = Inr (mNext m)"
        using eq l s Inr by (auto simp: new_runtime_def started_def start_node_def)
      then show ?thesis by blast
    qed
  qed
qed

section \<open>The invariant\<close>

definition rt_ok :: "machine \<Rightarrow> nat \<Rightarrow> managed_runtime \<Rightarrow> bool" where
  "rt_ok m r rt \<longleftrightarrow> r < mNext m \<and> rtNode rt = r \<and> (\<exists>priv. devKeys rt = [(vID (seededValue rt), priv)])
     \<and> sender (nodes (mWorld m) r) \<noteq> None \<and> own_line (vID (seededValue rt)) (nodes (mWorld m) r)"

definition world_maps :: "world \<Rightarrow> bool" where
  "world_maps w \<longleftrightarrow> (\<forall>a. maps_wf (nodes w a))"

definition machine_ok :: "host \<Rightarrow> machine \<Rightarrow> bool" where
  "machine_ok H m \<longleftrightarrow> world_inv (hEnv H) (mWorld m) \<and> world_maps (mWorld m)
     \<and> (\<forall>r rt. mRuntimes m r = Some rt \<longrightarrow> rt_ok m r rt)"

lemma machine_okD:
  assumes "machine_ok H m"
  shows "world_inv (hEnv H) (mWorld m)" and "world_maps (mWorld m)" and "mRuntimes m r = Some rt \<Longrightarrow> rt_ok m r rt"
    and "node_inv (hP H) (nodes (mWorld m) a)" and "maps_wf (nodes (mWorld m) a)"
  using assms by (simp_all add: machine_ok_def world_inv_def world_maps_def)

lemma addPeerIDs_frame [simp]:
  "valueStore (addPeerIDs n ps) = valueStore n" "txStore (addPeerIDs n ps) = txStore n"
  "conflictSets (addPeerIDs n ps) = conflictSets n" "selectedLineage (addPeerIDs n ps) = selectedLineage n"
  "finalityState (addPeerIDs n ps) = finalityState n" "replayCache (addPeerIDs n ps) = replayCache n"
  "clock (addPeerIDs n ps) = clock n" "inputTracker (addPeerIDs n ps) = inputTracker n"
  by (induction ps arbitrary: n) (simp_all add: AddPeerID_def)

lemma addPeerIDs_inv: "node_inv P n \<Longrightarrow> node_inv P (addPeerIDs n ps)"
proof (induction ps arbitrary: n)
  case (Cons p ps)
  have "node_inv P (AddPeerID n p)"
    by (rule node_inv_cong[OF Cons.prems]) (use node_invD(4)[OF Cons.prems] in \<open>auto simp: AddPeerID_def\<close>)
  then show ?case using Cons.IH by simp
qed simp

lemma addPeerIDs_maps: "maps_wf n \<Longrightarrow> maps_wf (addPeerIDs n ps)"
  by (induction ps arbitrary: n) (auto simp: AddPeerID_def maps_wf_def distinct_update)

lemma vID_dev_value [simp]: "ComputeValueID (hP H) (dev_value H i) = vID (dev_value H i)"
proof -
  obtain v :: web4_value where "dev_value H i = v\<lparr>vID := ComputeValueID (hP H) v\<rparr>"
    unfolding dev_value_def Let_def by blast
  then show ?thesis by simp
qed

lemma start_node_simps:
  "valueStore (start_node H now config) = [(vID (dev_value H (cfgID config)), dev_value H (cfgID config))]"
  "txs (start_node H now config) = (\<lambda>_. None)" "clock (start_node H now config) = now"
  "consumed_set (inputTracker (start_node H now config)) = {}"
  by (simp_all add: start_node_def SeedValue_def Let_def txs_def fun_eq_iff SetNowFunc_def NewNode_def
      NewInputTracker_def consumed_set_def IsConsumed_def)

lemma start_node_ok:
  "node_inv (hP H) (start_node H now config)" "maps_wf (start_node H now config)"
  "own_line (vID (dev_value H (cfgID config))) (start_node H now config)"
proof -
  have "node_inv (hP H) (SetNowFunc (NewNode (cfgID config) now) now)"
    by (rule node_inv_cong[OF NewNode_inv]) (simp_all add: SetNowFunc_def NewNode_def)
  then show "node_inv (hP H) (start_node H now config)"
    unfolding start_node_def by (intro SeedValue_inv addPeerIDs_inv)
  have "maps_wf (addPeerIDs (SetNowFunc (NewNode (cfgID config) now) now) (cfgPeers config))"
    by (rule addPeerIDs_maps) (simp add: maps_wf_def SetNowFunc_def NewNode_def)
  then show "maps_wf (start_node H now config)"
    by (simp add: start_node_def SeedValue_def Let_def maps_wf_def distinct_update)
  show "own_line (vID (dev_value H (cfgID config))) (start_node H now config)"
    by (auto simp: own_line_def start_node_simps intro: d_root)
qed

lemma set_sender_ok:
  "node_inv P n \<Longrightarrow> node_inv P (SetSender n f)" "maps_wf n \<Longrightarrow> maps_wf (SetSender n f)"
  "own_line i n \<Longrightarrow> own_line i (SetSender n f)" "sender (SetSender n f) = f"
  "node_inv P n \<Longrightarrow> node_inv P (SetNowFunc n t)" "maps_wf n \<Longrightarrow> maps_wf (SetNowFunc n t)"
  "own_line i n \<Longrightarrow> own_line i (SetNowFunc n t)" "sender (SetNowFunc n t) = sender n"
proof -
  assume "node_inv P n"
  note c = node_invD(4)[OF this]
  show "node_inv P (SetSender n f)" "node_inv P (SetNowFunc n t)"
    by (auto intro!: node_inv_cong[OF \<open>node_inv P n\<close>] simp: c SetSender_def SetNowFunc_def)
qed (auto intro: maps_wf_cong own_line_cong simp: SetSender_def SetNowFunc_def txs_def fun_eq_iff)

section \<open>Requests and the invariant\<close>

lemma sendTx_world:
  assumes "sendTx H k rt w req = Some (w', res)"
  shows "w' = w \<and> (\<exists>e. res = Inl e) \<or> (\<exists>x q. AcceptLocalTransfer (hEnv H) k w (rtNode rt) x = Some (w', q))"
  using assms by (auto simp: sendTx_def Let_def split: sum.splits option.splits if_splits)

lemma client_call_world:
  assumes "client_call H k r req m = Some (m', res)"
  shows "m' = m\<lparr>mWorld := mWorld m'\<rparr>
     \<and> (mWorld m' = mWorld m
        \<or> (\<exists>rt x q. mRuntimes m r = Some rt
             \<and> AcceptLocalTransfer (hEnv H) k (mWorld m) (rtNode rt) x = Some (mWorld m', q)))"
proof (cases "mRuntimes m r")
  case (Some rt)
  then obtain w where w: "ControlService H k rt (mWorld m) req = Some (w, res)" "m' = m\<lparr>mWorld := w\<rparr>"
    using assms by (auto simp: client_call_def)
  have "w = mWorld m \<or> (\<exists>x q. AcceptLocalTransfer (hEnv H) k (mWorld m) (rtNode rt) x = Some (w, q))"
    using w(1) sendTx_world[of H k rt "mWorld m"]
    by (cases req) (auto simp: ControlService_def)
  then show ?thesis using w(2) Some by auto
qed (use assms in \<open>simp add: client_call_def\<close>)

text \<open>A call of a node keeps the invariant, and takes nothing away.\<close>

lemma world_call_ok:
  assumes ok: "machine_ok H m"
    and "OnMessage (hEnv H) k (mWorld m) b p msg = Some (w, q)
      \<or> AcceptLocalTransfer (hEnv H) k (mWorld m) b x = Some (w, q)"
  shows "machine_ok H (m\<lparr>mWorld := w\<rparr>)" and "world_grows (mWorld m) w"
proof -
  note inv = machine_okD[OF ok]
  have w: "world_inv (hEnv H) w" and g: "world_grows (mWorld m) w"
    using assms(2) OnMessage_keeps AcceptLocal_keeps inv(1) by blast+
  show "world_grows (mWorld m) w" by (rule g)
  have m: "maps_wf (nodes w a)" for a
    using assms(2) maps.on_message_keeps maps.accept_local_keeps inv(1,5) by blast
  have rt: "rt_ok (m\<lparr>mWorld := w\<rparr>) r rt" if "mRuntimes m r = Some rt" for r rt
  proof -
    have o: "rt_ok m r rt" by (rule inv(3)[OF that])
    have "sender (nodes w r) \<noteq> None"
      using assms(2) sends.on_message_keeps[OF _ inv(1)] sends.accept_local_keeps[OF _ inv(1)] o
      unfolding rt_ok_def by blast
    moreover have "own_line (vID (seededValue rt)) (nodes w r)"
      using assms(2) line.on_message_keeps[OF _ inv(1)] line.accept_local_keeps[OF _ inv(1)] o
      unfolding rt_ok_def by blast
    ultimately show ?thesis using o by (simp add: rt_ok_def)
  qed
  show "machine_ok H (m\<lparr>mWorld := w\<rparr>)" using w m rt by (simp add: machine_ok_def world_maps_def)
qed

text \<open>A change of one node that its owner makes.\<close>

lemma put_ok:
  assumes ok: "machine_ok H m" and "node_inv (hP H) n" and "maps_wf n"
    and "mRuntimes m' = (case new of None \<Rightarrow> mRuntimes m | Some rt \<Rightarrow> (mRuntimes m)(r \<mapsto> rt))"
    and "mWorld m' = put (mWorld m) r n" and "mNext m \<le> mNext m'" and "\<forall>rt. mRuntimes m' r = Some rt \<longrightarrow> rt_ok m' r rt"
  shows "machine_ok H m'"
proof -
  note inv = machine_okD[OF ok]
  have "rt_ok m' s rt" if "mRuntimes m' s = Some rt" for s rt
  proof (cases "s = r")
    case False
    then have "mRuntimes m s = Some rt" using that assms(4) by (simp split: option.splits)
    from inv(3)[OF this] show ?thesis using False assms(5,6) by (simp add: rt_ok_def)
  qed (use that assms(7) in simp)
  moreover have "world_inv (hEnv H) (mWorld m')" "world_maps (mWorld m')"
    using assms(2,3,5) inv(4,5) by (simp_all add: world_inv_def world_maps_def)
  ultimately show ?thesis by (simp add: machine_ok_def)
qed

text \<open>What of a runtime never changes, and what its node never loses.\<close>

definition stays :: "nat \<Rightarrow> machine \<Rightarrow> machine \<Rightarrow> bool" where
  "stays r m m' \<longleftrightarrow> (\<forall>rt. mRuntimes m r = Some rt \<longrightarrow>
     keeps (nodes (mWorld m) r) (nodes (mWorld m') r)
   \<and> (\<exists>rt'. mRuntimes m' r = Some rt' \<and> seededValue rt' = seededValue rt \<and> rtNode rt' = rtNode rt))"

lemma stays_refl: "stays r m m" by (simp add: stays_def)

lemma stays_trans: "stays r m m' \<Longrightarrow> stays r m' m'' \<Longrightarrow> stays r m m''"
  unfolding stays_def using keeps_trans by fastforce

lemma machine_step_ok:
  assumes "machine_step H m m'" and ok: "machine_ok H m"
  shows "machine_ok H m' \<and> stays r m m'"
  using assms(1)
proof cases
  case (ms_start io now listen sendTo register config)
  obtain res where s: "startManagedRuntime H io now listen sendTo register config m = (m', res)"
    using ms_start by (metis prod.collapse)
  from startManagedRuntime_shape[OF s] show ?thesis
  proof (elim disjE conjE exE)
    assume "mWorld m' = mWorld m" "mRuntimes m' = mRuntimes m" "mNext m \<le> mNext m'"
    then show ?thesis using ok by (fastforce simp: machine_ok_def stays_def rt_ok_def)
  next
    fix rt
    let ?n = "SetSender (start_node H now config) (Some sendTo)"
    assume st: "started H now config sendTo m rt m'"
    note st' = st[unfolded started_def] and n = start_node_ok[where H = H and now = now and config = config]
    have "rt_ok m' (mNext m) rt"
      using st' set_sender_ok(3)[OF n(3), of "Some sendTo"] by (simp add: rt_ok_def set_sender_ok(4))
    then have "machine_ok H m'"
      by (intro put_ok[OF ok set_sender_ok(1)[OF n(1), of "Some sendTo"] set_sender_ok(2)[OF n(2), of "Some sendTo"],
          where new = "Some rt" and r = "mNext m"]) (use st' in auto)
    moreover have "stays r m m'"
      using st' machine_okD(3)[OF ok, of r] by (auto simp: stays_def rt_ok_def)
    ultimately show ?thesis by simp
  qed
next
  case (ms_message s rt fuel p msg w res)
  then have o: "OnMessage (hEnv H) fuel (mWorld m) (rtNode rt) p msg = Some (w, res)" by (simp add: rt_handler_def)
  have "stays r m m'" using world_call_ok(2)[OF ok disjI1[OF o]] ms_message(1)
    by (simp add: stays_def world_growsD grows_keeps)
  then show ?thesis using world_call_ok(1)[OF ok disjI1[OF o]] ms_message(1) by simp
next
  case (ms_request fuel s req res)
  from client_call_world[OF this] have m': "m' = m\<lparr>mWorld := mWorld m'\<rparr>"
    and w: "mWorld m' = mWorld m \<or> (\<exists>rt x q. mRuntimes m s = Some rt
      \<and> AcceptLocalTransfer (hEnv H) fuel (mWorld m) (rtNode rt) x = Some (mWorld m', q))" by blast+
  from w show ?thesis
  proof (elim disjE exE conjE)
    assume "mWorld m' = mWorld m"
    then have "m' = m" using m' by simp
    then show ?thesis using ok stays_refl by simp
  next
    fix rt x q
    assume a: "AcceptLocalTransfer (hEnv H) fuel (mWorld m) (rtNode rt) x = Some (mWorld m', q)"
    have "stays r m m'" using world_call_ok(2)[OF ok disjI2[OF a]] m'
      by (metis grows_keeps machine.select_convs(3) machine.surjective machine.update_convs(1) stays_def world_growsD)
    then show ?thesis using world_call_ok(1)[OF ok disjI2[OF a]] m' by metis
  qed
next
  case (ms_clock s rt now)
  note n = machine_okD(4,5)[OF ok, of s] and o = machine_okD(3)[OF ok ms_clock(2)]
  have "machine_ok H m'"
    by (rule put_ok[OF ok set_sender_ok(5)[OF n(1)] set_sender_ok(6)[OF n(2)], where new = None and r = s])
      (use ms_clock o in \<open>auto simp: rt_ok_def set_sender_ok(7,8)\<close>)
  moreover have "stays r m m'" using ms_clock by (auto simp: stays_def SetNowFunc_def keeps_def txs_def)
  ultimately show ?thesis by simp
next
  case (ms_network s rt sendTo)
  note n = machine_okD(4,5)[OF ok, of s] and o = machine_okD(3)[OF ok ms_network(2)]
  have "machine_ok H m'"
    by (rule put_ok[OF ok set_sender_ok(1)[OF n(1)] set_sender_ok(2)[OF n(2)], where new = None and r = s])
      (use ms_network o in \<open>auto simp: rt_ok_def set_sender_ok(3,4)\<close>)
  moreover have "stays r m m'" using ms_network by (auto simp: stays_def SetSender_def keeps_def txs_def)
  ultimately show ?thesis by simp
next
  case (ms_close s rt ce te re)
  note o = machine_okD(3)[OF ok ms_close(2)]
  have m': "mWorld m' = mWorld m" "mNext m' = mNext m"
    "mRuntimes m' = mRuntimes m \<or> (\<exists>rt'. mRuntimes m' = (mRuntimes m)(s \<mapsto> rt') \<and> seededValue rt' = seededValue rt
       \<and> devKeys rt' = devKeys rt \<and> rtNode rt' = rtNode rt)"
    using ms_close o by (auto simp: closeRuntime_def Let_def rt_ok_def)
  have "rt_ok m' q rt'" if "mRuntimes m' q = Some rt'" for q rt'
    using m' that o machine_okD(3)[OF ok, of q] by (cases "q = s") (auto simp: rt_ok_def)
  then have "machine_ok H m'" using machine_okD(1,2)[OF ok] m'(1) by (simp add: machine_ok_def)
  moreover have "stays r m m'" using m' ms_close(2) by (auto simp: stays_def)
  ultimately show ?thesis by simp
qed

lemma machine_steps_ok:
  assumes "(machine_step H)\<^sup>*\<^sup>* m m'" and "machine_ok H m"
  shows "machine_ok H m' \<and> stays r m m'"
  using assms
proof (induction rule: rtranclp_induct)
  case (step u v)
  then show ?case using machine_step_ok[OF step.hyps(2)] stays_trans by blast
qed (simp add: stays_refl)

lemma machine_reachable_ok: "machine_reachable H m \<Longrightarrow> machine_ok H m"
proof -
  assume "machine_reachable H m"
  then obtain m0 where m0: "fresh_machine m0" "(machine_step H)\<^sup>*\<^sup>* m0 m" unfolding machine_reachable_def by blast
  have "maps_wf (nodes (mWorld m0) a)" for a
  proof -
    obtain i t where "nodes (mWorld m0) a = NewNode i t"
      using m0(1) unfolding fresh_machine_def initial_def by blast
    then show ?thesis by (simp add: maps_wf_def NewNode_def)
  qed
  then have "machine_ok H m0"
    using m0(1) initial_inv by (simp add: machine_ok_def fresh_machine_def world_maps_def)
  then show ?thesis using machine_steps_ok[OF m0(2)] by blast
qed

end
