(* ===== verification/Cli_Requests.thy ===== *)
theory Cli_Requests
  imports Cli_Safety
begin

text \<open>What a request to a runtime does: it always returns, and a transfer it sends is stored and spends.\<close>

section \<open>Sending with a transport\<close>

text \<open>A node with a sender never waits for another node: \<open>send\<close> returns with any fuel.\<close>

lemma send_with_sender:
  assumes "sender (nodes w a) = Some f"
  shows "send deliver w a to msg = Some (put w a ((nodes w a)\<lparr>sent := sent (nodes w a) @ [\<lparr>To = to, sMessage = msg\<rparr>]\<rparr>),
    case f to msg of None \<Rightarrow> Inr () | Some e \<Rightarrow> Inl e)"
  using assms by (simp add: send_def Let_def)

lemma broadcast_returns:
  "sender (nodes w a) = Some f \<Longrightarrow> \<exists>w' r s. broadcastINV E (send deliver) w a ttl t ps = Some (w', r)
     \<and> ((\<forall>p m. f p m = None) \<longrightarrow> r = Inr ()) \<and> nodes w' a = (nodes w a)\<lparr>sent := s\<rparr>"
proof (induction ps arbitrary: w)
  case Nil
  then show ?case by (auto intro: exI[of _ "sent (nodes w a)"])
next
  case (Cons p ps)
  let ?m = "NewINVMessage (nextID E w) (clock (nodes w a)) ttl t"
  let ?w = "put (tick w) a ((nodes w a)\<lparr>sent := sent (nodes w a) @ [\<lparr>To = p, sMessage = ?m\<rparr>]\<rparr>)"
  have s: "send deliver (tick w) a p ?m = Some (?w, case f p ?m of None \<Rightarrow> Inr () | Some e \<Rightarrow> Inl e)"
    using send_with_sender[of "tick w" a f deliver p ?m] Cons.prems by simp
  show ?case
  proof (cases "f p ?m")
    case None
    have "sender (nodes ?w a) = Some f" using Cons.prems by simp
    from Cons.IH[OF this] show ?thesis using None s by auto
  qed (use s in auto)
qed

lemma accept_returns:
  assumes inv: "world_inv E w" and f: "sender (nodes w a) = Some f"
  shows "\<exists>w' r. AcceptLocalTransfer E k w a x = Some (w', r)"
proof (cases "\<exists>tk. validateTransfer (crypt E) (nodes w a) (normalizeTransfer (crypt E) x) = Inr ()
    \<and> ConsumeInputs (inputTracker (nodes w a)) (Inputs x) = Inr tk")
  case True
  then obtain tk m where "same_links ((nodes w a)\<lparr>inputTracker := tk\<rparr>) m"
    and o: "AcceptLocalTransfer E k w a x = broadcastINV E (send (OnMessage E k)) (put w a m) a 30
        (ComputeTransferID (crypt E) x) (peerIDsExcept m [])"
    using AcceptLocal_accepted[OF inv, of a x _ k] by (metis (no_types))
  then have "sender (nodes (put w a m) a) = Some f" using f by (simp add: same_links_def)
  from broadcast_returns[OF this] show ?thesis unfolding o by blast
next
  case False
  then show ?thesis using AcceptLocal_rejected[of E w a x k] Inr_unit_cases by blast
qed

section \<open>sendTx\<close>

text \<open>What a request that \<open>sendTx\<close> has answered without an error went through.\<close>

lemma sendTx_success:
  assumes "sendTx H k rt w req = Some (w', Inr rep)"
  obtains i owner input priv where "decodeHash (InputID req) = Inr i" and "decodeRecipient (reqTo req) = Inr owner"
    and "ValueAt (nodes w (rtNode rt)) i = Some input" and "reqAmount req \<le> Amount input"
    and "Unit input = reqUnit req" and "map_of (devKeys rt) i = Some priv"
    and "AcceptLocalTransfer (hEnv H) k w (rtNode rt)
           (dev_transfer (hP H) (clock (nodes w (rtNode rt))) priv input req owner) = Some (w', Inr ())"
    and "stTxID rep = encodeHash (ComputeTransferID (hP H)
           (dev_transfer (hP H) (clock (nodes w (rtNode rt))) priv input req owner))"
    and "stStatus rep = Status (finality_or_zero (nodes w' (rtNode rt)) (ComputeTransferID (hP H)
           (dev_transfer (hP H) (clock (nodes w (rtNode rt))) priv input req owner)))"
    and "stConfidence rep = Confidence (finality_or_zero (nodes w' (rtNode rt)) (ComputeTransferID (hP H)
           (dev_transfer (hP H) (clock (nodes w (rtNode rt))) priv input req owner)))"
proof -
  obtain i where i: "decodeHash (InputID req) = Inr i"
    using assms by (cases "decodeHash (InputID req)") (simp_all add: sendTx_def)
  obtain owner where o: "decodeRecipient (reqTo req) = Inr owner"
    using assms i by (cases "decodeRecipient (reqTo req)") (simp_all add: sendTx_def)
  obtain input where v: "ValueAt (nodes w (rtNode rt)) i = Some input"
    using assms i o by (cases "ValueAt (nodes w (rtNode rt)) i") (simp_all add: sendTx_def)
  have a: "\<not> Amount input < reqAmount req" and u: "Unit input = reqUnit req"
    using assms i o v by (simp_all add: sendTx_def split: if_splits)
  obtain priv where p: "map_of (devKeys rt) i = Some priv"
    using assms i o v a u by (cases "map_of (devKeys rt) i") (simp_all add: sendTx_def)
  let ?tx = "dev_transfer (hP H) (clock (nodes w (rtNode rt))) priv input req owner"
  have "AcceptLocalTransfer (hEnv H) k w (rtNode rt) ?tx = Some (w', Inr ())
     \<and> rep = \<lparr>stTxID = encodeHash (ComputeTransferID (hP H) ?tx),
          stStatus = Status (finality_or_zero (nodes w' (rtNode rt)) (ComputeTransferID (hP H) ?tx)),
          stConfidence = Confidence (finality_or_zero (nodes w' (rtNode rt)) (ComputeTransferID (hP H) ?tx))\<rparr>"
    using assms i o v a u p by (simp add: sendTx_def Let_def split: option.splits sum.splits prod.splits)
  then show thesis using i o v a u p by (intro that) (simp_all add: not_less)
qed

lemma dev_transfer_simps [simp]:
  "Inputs (dev_transfer P now priv input req owner) = [vID input]"
  "Timestamp (dev_transfer P now priv input req owner) = now"
  by (simp_all add: dev_transfer_def Let_def)

lemma sendTx_returns:
  assumes "world_inv (hEnv H) w" and "sender (nodes w (rtNode rt)) \<noteq> None"
  shows "\<exists>w' res. sendTx H k rt w req = Some (w', res)"
proof (cases "\<exists>i owner input priv. decodeHash (InputID req) = Inr i \<and> decodeRecipient (reqTo req) = Inr owner
    \<and> ValueAt (nodes w (rtNode rt)) i = Some input \<and> \<not> Amount input < reqAmount req
    \<and> Unit input = reqUnit req \<and> map_of (devKeys rt) i = Some priv")
  case True
  then obtain i owner input priv where c: "decodeHash (InputID req) = Inr i" "decodeRecipient (reqTo req) = Inr owner"
    "ValueAt (nodes w (rtNode rt)) i = Some input" "\<not> Amount input < reqAmount req"
    "Unit input = reqUnit req" "map_of (devKeys rt) i = Some priv" by blast
  obtain w' q where "AcceptLocalTransfer (hEnv H) k w (rtNode rt)
      (dev_transfer (hP H) (clock (nodes w (rtNode rt))) priv input req owner) = Some (w', q)"
    using accept_returns[OF assms(1)] assms(2) by blast
  then show ?thesis using c by (cases q) (simp_all add: sendTx_def Let_def)
next
  case False
  then show ?thesis by (fastforce simp: sendTx_def split: sum.split option.split)
qed

lemma ControlService_returns:
  assumes "world_inv (hEnv H) w" and "sender (nodes w (rtNode rt)) \<noteq> None" and "world_maps w"
  shows "\<exists>w' res. ControlService H k rt w req = Some (w', res)
     \<and> ((\<exists>r. req = RpcSendTx r) \<or> w' = w \<and> ((\<exists>i. req = RpcShowTx i) \<or> (\<exists>rep. res = Inr rep)))"
proof (cases req)
  case (RpcSendTx r)
  then show ?thesis using sendTx_returns[OF assms(1,2), of k r] by (auto simp: ControlService_def)
next
  case RpcFinality
  have "maps_wf (nodes w (rtNode rt))" "fin_inv {} (nodes w (rtNode rt))"
    using assms(1,3) by (simp_all add: world_maps_def world_inv_def node_inv_def)
  then obtain es where "FinalityEntries (nodes w (rtNode rt)) = Inr es" by (rule FinalityEntries_view)
  then show ?thesis using RpcFinality by (simp add: ControlService_def finalityState_reply_def)
qed (simp_all add: ControlService_def)

section \<open>What a success leaves behind\<close>

lemma sendTx_spends:
  assumes ok: "machine_ok H m" and r: "mRuntimes m r = Some rt"
    and s: "sendTx H k rt (mWorld m) req = Some (w', Inr rep)"
  shows "decodeHash (InputID req) = Inr (vID (seededValue rt))"
    and "vID (seededValue rt) \<in> consumed_set (inputTracker (nodes w' r))"
    and "vID (seededValue rt) \<notin> consumed_set (inputTracker (nodes (mWorld m) r))"
proof -
  note inv = machine_okD[OF ok] and o = machine_okD(3)[OF ok r]
  obtain i owner input priv where d: "decodeHash (InputID req) = Inr i"
      "ValueAt (nodes (mWorld m) (rtNode rt)) i = Some input" "map_of (devKeys rt) i = Some priv"
    and a: "AcceptLocalTransfer (hEnv H) k (mWorld m) (rtNode rt)
           (dev_transfer (hP H) (clock (nodes (mWorld m) (rtNode rt))) priv input req owner) = Some (w', Inr ())"
    by (rule sendTx_success[OF s])
  have i: "i = vID (seededValue rt)" "rtNode rt = r" using d(3) o by (auto simp: rt_ok_def split: if_splits)
  have v: "vID input = i"
    using core_invD(3)[OF node_invD(1)[OF inv(4)[of r]]] d(2) i(2) by (simp add: val_inv_def ValueAt_def)
  obtain tk where tk: "ConsumeInputs (inputTracker (nodes (mWorld m) r)) [i] = Inr tk"
    using AcceptLocal_ok(2)[OF a] i(2) v by auto
  have c: "{i} \<subseteq> consumed_set (inputTracker (nodes w' r))"
    using AcceptLocal_stores(2)[OF inv(1) AcceptLocal_ok(1)[OF a] _ a] tk i(2) v by simp
  show "decodeHash (InputID req) = Inr (vID (seededValue rt))" using d(1) i(1) by simp
  show "vID (seededValue rt) \<in> consumed_set (inputTracker (nodes w' r))" using c i(1) by simp
  show "vID (seededValue rt) \<notin> consumed_set (inputTracker (nodes (mWorld m) r))"
    using ConsumeInputs_spent[of "[i]" "inputTracker (nodes (mWorld m) r)"] tk i(1) by auto
qed

text \<open>Once the developer value is spent, every request to send fails and changes nothing.\<close>

lemma sendTx_refused:
  assumes ok: "machine_ok H m" and r: "mRuntimes m r = Some rt"
    and spent: "vID (seededValue rt) \<in> consumed_set (inputTracker (nodes (mWorld m) r))"
  shows "\<exists>e. sendTx H k rt (mWorld m) req = Some (mWorld m, Inl e)"
proof -
  note inv = machine_okD[OF ok] and o = machine_okD(3)[OF ok r]
  have n: "rtNode rt = r" using o by (simp add: rt_ok_def)
  obtain w' res where s: "sendTx H k rt (mWorld m) req = Some (w', res)"
    using sendTx_returns[OF inv(1)] o by (metis rt_ok_def)
  have "\<exists>e. AcceptLocalTransfer (hEnv H) k (mWorld m) r (dev_transfer P t priv v q owner) = Some (mWorld m, Inl e)"
    if "map_of (devKeys rt) i = Some priv" "ValueAt (nodes (mWorld m) r) i = Some v" for P t priv v q owner i
  proof -
    have "i = vID (seededValue rt)" using that(1) o by (auto simp: rt_ok_def split: if_splits)
    then have "vID v = vID (seededValue rt)"
      using core_invD(3)[OF node_invD(1)[OF inv(4)[of r]]] that(2) by (simp add: val_inv_def ValueAt_def)
    then show ?thesis using ConsumeInputs_spent[of "[vID v]"] spent by (intro AcceptLocal_rejected) simp
  qed
  note rej = this
  show ?thesis
  proof (cases res)
    case (Inr rep)
    then show ?thesis using sendTx_spends(3)[OF ok r] s spent by blast
  next
    case (Inl e)
    have "w' = mWorld m"
      using s Inl rej n
      by (auto simp: sendTx_def Let_def split: sum.splits option.splits if_splits) (metis option.inject prod.inject)+
    then show ?thesis using s Inl by simp
  qed
qed

lemma dev_transfer_outputs:
  "Outputs (dev_transfer P now priv input req owner) =
     [\<lparr>vID = ComputeValueID P \<lparr>vID = zero_hash, Amount = reqAmount req, Unit = reqUnit req, Owner = owner,
         Expiry = Expiry input, Depth = Depth input + 1\<rparr>,
       Amount = reqAmount req, Unit = reqUnit req, Owner = owner, Expiry = Expiry input, Depth = Depth input + 1\<rparr>]"
  by (simp add: dev_transfer_def Let_def)

lemma dev_transfer_sig:
  "Sig (dev_transfer P now priv input req owner) = SignCanonicalTransfer P priv (dev_transfer P now priv input req owner)"
proof -
  obtain x :: transfer where "dev_transfer P now priv input req owner = x\<lparr>Sig := SignCanonicalTransfer P priv x\<rparr>"
    unfolding dev_transfer_def Let_def by blast
  then show ?thesis by (simp add: SignCanonicalTransfer_def)
qed

text \<open>A new transfer, once accepted, is stored as it was submitted; nothing else is.\<close>

lemma accept_stores_tx:
  assumes inv: "world_inv E w" and f: "sender (nodes w a) = Some f"
    and v: "validateTransfer (crypt E) (nodes w a) (normalizeTransfer (crypt E) x) = Inr ()"
    and c: "ConsumeInputs (inputTracker (nodes w a)) (Inputs x) = Inr tk"
    and new: "txs (nodes w a) (ComputeTransferID (crypt E) x) = None"
  obtains w' r where "AcceptLocalTransfer E k w a x = Some (w', r)" and "(\<forall>p m. f p m = None) \<longrightarrow> r = Inr ()"
    and "txs (nodes w' a) = (txs (nodes w a))(ComputeTransferID (crypt E) x \<mapsto> normalizeTransfer (crypt E) x)"
proof -
  obtain m where m: "same_links ((nodes w a)\<lparr>inputTracker := tk\<rparr>) m"
    "txs m = (txs (nodes w a))(ComputeTransferID (crypt E) x \<mapsto> normalizeTransfer (crypt E) x)"
    "AcceptLocalTransfer E k w a x = broadcastINV E (send (OnMessage E k)) (put w a m) a 30
        (ComputeTransferID (crypt E) x) (peerIDsExcept m [])"
    using AcceptLocal_accepted[OF inv v c, of k] new by (metis (no_types))
  have "sender (nodes (put w a m) a) = Some f" using f m(1) by (simp add: same_links_def)
  from broadcast_returns[OF this, of E "OnMessage E k"] obtain w' r s where
    b: "broadcastINV E (send (OnMessage E k)) (put w a m) a 30 (ComputeTransferID (crypt E) x) (peerIDsExcept m [])
      = Some (w', r)" "(\<forall>p m. f p m = None) \<longrightarrow> r = Inr ()" "nodes w' a = m\<lparr>sent := s\<rparr>" by fastforce
  have "txs (nodes w' a) = txs m" by (simp add: b(3) txs_def fun_eq_iff)
  then show thesis using that[of w' r] b m(2,3) by simp
qed

lemma only_candidate_lineage:
  assumes inv: "node_inv P n" and only: "txs n = [t \<mapsto> x]" and i: "i \<in> set (Inputs x)"
  shows "selected_on n i = Some t"
proof -
  have c: "set (cset n i) = {t}"
  proof (rule set_eqI)
    fix u
    have "u \<in> set (cset n i) \<longleftrightarrow> (\<exists>y. txs n u = Some y \<and> i \<in> set (Inputs y))"
      by (rule conf_invD(1)[OF core_invD(2)[OF node_invD(1)[OF inv]]])
    then show "u \<in> set (cset n i) \<longleftrightarrow> u \<in> {t}" using i only by simp
  qed
  then have "cset n i \<noteq> []" by (metis empty_iff insertI1 list.set(1))
  then obtain u where "selected_on n i = Some u" using node_invD(2)[OF inv] unfolding sel_inv_def by blast
  moreover from this have "u \<in> set (cset n i)" using node_invD(2)[OF inv] unfolding sel_inv_def by blast
  ultimately show ?thesis using c by simp
qed

lemma only_candidate_selected:
  assumes inv: "node_inv P n" and only: "txs n = [t \<mapsto> x]"
  shows "\<exists>s. FinalityForTransfer n t = Some s \<and> (Status s = StatusSelected \<or> Status s = StatusFinal)"
proof -
  have "selected_on n i = Some t" if "i \<in> set (Inputs x)" for i
    by (rule only_candidate_lineage[OF inv only that])
  then have "selected_everywhere n t x" by (simp add: selected_everywhere_def)
  moreover have "status_agrees n t x" using node_invD(3)[OF inv] only by (simp add: fin_inv_def)
  ultimately show ?thesis by (auto simp: status_agrees_def FinalityForTransfer_def)
qed

section \<open>The first transfer of a runtime\<close>

lemma length_copy_public [simp]: "length (copy_public k) = 32"
  by (simp add: copy_public_def)

lemma dev_value_simps [simp]:
  "Amount (dev_value H i) = defaultDevAmount" "Unit (dev_value H i) = ''WEB4''"
  "Owner (dev_value H i) = fst (developerKeys H i)" "Expiry (dev_value H i) = defaultValueExpiry"
  by (simp_all add: dev_value_def Let_def)

lemma length_dev_key [simp]: "length (fst (developerKeys H i)) = 32"
  by (simp add: developerKeys_def Let_def)

lemma first_transfer_valid:
  fixes H :: host and config :: runtime_config and req :: send_tx_request and now :: int64 and f
  defines "n \<equiv> SetSender (start_node H now config) f"
  assumes "sint now < 1800000000"
    and "\<And>msg. ed25519_Verify (hP H) (fst (developerKeys H (cfgID config))) msg
           (ed25519_Sign (hP H) (snd (developerKeys H (cfgID config))) msg)"
  shows "validateTransfer (hP H) n (normalizeTransfer (hP H)
      (dev_transfer (hP H) now' (snd (developerKeys H (cfgID config))) (dev_value H (cfgID config)) req owner)) = Inr ()"
proof -
  let ?v = "dev_value H (cfgID config)" and ?priv = "snd (developerKeys H (cfgID config))"
  let ?x = "dev_transfer (hP H) now' ?priv ?v req owner" and ?y = "normalizeTransfer (hP H)
      (dev_transfer (hP H) now' (snd (developerKeys H (cfgID config))) (dev_value H (cfgID config)) req owner)"
  have n: "valueStore n = [(vID ?v, ?v)]" "clock n = now"
    by (simp_all add: n_def SetSender_def start_node_simps)
  have "sint defaultValueExpiry = 1800000000" "defaultValueExpiry \<noteq> 0" by (simp_all add: defaultValueExpiry_def)
  then have e: "checkExpiry (clock n) 0 (Outputs ?y) = Inr ()"
    using assms(2) by (simp add: dev_transfer_outputs n)
  have k: "fst (developerKeys H (cfgID config)) \<noteq> []"
    by (metis length_dev_key list.size(3) zero_neq_numeral)
  have r: "resolveSigner n (Inputs ?y) = Inr (fst (developerKeys H (cfgID config)))"
    using k by (simp add: resolveSigner_def n)
  have "Sig ?y = SignCanonicalTransfer (hP H) ?priv ?x"
    by (simp add: dev_transfer_sig del: dev_transfer_outputs)
  then have s: "VerifyCanonicalTransfer (hP H) (fst (developerKeys H (cfgID config))) ?y (Sig ?y)"
    using assms(3) by (simp add: VerifyCanonicalTransfer_def SignCanonicalTransfer_def)
  show ?thesis unfolding validateTransfer_iff using e r s by (simp add: dev_transfer_outputs)
qed

end
