(* ===== verification/Cli_Flags.thy ===== *)
theory Cli_Flags
  imports Cli_Text
begin

text \<open>
  What the commands use of Go's packages \<open>flag\<close> and \<open>strconv\<close>: \<open>FlagSet.Parse\<close> for flags that take a
  value, and \<open>ParseUint(s, 0, 64)\<close>, by which a \<open>uint64\<close> flag reads its value. Every error of \<open>Parse\<close>
  is None: the commands answer all of them with their usage text.
\<close>

section \<open>Unsigned numbers (strconv.ParseUint with base 0)\<close>

definition lower_code :: "char \<Rightarrow> nat" where
  "lower_code c = of_char c OR 32"

definition digit_code :: "char \<Rightarrow> nat option" where
  "digit_code c =
     (let n = of_char c :: nat; l = lower_code c
      in if 48 \<le> n \<and> n \<le> 57 then Some (n - 48)
         else if 97 \<le> l \<and> l \<le> 122 then Some (l - 87)
         else None)"

fun uint_loop :: "nat \<Rightarrow> nat \<Rightarrow> string \<Rightarrow> nat option" where
  "uint_loop base n [] = Some n"
| "uint_loop base n (c # s) =
     (if c = CHR ''_'' then uint_loop base n s
      else case digit_code c of
             None \<Rightarrow> None
           | Some d \<Rightarrow>
               if base \<le> d \<or> 2 ^ 64 \<le> n * base + d then None else uint_loop base (n * base + d) s)"

text \<open>\<open>underscoreOK\<close>: the state is \<open>^\<close> at the start, \<open>0\<close> after a digit, \<open>_\<close>, or \<open>!\<close>.\<close>

fun underscore_loop :: "bool \<Rightarrow> char \<Rightarrow> string \<Rightarrow> bool" where
  "underscore_loop hex i [] = (i \<noteq> CHR ''_'')"
| "underscore_loop hex i (c # s) =
     (let n = of_char c :: nat
      in if 48 \<le> n \<and> n \<le> 57 \<or> hex \<and> 97 \<le> lower_code c \<and> lower_code c \<le> 102
         then underscore_loop hex (CHR ''0'') s
         else if c = CHR ''_'' then (if i \<noteq> CHR ''0'' then False else underscore_loop hex (CHR ''_'') s)
         else if i = CHR ''_'' then False
         else underscore_loop hex (CHR ''!'') s)"

definition has_prefix :: "char \<Rightarrow> nat \<Rightarrow> string \<Rightarrow> bool" where
  "has_prefix c n s = (n \<le> length s \<and> s ! 0 = CHR ''0'' \<and> lower_code (s ! 1) = of_char c)"

definition underscoreOK :: "string \<Rightarrow> bool" where
  "underscoreOK s =
     (if has_prefix (CHR ''b'') 2 s \<or> has_prefix (CHR ''o'') 2 s \<or> has_prefix (CHR ''x'') 2 s
      then underscore_loop (has_prefix (CHR ''x'') 2 s) (CHR ''0'') (drop 2 s)
      else underscore_loop False (CHR ''^'') s)"

definition ParseUint :: "string \<Rightarrow> uint64 option" where
  "ParseUint s =
     (if s = [] then None
      else
        let (base, digits) =
              (if s ! 0 \<noteq> CHR ''0'' then (10, s)
               else if has_prefix (CHR ''b'') 3 s then (2, drop 2 s)
               else if has_prefix (CHR ''o'') 3 s then (8, drop 2 s)
               else if has_prefix (CHR ''x'') 3 s then (16, drop 2 s)
               else (8, drop 1 s))
        in case uint_loop base 0 digits of
             None \<Rightarrow> None
           | Some n \<Rightarrow> if CHR ''_'' \<in> set digits \<and> \<not> underscoreOK s then None else Some (of_nat n))"

section \<open>Flags (flag.FlagSet)\<close>

text \<open>A flag has a name and sets a field of the record of variables, or refuses the value.\<close>

type_synonym 'r flag_set = "(string \<times> (string \<Rightarrow> 'r \<Rightarrow> 'r option)) list"

definition flag_name :: "string \<Rightarrow> string" where
  "flag_name s = (if s ! 1 = CHR ''-'' then drop 2 s else drop 1 s)"

definition cut_value :: "string \<Rightarrow> string \<times> string option" where
  "cut_value name =
     (let key = takeWhile (\<lambda>c. c \<noteq> CHR ''='') name
      in (key, if length key < length name then Some (drop (length key + 1) name) else None))"

fun Parse :: "'r flag_set \<Rightarrow> 'r \<Rightarrow> string list \<Rightarrow> ('r \<times> string list) option" where
  "Parse fs r [] = Some (r, [])"
| "Parse fs r (s # args) =
     (if length s < 2 \<or> s ! 0 \<noteq> CHR ''-'' then Some (r, s # args)
      else if s = ''--'' then Some (r, args)
      else
        let name = flag_name s
        in if name = [] \<or> name ! 0 = CHR ''-'' \<or> name ! 0 = CHR ''='' then None
           else
             (case cut_value name of
                (key, value) \<Rightarrow>
               (case map_of fs key of
                  None \<Rightarrow> None
                | Some setter \<Rightarrow>
                    (case value of
                       Some v \<Rightarrow> (case setter v r of None \<Rightarrow> None | Some r \<Rightarrow> Parse fs r args)
                     | None \<Rightarrow>
                         (case args of
                            [] \<Rightarrow> None
                          | v # args \<Rightarrow> (case setter v r of None \<Rightarrow> None | Some r \<Rightarrow> Parse fs r args))))))"

section \<open>Numbers round-trip\<close>

lemma digit_char: "n < 10 \<Longrightarrow> digit_code (char_of (48 + n)) = Some n"
proof -
  assume n: "n < 10"
  then have "(of_char (char_of (48 + n)) :: nat) = 48 + n" by simp
  then show ?thesis using n by (simp add: digit_code_def Let_def)
qed

lemma underscore_char: "n < 10 \<Longrightarrow> char_of (48 + n :: nat) \<noteq> CHR ''_''"
proof
  assume n: "n < 10" and "char_of (48 + n) = CHR ''_''"
  then have "(of_char (char_of (48 + n)) :: nat) = of_char (CHR ''_'')" by (simp only:)
  then show False using n by simp
qed

lemma uint_loop_append:
  "uint_loop b n (s @ t) = (case uint_loop b n s of None \<Rightarrow> None | Some m \<Rightarrow> uint_loop b m t)"
  by (induction s arbitrary: n) (auto split: option.split)

lemma uint_loop_dec: "n < 2 ^ 64 \<Longrightarrow> uint_loop 10 0 (dec n) = Some n"
proof (induction n rule: dec.induct)
  case (1 n)
  have d: "n mod 10 < 10" by simp
  show ?case
  proof (cases "n < 10")
    case True
    then show ?thesis using 1(2) digit_char[OF d] underscore_char[OF d] by (simp add: dec.simps[of n])
  next
    case False
    then have ih: "uint_loop 10 0 (dec (n div 10)) = Some (n div 10)" using 1 by simp
    have "n div 10 * 10 + n mod 10 = n" by simp
    then show ?thesis using False ih 1(2) digit_char[OF d] underscore_char[OF d]
      by (subst dec.simps) (simp add: uint_loop_append del: div_mult_mod_eq)
  qed
qed

lemma dec_no_underscore: "CHR ''_'' \<notin> set (dec n)"
proof (induction n rule: dec.induct)
  case (1 n)
  then show ?case using underscore_char[of "n mod 10"] by (subst dec.simps) auto
qed

lemma dec_nonempty [simp]: "dec n \<noteq> []"
  by (subst dec.simps) simp

lemma dec_hd: "0 < n \<Longrightarrow> dec n ! 0 \<noteq> CHR ''0''"
proof (induction n rule: dec.induct)
  case (1 n)
  show ?case
  proof (cases "n < 10")
    case True
    have "char_of (48 + n) \<noteq> CHR ''0''"
    proof
      assume "char_of (48 + n) = CHR ''0''"
      then have "(of_char (char_of (48 + n)) :: nat) = of_char (CHR ''0'')" by (simp only:)
      then show False using True 1(2) by simp
    qed
    then show ?thesis using True by (simp add: dec.simps[of n])
  next
    case False
    then have "dec n ! 0 = dec (n div 10) ! 0" by (subst dec.simps) (simp add: nth_append)
    moreover have "0 < n div 10" using False by simp
    ultimately show ?thesis using 1(1)[OF False] by simp
  qed
qed

lemma ParseUint_dec: "n < 2 ^ 64 \<Longrightarrow> ParseUint (dec n) = Some (of_nat n)"
proof (cases "n = 0")
  case True
  have "dec 0 = ''0''" by code_simp
  then show ?thesis using True by (simp add: ParseUint_def has_prefix_def)
next
  case False
  assume "n < 2 ^ 64"
  then show ?thesis using False dec_hd[of n] uint_loop_dec[of n] dec_no_underscore[of n]
    by (simp add: ParseUint_def)
qed

section \<open>Flags in any order\<close>

text \<open>Arguments of the form \<open>--name value\<close>: the flags are set one after the other.\<close>

definition named :: "'r flag_set \<Rightarrow> string \<times> string \<Rightarrow> bool" where
  "named fs p \<longleftrightarrow> map_of fs (fst p) \<noteq> None \<and> fst p \<noteq> [] \<and> fst p ! 0 \<noteq> CHR ''-'' \<and> CHR ''='' \<notin> set (fst p)"

definition set_flag :: "'r flag_set \<Rightarrow> string \<times> string \<Rightarrow> 'r \<Rightarrow> 'r option" where
  "set_flag fs p r = (case map_of fs (fst p) of None \<Rightarrow> None | Some setter \<Rightarrow> setter (snd p) r)"

fun set_flags :: "'r flag_set \<Rightarrow> (string \<times> string) list \<Rightarrow> 'r \<Rightarrow> 'r option" where
  "set_flags fs [] r = Some r"
| "set_flags fs (p # ps) r = (case set_flag fs p r of None \<Rightarrow> None | Some r \<Rightarrow> set_flags fs ps r)"

definition flag_args :: "(string \<times> string) list \<Rightarrow> string list" where
  "flag_args ps = concat (map (\<lambda>(f, v). [''--'' @ f, v]) ps)"

lemma cut_plain: "CHR ''='' \<notin> set f \<Longrightarrow> cut_value f = (f, None)"
proof -
  assume "CHR ''='' \<notin> set f"
  then have "takeWhile (\<lambda>c. c \<noteq> CHR ''='') f = f" by (auto simp: takeWhile_eq_all_conv)
  then show ?thesis by (simp only: cut_value_def Let_def) simp
qed

lemma Parse_pair:
  assumes "named fs (f, v)"
  shows "Parse fs r ((''--'' @ f) # v # args) =
    (case set_flag fs (f, v) r of None \<Rightarrow> None | Some r \<Rightarrow> Parse fs r args)"
proof -
  have "f ! 0 \<noteq> CHR ''=''" using assms by (cases f) (auto simp: named_def)
  then show ?thesis using assms
    by (auto simp: named_def flag_name_def cut_plain set_flag_def split: option.split)
qed

lemma Parse_flag_args:
  assumes "\<forall>p \<in> set ps. named fs p"
  shows "Parse fs r (flag_args ps) = map_option (\<lambda>r. (r, [])) (set_flags fs ps r)"
  using assms
proof (induction ps arbitrary: r)
  case Nil
  show ?case by (simp add: flag_args_def)
next
  case (Cons p ps)
  obtain f v where p: "p = (f, v)" by fastforce
  have "flag_args (p # ps) = (''--'' @ f) # v # flag_args ps" by (simp add: flag_args_def p)
  then show ?case using Cons Parse_pair[of fs f v r "flag_args ps"] p
    by (auto split: option.split)
qed

end
