(* ===== verification/Cli_Commands.thy ===== *)
theory Cli_Commands
  imports Cli_Requests Cli_Flags
begin

text \<open>
  The commands of \<open>internal/cli/cli.go\<close>: they parse their flags, call the runtime behind the control
  socket and print the reply. A command returns the machine, what it has written and its error.
\<close>

type_synonym 'a cmd_result = "('a \<times> string \<times> error option) option"

text \<open>\<open>fmt.Errorf("usage: " + text)\<close> is \<open>UsageError text\<close>.\<close>

definition nl :: string where
  "nl = [CHR 0x0A]"

section \<open>Printing\<close>

definition print_status :: "status_reply \<Rightarrow> string" where
  "print_status s =
     ''node_id: '' @ sID s @ nl
   @ ''listen: '' @ sListen s @ nl
   @ ''peer_count: '' @ dec (sPeerCount s) @ nl
   @ ''tx_store_count: '' @ dec (sTransferCount s) @ nl
   @ ''conflict_set_count: '' @ dec (sConflictSetCount s) @ nl
   @ ''selected_lineage_count: '' @ dec (sSelectedLineageCount s) @ nl"

definition print_started :: "status_reply \<Rightarrow> string" where
  "print_started s =
     ''node started'' @ nl
   @ ''id: '' @ sID s @ nl
   @ ''listen: '' @ sListen s @ nl
   @ ''peers: '' @ dec (sPeerCount s) @ nl
   @ ''control: '' @ sControlPath s @ nl
   @ ''seeded_value: '' @ sSeededValueID s @ nl
   @ ''seeded_owner: '' @ sSeededOwner s @ nl"

definition print_sent :: "send_tx_reply \<Rightarrow> string" where
  "print_sent r =
     ''tx_id: '' @ stTxID r @ nl
   @ ''status: '' @ stStatus r @ nl
   @ ''confidence: '' @ dec_float 2 (stConfidence r) @ nl"

definition print_value :: "value_info \<Rightarrow> string" where
  "print_value v =
     viID v @ '' amount='' @ dec (unat (viAmount v)) @ '' unit='' @ viUnit v @ '' owner='' @ viOwner v
   @ '' expiry='' @ dec_int (sint (viExpiry v)) @ '' depth='' @ dec_int (sint (viDepth v)) @ nl"

definition print_shown :: "show_tx_reply \<Rightarrow> string" where
  "print_shown r =
     ''tx_id: '' @ shTxID r @ nl
   @ ''inputs:'' @ nl @ concat (map (\<lambda>i. ''  '' @ i @ nl) (shInputs r))
   @ ''outputs:'' @ nl @ concat (map (\<lambda>v. ''  value_id='' @ print_value v) (shOutputs r))
   @ ''status: '' @ shStatus r @ nl
   @ ''confidence: '' @ dec_float 2 (shConfidence r) @ nl"

definition print_selected :: "selected_info list \<Rightarrow> string" where
  "print_selected es = concat (map (\<lambda>e. siInputID e @ '' -> '' @ siTxID e @ nl) es)"

definition print_finality :: "finality_info list \<Rightarrow> string" where
  "print_finality es =
     concat (map (\<lambda>e. fiTxID e @ '' confidence='' @ dec_float 2 (fiConfidence e)
                      @ '' status='' @ fiStatus e @ nl) es)"

fun join_words :: "string list \<Rightarrow> string" where
  "join_words [] = []"
| "join_words [w] = w"
| "join_words (w # ws) = w @ '' '' @ join_words ws"

definition print_conflicts :: "conflict_info list \<Rightarrow> string" where
  "print_conflicts es = concat (map (\<lambda>e. ciInputID e @ '': '' @ join_words (ciTxIDs e) @ nl) es)"

definition print_values :: "value_info list \<Rightarrow> string" where
  "print_values vs = concat (map print_value vs)"

section \<open>Commands over the control socket\<close>

definition control_flag :: "string flag_set" where
  "control_flag = [(''control'', \<lambda>v control. Some v)]"

definition parseControlOnlyArgs :: "string \<Rightarrow> string list \<Rightarrow> error + string \<times> string list" where
  "parseControlOnlyArgs usage args =
     (case Parse control_flag [] args of None \<Rightarrow> Inl (UsageError usage) | Some r \<Rightarrow> Inr r)"

text \<open>Dial the socket, call, print the reply; the client is closed in the end.\<close>

definition ask ::
  "host \<Rightarrow> nat \<Rightarrow> string \<Rightarrow> rpc_request \<Rightarrow> (rpc_reply \<Rightarrow> string) \<Rightarrow> machine \<Rightarrow> machine cmd_result" where
  "ask H fuel control req print m =
     (case dialControlClient (clientControlSocketPath (sockEnv H) (tmpDir H) control) m of
        Inl e \<Rightarrow> Some (m, [], Some e)
      | Inr r \<Rightarrow>
          (case client_call H fuel r req m of
             None \<Rightarrow> None
           | Some (m, Inl e) \<Rightarrow> Some (m, [], Some e)
           | Some (m, Inr reply) \<Rightarrow> Some (m, print reply, None)))"

text \<open>The commands without arguments of their own.\<close>

definition plain_command ::
  "host \<Rightarrow> nat \<Rightarrow> string \<Rightarrow> rpc_request \<Rightarrow> (rpc_reply \<Rightarrow> string) \<Rightarrow> string list \<Rightarrow> machine \<Rightarrow> machine cmd_result" where
  "plain_command H fuel usage req print args m =
     (case parseControlOnlyArgs usage args of
        Inl e \<Rightarrow> Some (m, [], Some e)
      | Inr (control, remaining) \<Rightarrow>
          if remaining \<noteq> [] then Some (m, [], Some (UsageError usage))
          else ask H fuel control req print m)"

definition runNodeStatus :: "host \<Rightarrow> nat \<Rightarrow> string list \<Rightarrow> machine \<Rightarrow> machine cmd_result" where
  "runNodeStatus H fuel = plain_command H fuel ''web4 node status [--control <path>]'' RpcStatus
     (\<lambda>reply. case reply of StatusReply s \<Rightarrow> print_status s | _ \<Rightarrow> [])"

definition runStateSelected :: "host \<Rightarrow> nat \<Rightarrow> string list \<Rightarrow> machine \<Rightarrow> machine cmd_result" where
  "runStateSelected H fuel = plain_command H fuel ''web4 state selected [--control <path>]'' RpcSelected
     (\<lambda>reply. case reply of SelectedReply es \<Rightarrow> print_selected es | _ \<Rightarrow> [])"

definition runStateFinality :: "host \<Rightarrow> nat \<Rightarrow> string list \<Rightarrow> machine \<Rightarrow> machine cmd_result" where
  "runStateFinality H fuel = plain_command H fuel ''web4 state finality [--control <path>]'' RpcFinality
     (\<lambda>reply. case reply of FinalityReply es \<Rightarrow> print_finality es | _ \<Rightarrow> [])"

definition runStateConflicts :: "host \<Rightarrow> nat \<Rightarrow> string list \<Rightarrow> machine \<Rightarrow> machine cmd_result" where
  "runStateConflicts H fuel = plain_command H fuel ''web4 state conflicts [--control <path>]'' RpcConflicts
     (\<lambda>reply. case reply of ConflictsReply es \<Rightarrow> print_conflicts es | _ \<Rightarrow> [])"

definition runStateValues :: "host \<Rightarrow> nat \<Rightarrow> string list \<Rightarrow> machine \<Rightarrow> machine cmd_result" where
  "runStateValues H fuel = plain_command H fuel ''web4 state values [--control <path>]'' RpcValues
     (\<lambda>reply. case reply of ValuesReply vs \<Rightarrow> print_values vs | _ \<Rightarrow> [])"

definition runTxShow :: "host \<Rightarrow> nat \<Rightarrow> string list \<Rightarrow> machine \<Rightarrow> machine cmd_result" where
  "runTxShow H fuel args m =
     (let usage = ''web4 tx show [--control <path>] <tx_id>''
      in case parseControlOnlyArgs usage args of
           Inl e \<Rightarrow> Some (m, [], Some e)
         | Inr (control, remaining) \<Rightarrow>
             if length remaining \<noteq> 1 then Some (m, [], Some (UsageError usage))
             else ask H fuel control (RpcShowTx (remaining ! 0))
                    (\<lambda>reply. case reply of ShowTxReply r \<Rightarrow> print_shown r | _ \<Rightarrow> []) m)"

section \<open>tx send\<close>

record tx_send_flags =
  fControl :: string
  fRequest :: send_tx_request

definition tx_send_flag_set :: "tx_send_flags flag_set" where
  "tx_send_flag_set =
     [(''control'', \<lambda>v f. Some (f\<lparr>fControl := v\<rparr>)),
      (''input'', \<lambda>v f. Some (f\<lparr>fRequest := (fRequest f)\<lparr>InputID := v\<rparr>\<rparr>)),
      (''amount'', \<lambda>v f. map_option (\<lambda>n. f\<lparr>fRequest := (fRequest f)\<lparr>reqAmount := n\<rparr>\<rparr>) (ParseUint v)),
      (''unit'', \<lambda>v f. Some (f\<lparr>fRequest := (fRequest f)\<lparr>reqUnit := v\<rparr>\<rparr>)),
      (''to'', \<lambda>v f. Some (f\<lparr>fRequest := (fRequest f)\<lparr>reqTo := v\<rparr>\<rparr>))]"

definition no_flags :: tx_send_flags where
  "no_flags = \<lparr>fControl = [], fRequest = \<lparr>InputID = [], reqAmount = 0, reqUnit = [], reqTo = []\<rparr>\<rparr>"

definition runTxSend :: "host \<Rightarrow> nat \<Rightarrow> string list \<Rightarrow> machine \<Rightarrow> machine cmd_result" where
  "runTxSend H fuel args m =
     (let usage = UsageError (''web4 tx send [--control <path>] --input <value_id> --amount <n> ''
                    @ ''--unit <unit> --to <pubkey_hex>'')
      in case Parse tx_send_flag_set no_flags args of
           None \<Rightarrow> Some (m, [], Some usage)
         | Some (f, rest) \<Rightarrow>
             let req = fRequest f
             in if InputID req = [] \<or> reqAmount req = 0 \<or> reqUnit req = [] \<or> reqTo req = [] \<or> rest \<noteq> []
                then Some (m, [], Some usage)
                else ask H fuel (fControl f) (RpcSendTx req)
                       (\<lambda>reply. case reply of SendTxReply r \<Rightarrow> print_sent r | _ \<Rightarrow> []) m)"

section \<open>node start\<close>

record node_start_flags =
  nsID :: string
  nsListen :: string
  nsControl :: string
  nsPeers :: "string list"

definition stringListSet :: "string \<Rightarrow> string list \<Rightarrow> string list" where
  "stringListSet v f = f @ [v]"

definition node_start_flag_set :: "node_start_flags flag_set" where
  "node_start_flag_set =
     [(''id'', \<lambda>v f. Some (f\<lparr>nsID := v\<rparr>)),
      (''listen'', \<lambda>v f. Some (f\<lparr>nsListen := v\<rparr>)),
      (''control'', \<lambda>v f. Some (f\<lparr>nsControl := v\<rparr>)),
      (''peer'', \<lambda>v f. Some (f\<lparr>nsPeers := stringListSet v (nsPeers f)\<rparr>))]"

text \<open>What the operating system does for a start of a runtime; see \<open>startManagedRuntime\<close>.\<close>

record start_inputs =
  siSys :: sys_calls
  siNow :: int64
  siListen :: "error + string"
  siSend :: "peer_id \<Rightarrow> message \<Rightarrow> error option"
  siRegister :: "error option"

text \<open>
  \<open>shell\<close> is the session of an interactive shell with its runtime, if any. A command outside a shell
  goes on with \<open>Wait\<close>, below, once its runtime is up.
\<close>

record shell_session =
  shRuntime :: "nat option"

definition runNodeStart ::
  "host \<Rightarrow> start_inputs \<Rightarrow> string list \<Rightarrow> shell_session option \<Rightarrow> machine
     \<Rightarrow> machine \<times> string \<times> (error + nat)" where
  "runNodeStart H os args shell m =
     (let usage = UsageError (''web4 node start --id <id> --listen <addr> [--peer <addr>] '' @ ''[--control <path>]'')
      in case Parse node_start_flag_set \<lparr>nsID = [], nsListen = [], nsControl = [], nsPeers = []\<rparr> args of
           None \<Rightarrow> (m, [], Inl usage)
         | Some (f, rest) \<Rightarrow>
             if nsID f = [] \<or> nsListen f = [] then (m, [], Inl usage)
             else if rest \<noteq> [] then (m, [], Inl usage)
             else if shell \<noteq> None \<and> shRuntime (the shell) \<noteq> None then (m, [], Inl NodeAlreadyStarted)
             else
               let config = \<lparr>cfgID = nsID f, cfgListen = nsListen f, cfgPeers = nsPeers f,
                     cfgControlPath = startControlSocketPath (sockEnv H) (tmpDir H) (nsControl f) (nsID f)\<rparr>
               in case startManagedRuntime H (siSys os) (siNow os) (siListen os) (siSend os) (siRegister os)
                         config m of
                    (m, Inl e) \<Rightarrow> (m, [], Inl e)
                  | (m, Inr r) \<Rightarrow>
                      (case mRuntimes m r of
                         None \<Rightarrow> (m, [], Inl PanicNilDeref)
                       | Some rt \<Rightarrow> (m, print_started (Status_reply rt (mWorld m)), Inr r)))"

text \<open>\<open>Wait\<close>, from the signal on, with the errors of the calls \<open>Close\<close> makes.\<close>

definition Wait ::
  "error option \<Rightarrow> error option \<Rightarrow> error option \<Rightarrow> managed_runtime \<Rightarrow> machine \<Rightarrow> machine \<times> string \<times> error option" where
  "Wait controlErr transportErr removeErr rt m =
     (case closeRuntime controlErr transportErr removeErr rt m of
        (m, err) \<Rightarrow> (m, ''shutting down'' @ nl, err))"

end
