(* ===== verification/Cli_Demo.thy ===== *)
theory Cli_Demo
  imports Cli_Commands
begin

text \<open>
  The demonstrations of \<open>internal/cli/demo.go\<close> on networks of nodes in one process: three nodes at
  the addresses 0, 1 and 2 of a world, a value they all know, transfers and proof requests. A
  demonstration returns what it has printed and its error. The wall clock at the start, which only
  the replay caches read, is the argument \<open>wall\<close>.

  \<open>RunDemoTCPBasic\<close>, which runs the nodes on real transports and waits for them, is in \<open>Cli_Demo_Tcp\<close>.
\<close>

section \<open>The network and its values\<close>

definition basicNetwork :: "int64 \<Rightarrow> int64 \<Rightarrow> world \<Rightarrow> world" where
  "basicNetwork wall now w =
     (let a = SetNowFunc (NewNode ''A'' wall) now;
          b = SetNowFunc (NewNode ''B'' wall) now;
          c = SetNowFunc (NewNode ''C'' wall) now;
          a = AddPeer a (nodeID b) 1;
          a = AddPeer a (nodeID c) 2;
          b = AddPeer b (nodeID a) 0;
          c = AddPeer c (nodeID a) 0
      in put (put (put w 0 a) 1 b) 2 c)"

definition ownerKeys :: "host \<Rightarrow> byte \<Rightarrow> bytes \<times> bytes" where
  "ownerKeys H seed =
     (let seedBytes = replicate 32 seed; priv = keyFromSeed H seedBytes in (copy_public priv, priv))"

fun seed_all :: "prims \<Rightarrow> nat list \<Rightarrow> web4_value \<Rightarrow> world \<Rightarrow> world" where
  "seed_all P [] v w = w"
| "seed_all P (a # as) v w = seed_all P as v (put w a (SeedValue P (nodes w a) v))"

definition seedKnownInput :: "host \<Rightarrow> nat list \<Rightarrow> byte \<Rightarrow> uint64 \<Rightarrow> world \<Rightarrow> world \<times> web4_value \<times> bytes" where
  "seedKnownInput H as seed amount w =
     (let (pub, priv) = ownerKeys H seed;
          input = \<lparr>vID = zero_hash, Amount = amount, Unit = ''WEB4'', Owner = pub,
                   Expiry = 1800000000, Depth = 0\<rparr>;
          input = input\<lparr>vID := ComputeValueID (hP H) input\<rparr>
      in (seed_all (hP H) as input w, input, priv))"

definition signedTransfer :: "prims \<Rightarrow> web4_value \<Rightarrow> bytes \<Rightarrow> uint64 \<Rightarrow> byte \<Rightarrow> transfer" where
  "signedTransfer P input priv amount recipientSeed =
     (let output = \<lparr>vID = zero_hash, Amount = amount, Unit = Unit input, Owner = replicate 32 recipientSeed,
                    Expiry = 1800000000, Depth = Depth input + 1\<rparr>;
          output = output\<lparr>vID := ComputeValueID P output\<rparr>;
          tx = \<lparr>tID = zero_hash, Inputs = [vID input], Outputs = [output], Sig = [], Timestamp = 1700000000\<rparr>
      in tx\<lparr>Sig := SignCanonicalTransfer P priv tx\<rparr>)"

section \<open>Looking at the nodes\<close>

fun find_sent :: "sent_message list \<Rightarrow> peer_id \<Rightarrow> 64 word \<Rightarrow> message option" where
  "find_sent [] to msgType = None"
| "find_sent (s # ss) to msgType =
     (if To s = to \<and> mType (sMessage s) = msgType then Some (sMessage s) else find_sent ss to msgType)"

definition findSentMessage :: "node \<Rightarrow> peer_id \<Rightarrow> 64 word \<Rightarrow> message option" where
  "findSentMessage n to msgType = find_sent (SentMessages n) to msgType"

definition sortHashes :: "hash list \<Rightarrow> hash list" where
  "sortHashes values = sort values"

definition ProofWeightForTransfer :: "env \<Rightarrow> node \<Rightarrow> hash \<Rightarrow> f64" where
  "ProofWeightForTransfer E n txID = proofWeight E n txID"

text \<open>The result of a demonstration: what it has printed when it ends, and its error.\<close>

type_synonym report = "string \<times> error option"

text \<open>The selected transfer of each node with its status, and without; a node has a label and an address.\<close>

fun report_selected :: "bool \<Rightarrow> world \<Rightarrow> hash \<Rightarrow> (string \<times> nat) list \<Rightarrow> string \<Rightarrow> report" where
  "report_selected statuses w i [] out = (out, None)"
| "report_selected statuses w i ((label, a) # as) out =
     (case SelectedForInput (nodes w a) i of
        None \<Rightarrow> (out, Some (DemoError (''missing selected lineage on node '' @ label)))
      | Some selectedID \<Rightarrow>
          if statuses then
            (case FinalityForTransfer (nodes w a) selectedID of
               None \<Rightarrow> (out, Some (DemoError (''missing finality state on node '' @ label)))
             | Some state \<Rightarrow>
                 report_selected statuses w i as (out @ ''  Node '' @ label @ '' -> ''
                   @ shortHash selectedID @ '' ('' @ Status state @ '')'' @ nl))
          else report_selected statuses w i as
                 (out @ ''  Node '' @ label @ '' -> '' @ shortHash selectedID @ nl))"

definition named_nodes :: "world \<Rightarrow> nat list \<Rightarrow> (string \<times> nat) list" where
  "named_nodes w as = map (\<lambda>a. (nodeID (nodes w a), a)) as"

section \<open>demo basic\<close>

text \<open>INV, GET and TX have gone back and forth between \<open>a\<close> and each of the peers.\<close>

fun check_exchange :: "world \<Rightarrow> nat \<Rightarrow> (peer_id \<times> nat) list \<Rightarrow> error option" where
  "check_exchange w a [] = None"
| "check_exchange w a ((p, b) # ps) =
     (if findSentMessage (nodes w a) p INV = None then Some (DemoError (''missing INV from A to '' @ p))
      else if findSentMessage (nodes w b) ''A'' GET = None
        then Some (DemoError (''missing GET from '' @ p @ '' to A''))
      else if findSentMessage (nodes w a) p TX = None then Some (DemoError (''missing TX from A to '' @ p))
      else check_exchange w a ps)"

definition print_exchange :: "hash \<Rightarrow> peer_id \<Rightarrow> string" where
  "print_exchange txID peer =
     ''[A -> '' @ peer @ ''] INV '' @ shortHash txID @ nl
   @ ''['' @ peer @ '' -> A] GET '' @ shortHash txID @ nl
   @ ''[A -> '' @ peer @ ''] TX '' @ shortHash txID @ nl
   @ ''['' @ peer @ ''] accepted tx '' @ shortHash txID @ nl"

definition RunDemoBasic :: "host \<Rightarrow> nat \<Rightarrow> int64 \<Rightarrow> world \<Rightarrow> (world \<times> report) option" where
  "RunDemoBasic H fuel wall w =
     (let w = basicNetwork wall 100 w;
          (w, input, priv) = seedKnownInput H [0, 1, 2] 1 25 w;
          tx = signedTransfer (hP H) input priv 25 11;
          txID = ComputeTransferID (hP H) tx
      in case AcceptLocalTransfer (hEnv H) fuel w 0 tx of
           None \<Rightarrow> None
         | Some (w, Inl e) \<Rightarrow> Some (w, [], Some e)
         | Some (w, Inr _) \<Rightarrow>
             (case check_exchange w 0 [(''B'', 1), (''C'', 2)] of
                Some e \<Rightarrow> Some (w, [], Some e)
              | None \<Rightarrow>
                  let out = ''[A] created tx: '' @ shortHash txID @ nl
                          @ print_exchange txID ''B'' @ print_exchange txID ''C''
                          @ ''Final selected state:'' @ nl
                  in Some (w, report_selected True w (vID input) (named_nodes w [0, 1, 2]) out)))"

section \<open>demo conflict\<close>

text \<open>A snapshot has the score; a nil record of the ranking would be a panic.\<close>

fun report_tx_scores :: "env \<Rightarrow> world \<Rightarrow> nat \<Rightarrow> hash \<Rightarrow> hash list \<Rightarrow> string \<Rightarrow> report" where
  "report_tx_scores E w a i [] out = (out, None)"
| "report_tx_scores E w a i (t # ts) out =
     (case SelectionForInputTx E (nodes w a) i t of
        Inl e \<Rightarrow> (out, Some e)
      | Inr None \<Rightarrow> (out, Some (DemoError (''missing selection snapshot on node '' @ nodeID (nodes w a))))
      | Inr (Some s) \<Rightarrow>
          report_tx_scores E w a i ts (out @ ''    '' @ shortHash t @ '' = '' @ dec_float 6 (snScore s) @ nl))"

fun report_scores :: "env \<Rightarrow> world \<Rightarrow> hash \<Rightarrow> hash list \<Rightarrow> nat list \<Rightarrow> string \<Rightarrow> report" where
  "report_scores E w i ts [] out = (out, None)"
| "report_scores E w i ts (a # as) out =
     (case report_tx_scores E w a i ts (out @ ''  Node '' @ nodeID (nodes w a) @ '':'' @ nl) of
        (out, Some e) \<Rightarrow> (out, Some e)
      | (out, None) \<Rightarrow> report_scores E w i ts as out)"

definition RunDemoConflict :: "host \<Rightarrow> nat \<Rightarrow> int64 \<Rightarrow> world \<Rightarrow> (world \<times> report) option" where
  "RunDemoConflict H fuel wall w =
     (let w = basicNetwork wall 100 w;
          w = put w 1 (AddPeer (nodes w 1) (nodeID (nodes w 2)) 2);
          w = put w 2 (AddPeer (nodes w 2) (nodeID (nodes w 1)) 1);
          (w, input, priv) = seedKnownInput H [0, 1, 2] 2 50 w;
          tx1 = signedTransfer (hP H) input priv 25 21;
          tx2 = signedTransfer (hP H) input priv 40 22;
          tx1ID = ComputeTransferID (hP H) tx1;
          tx2ID = ComputeTransferID (hP H) tx2
      in case AcceptLocalTransfer (hEnv H) fuel w 0 tx1 of
           None \<Rightarrow> None
         | Some (w, Inl e) \<Rightarrow> Some (w, [], Some e)
         | Some (w, Inr _) \<Rightarrow>
        (case AcceptLocalTransfer (hEnv H) fuel w 1 tx2 of
           None \<Rightarrow> None
         | Some (w, Inl e) \<Rightarrow> Some (w, [], Some e)
         | Some (w, Inr _) \<Rightarrow>
             let out = ''Conflict detected on input '' @ shortHash (vID input) @ '':'' @ nl
                     @ concat (map (\<lambda>t. ''  tx: '' @ shortHash t @ nl)
                         (sortHashes (ConflictSet (nodes w 0) (vID input))))
                     @ nl @ ''Scores:'' @ nl
             in case report_scores (hEnv H) w (vID input) [tx1ID, tx2ID] [0, 1, 2] out of
                  (out, Some e) \<Rightarrow> Some (w, out, Some e)
                | (out, None) \<Rightarrow>
                    Some (w, report_selected False w (vID input) (named_nodes w [0, 1, 2]) (out @ nl @ ''Selected:'' @ nl))))"

section \<open>demo proof\<close>

definition demo_response :: "node \<Rightarrow> peer_id \<Rightarrow> error + proof_response_payload" where
  "demo_response n peerID =
     (case findSentMessage n ''A'' PROOF_RESP of
        None \<Rightarrow> Inl (DemoError (''missing PROOF_RESP from '' @ peerID))
      | Some msg \<Rightarrow> DecodeProofResponsePayload (Payload msg))"

definition print_response :: "peer_id \<Rightarrow> proof_response_payload \<Rightarrow> string" where
  "print_response p r =
     ''  Peer '' @ p @ '' -> seen='' @ show_bool (pSeen r) @ '' conflict='' @ show_bool (pConflict r)
   @ '' distance='' @ dec_int (sint (pDistance r)) @ '' seen_time='' @ dec_int (sint (pSeenTime r)) @ nl"

definition RunDemoProof :: "host \<Rightarrow> nat \<Rightarrow> int64 \<Rightarrow> world \<Rightarrow> (world \<times> report) option" where
  "RunDemoProof H fuel wall w =
     (let E = hEnv H;
          w = basicNetwork wall 100 w;
          w = put w 1 (AddPeer (nodes w 1) (nodeID (nodes w 2)) 2);
          w = put w 2 (AddPeer (nodes w 2) (nodeID (nodes w 1)) 1);
          (w, input, priv) = seedKnownInput H [0, 1, 2] 3 100000 w;
          tx = signedTransfer (hP H) input priv 100000 31;
          txID = ComputeTransferID (hP H) tx
      in case AcceptLocalTransfer E fuel w 1 tx of
           None \<Rightarrow> None
         | Some (w, Inl e) \<Rightarrow> Some (w, [], Some e)
         | Some (w, Inr _) \<Rightarrow>
        (let w = put w 0 (SetNowFunc (nodes w 0) 140);
             w = put w 1 (SetNowFunc (nodes w 1) 140);
             w = put w 2 (SetNowFunc (nodes w 2) 140)
         in case FinalityForTransfer (nodes w 0) txID of
              None \<Rightarrow> Some (w, [], Some (DemoError ''missing pre-proof finality state''))
            | Some before \<Rightarrow>
        (let proofBefore = ProofWeightForTransfer E (nodes w 0) txID;
             reqToB = NewProofRequestMessage (nextID E w) 140 30 txID;
             w = tick w;
             reqToC = NewProofRequestMessage (nextID E w) 140 30 txID;
             w = tick w
         in case OnMessage E fuel w 1 ''A'' reqToB of
              None \<Rightarrow> None
            | Some (w, Inl e) \<Rightarrow> Some (w, [], Some e)
            | Some (w, Inr _) \<Rightarrow>
        (case OnMessage E fuel w 2 ''A'' reqToC of
              None \<Rightarrow> None
            | Some (w, Inl e) \<Rightarrow> Some (w, [], Some e)
            | Some (w, Inr _) \<Rightarrow>
        (case demo_response (nodes w 1) ''B'' of
              Inl e \<Rightarrow> Some (w, [], Some e)
            | Inr rb \<Rightarrow>
        (case demo_response (nodes w 2) ''C'' of
              Inl e \<Rightarrow> Some (w, [], Some e)
            | Inr rc \<Rightarrow>
        (case FinalityForTransfer (nodes w 0) txID of
              None \<Rightarrow> Some (w, [], Some (DemoError ''missing post-proof finality state''))
            | Some after \<Rightarrow>
                Some (w,
                  ''Proof responses:'' @ nl @ print_response ''B'' rb @ print_response ''C'' rc
                  @ nl @ ''Proof weight:'' @ nl
                  @ ''  before = '' @ dec_float 2 proofBefore @ nl
                  @ ''  after  = '' @ dec_float 2 (ProofWeightForTransfer E (nodes w 0) txID) @ nl
                  @ nl @ ''Confidence:'' @ nl
                  @ ''  before = '' @ dec_float 2 (Confidence before) @ nl
                  @ ''  after  = '' @ dec_float 2 (Confidence after) @ nl
                  @ nl @ ''Finality: '' @ Status after @ nl, None))))))))"

end
