(* ===== verification/Cli_Demo_Tcp.thy ===== *)
theory Cli_Demo_Tcp
  imports Cli_Demo
begin

text \<open>
  \<open>RunDemoTCPBasic\<close> (\<open>internal/cli/demo.go\<close>): the nodes of \<open>RunDemoBasic\<close>, each on a TCP transport of its
  own. The goroutines of the transports hand messages to the nodes while the demonstration sleeps
  between two looks at a node: what they do then is an argument, and so are the answers of the network.
\<close>

section \<open>Nodes on transports\<close>

record tcp_demo_node =
  tdLabel :: string
  tdNode :: nat
  tdTr :: tcp
  tdAddr :: string

text \<open>
  For the transport of each node: what \<open>net.Listen\<close> answers, what \<open>Send\<close> returns, what happens during
  the sleeps until the deadline of the wait for this node, and the error of \<open>Close\<close>.
\<close>

record tcp_demo_io =
  dioListen :: "nat \<Rightarrow> error + string"
  dioSend :: "nat \<Rightarrow> peer_id \<Rightarrow> message \<Rightarrow> error option"
  dioSleeps :: "nat \<Rightarrow> (world \<Rightarrow> world) list"
  dioClose :: "nat \<Rightarrow> error option"

fun attach_all :: "tcp_demo_io \<Rightarrow> tcp_demo_node list \<Rightarrow> world \<Rightarrow> world \<times> tcp_demo_node list \<times> error option" where
  "attach_all io [] w = (w, [], None)"
| "attach_all io (c # cs) w =
     (let a = tdNode c;
          (tp, started) = Start True (dioListen io a) (tdTr c);
          (n, r) = AttachNode (nodes w a) (dioSend io a) (case started of Inl e \<Rightarrow> Some e | Inr _ \<Rightarrow> None);
          w = put w a n;
          c = c\<lparr>tdTr := tp\<rparr>
      in case r of
           Inl e \<Rightarrow> (w, c # cs, Some e)
         | Inr _ \<Rightarrow>
             let (w, cs, e) = attach_all io cs w in (w, c\<lparr>tdAddr := Addr tp\<rparr> # cs, e))"

definition closeTCPDemoNodes :: "tcp_demo_io \<Rightarrow> tcp_demo_node list \<Rightarrow> tcp_demo_node list \<times> error option" where
  "closeTCPDemoNodes io cs =
     (map (\<lambda>c. c\<lparr>tdTr := fst (CloseBegin (tdTr c))\<rparr>) cs,
      fold (\<lambda>c firstErr. first_error firstErr (dioClose io (tdNode c))) (rev cs) None)"

text \<open>The deadline has passed when no sleep is left.\<close>

fun waitForTCPTransfer :: "(world \<Rightarrow> world) list \<Rightarrow> nat \<Rightarrow> hash \<Rightarrow> world \<Rightarrow> world \<times> error option" where
  "waitForTCPTransfer [] a txID w =
     (w, Some (DemoError (''timed out waiting for transfer '' @ shortHash txID)))"
| "waitForTCPTransfer (sleep # sleeps) a txID w =
     (if HasTransfer (nodes w a) txID then (w, None) else waitForTCPTransfer sleeps a txID (sleep w))"

fun check_tcp_exchange :: "world \<Rightarrow> nat \<Rightarrow> peer_id \<Rightarrow> tcp_demo_node list \<Rightarrow> error option" where
  "check_tcp_exchange w a aAddr [] = None"
| "check_tcp_exchange w a aAddr (p # ps) =
     (if findSentMessage (nodes w a) (tdAddr p) INV = None
        then Some (DemoError (''missing INV from A to '' @ tdLabel p))
      else if findSentMessage (nodes w (tdNode p)) aAddr GET = None
        then Some (DemoError (''missing GET from '' @ tdLabel p @ '' to A''))
      else if findSentMessage (nodes w a) (tdAddr p) TX = None
        then Some (DemoError (''missing TX from A to '' @ tdLabel p))
      else check_tcp_exchange w a aAddr ps)"

section \<open>The demonstration\<close>

definition tcp_demo_nodes :: "string list \<Rightarrow> tcp_demo_node list" where
  "tcp_demo_nodes listenAddrs =
     [\<lparr>tdLabel = ''A'', tdNode = 0, tdTr = NewTCPTransport (listenAddrs ! 0), tdAddr = []\<rparr>,
      \<lparr>tdLabel = ''B'', tdNode = 1, tdTr = NewTCPTransport (listenAddrs ! 1), tdAddr = []\<rparr>,
      \<lparr>tdLabel = ''C'', tdNode = 2, tdTr = NewTCPTransport (listenAddrs ! 2), tdAddr = []\<rparr>]"

definition tcp_demo_world :: "int64 \<Rightarrow> world \<Rightarrow> world" where
  "tcp_demo_world wall w =
     put (put (put w 0 (SetNowFunc (NewNode ''A'' wall) 100)) 1 (SetNowFunc (NewNode ''B'' wall) 100))
       2 (SetNowFunc (NewNode ''C'' wall) 100)"

definition add_peer_id :: "nat \<Rightarrow> peer_id \<Rightarrow> world \<Rightarrow> world" where
  "add_peer_id a p w = put w a (AddPeerID (nodes w a) p)"

text \<open>From \<open>AddPeerID\<close> on, with the three nodes attached.\<close>

definition tcp_demo_body ::
  "host \<Rightarrow> nat \<Rightarrow> tcp_demo_io \<Rightarrow> tcp_demo_node \<Rightarrow> tcp_demo_node \<Rightarrow> tcp_demo_node \<Rightarrow> world \<Rightarrow> (world \<times> report) option" where
  "tcp_demo_body H fuel io a b c w =
     (let w = add_peer_id 0 (tdAddr b) w;
          w = add_peer_id 0 (tdAddr c) w;
          w = add_peer_id 1 (tdAddr a) w;
          w = add_peer_id 2 (tdAddr a) w;
          (w, input, priv) = seedKnownInput H [0, 1, 2] 1 25 w;
          tx = signedTransfer (hP H) input priv 25 11;
          txID = ComputeTransferID (hP H) tx
      in case AcceptLocalTransfer (hEnv H) fuel w 0 tx of
           None \<Rightarrow> None
         | Some (w, Inl e) \<Rightarrow> Some (w, [], Some e)
         | Some (w, Inr _) \<Rightarrow>
        (case waitForTCPTransfer (dioSleeps io 1) 1 txID w of
           (w, Some e) \<Rightarrow> Some (w, [], Some e)
         | (w, None) \<Rightarrow>
        (case waitForTCPTransfer (dioSleeps io 2) 2 txID w of
           (w, Some e) \<Rightarrow> Some (w, [], Some e)
         | (w, None) \<Rightarrow>
        (case check_tcp_exchange w 0 (tdAddr a) [b, c] of
           Some e \<Rightarrow> Some (w, [], Some e)
         | None \<Rightarrow>
             let out = ''[TCP BASIC]'' @ nl
                     @ concat (map (\<lambda>n. ''['' @ tdLabel n @ ''] listening on '' @ tdAddr n @ nl) [a, b, c]) @ nl
                     @ ''[A] created tx: '' @ shortHash txID @ nl
                     @ print_exchange txID ''B'' @ print_exchange txID ''C''
                     @ nl @ ''Final selected state:'' @ nl
             in Some (w, report_selected True w (vID input) (map (\<lambda>n. (tdLabel n, tdNode n)) [a, b, c]) out)))))"

text \<open>The deferred function closes the transports; its error counts only if there is no other.\<close>

definition runDemoTCPBasic ::
  "host \<Rightarrow> nat \<Rightarrow> int64 \<Rightarrow> tcp_demo_io \<Rightarrow> string list \<Rightarrow> world \<Rightarrow> (world \<times> tcp_demo_node list \<times> report) option" where
  "runDemoTCPBasic H fuel wall io listenAddrs w =
     (if length listenAddrs \<noteq> 3
      then Some (w, [], [], Some (DemoError ''tcp-basic requires 3 listen addresses''))
      else
        let (w, cs, attached) = attach_all io (tcp_demo_nodes listenAddrs) (tcp_demo_world wall w);
            res = (case attached of
                     Some e \<Rightarrow> Some (w, [], Some e)
                   | None \<Rightarrow> tcp_demo_body H fuel io (cs ! 0) (cs ! 1) (cs ! 2) w);
            (cs, closeErr) = closeTCPDemoNodes io cs
        in map_option (\<lambda>(w, out, err). (w, cs, out, if err = None \<and> closeErr \<noteq> None then closeErr else err)) res)"

definition RunDemoTCPBasic :: "host \<Rightarrow> nat \<Rightarrow> int64 \<Rightarrow> tcp_demo_io \<Rightarrow> world \<Rightarrow> (world \<times> report) option" where
  "RunDemoTCPBasic H fuel wall io w =
     map_option (\<lambda>(w, cs, out, err). (w, out, err))
       (runDemoTCPBasic H fuel wall io [''127.0.0.1:9101'', ''127.0.0.1:9102'', ''127.0.0.1:9103''] w)"

section \<open>The command\<close>

definition runDemoCommand ::
  "host \<Rightarrow> nat \<Rightarrow> int64 \<Rightarrow> tcp_demo_io \<Rightarrow> string list \<Rightarrow> world \<Rightarrow> (world \<times> report) option" where
  "runDemoCommand H fuel wall io args w =
     (if length args \<noteq> 1 then Some (w, [], Some (UsageError ''web4 demo [basic|conflict|proof|tcp-basic]''))
      else if args ! 0 = ''basic'' then RunDemoBasic H fuel wall w
      else if args ! 0 = ''conflict'' then RunDemoConflict H fuel wall w
      else if args ! 0 = ''proof'' then RunDemoProof H fuel wall w
      else if args ! 0 = ''tcp-basic'' then RunDemoTCPBasic H fuel wall io w
      else Some (w, [], Some (UnknownCommand (''unknown demo: '' @ args ! 0))))"

end
