(* ===== verification/Cli_Shell.thy ===== *)
theory Cli_Shell
  imports Cli_Demo_Tcp
begin

text \<open>
  The dispatch of commands (\<open>internal/cli/cli.go\<close>) and the interactive shell (\<open>internal/cli/repl.go\<close>).
  The line editor is a third-party package: what \<open>Readline\<close> returns, call by call, is an argument,
  together with what the operating system answers while the line is carried out.
\<close>

section \<open>Commands\<close>

text \<open>What a command may find outside.\<close>

record surroundings =
  oStart :: start_inputs
  oFuel :: nat
  oRemove :: "error option"
  oTcpDemo :: tcp_demo_io

text \<open>A command returns, besides the machine, its output and its error, the runtime it has started.\<close>

type_synonym command_result = "(machine \<times> string \<times> error option \<times> nat option) option"

definition no_runtime :: "machine cmd_result \<Rightarrow> command_result" where
  "no_runtime res = map_option (\<lambda>(m, out, e). (m, out, e, None)) res"

definition runNodeCommand ::
  "host \<Rightarrow> surroundings \<Rightarrow> string list \<Rightarrow> shell_session option \<Rightarrow> machine \<Rightarrow> command_result" where
  "runNodeCommand H os args shell m =
     (if args = [] then Some (m, [], Some (UsageError ''web4 node [start|status]''), None)
      else if args ! 0 = ''start'' then
        (case runNodeStart H (oStart os) (drop 1 args) shell m of
           (m, out, Inl e) \<Rightarrow> Some (m, out, Some e, None)
         | (m, out, Inr r) \<Rightarrow> Some (m, out, None, Some r))
      else if args ! 0 = ''status'' then no_runtime (runNodeStatus H (oFuel os) (drop 1 args) m)
      else Some (m, [], Some (UnknownCommand (''unknown node command: '' @ args ! 0)), None))"

definition runTxCommand :: "host \<Rightarrow> surroundings \<Rightarrow> string list \<Rightarrow> machine \<Rightarrow> machine cmd_result" where
  "runTxCommand H os args m =
     (if args = [] then Some (m, [], Some (UsageError ''web4 tx [send|show]''))
      else if args ! 0 = ''send'' then runTxSend H (oFuel os) (drop 1 args) m
      else if args ! 0 = ''show'' then runTxShow H (oFuel os) (drop 1 args) m
      else Some (m, [], Some (UnknownCommand (''unknown tx command: '' @ args ! 0))))"

definition runStateCommand :: "host \<Rightarrow> surroundings \<Rightarrow> string list \<Rightarrow> machine \<Rightarrow> machine cmd_result" where
  "runStateCommand H os args m =
     (if args = [] then Some (m, [], Some (UsageError ''web4 state [selected|finality|conflicts|values]''))
      else if args ! 0 = ''selected'' then runStateSelected H (oFuel os) (drop 1 args) m
      else if args ! 0 = ''finality'' then runStateFinality H (oFuel os) (drop 1 args) m
      else if args ! 0 = ''conflicts'' then runStateConflicts H (oFuel os) (drop 1 args) m
      else if args ! 0 = ''values'' then runStateValues H (oFuel os) (drop 1 args) m
      else Some (m, [], Some (UnknownCommand (''unknown state command: '' @ args ! 0))))"

text \<open>
  A demonstration works on nodes of its own, which the runtimes of the machine never see: the model
  gives it a world of its own.
\<close>

definition demo_world :: "int64 \<Rightarrow> world" where
  "demo_world wall = \<lparr>nodes = (\<lambda>_. NewNode [] wall), rng = 0\<rparr>"

definition executeCommand ::
  "host \<Rightarrow> surroundings \<Rightarrow> string list \<Rightarrow> shell_session option \<Rightarrow> machine \<Rightarrow> command_result" where
  "executeCommand H os args shell m =
     (if args ! 0 = ''demo'' then
        map_option (\<lambda>(w, out, e). (m, out, e, None))
          (runDemoCommand H (oFuel os) (siNow (oStart os)) (oTcpDemo os) (drop 1 args)
             (demo_world (siNow (oStart os))))
      else if args ! 0 = ''node'' then runNodeCommand H os (drop 1 args) shell m
      else if args ! 0 = ''tx'' then no_runtime (runTxCommand H os (drop 1 args) m)
      else if args ! 0 = ''state'' then no_runtime (runStateCommand H os (drop 1 args) m)
      else Some (m, [], Some (UnknownCommand (''unknown command: '' @ args ! 0)), None))"

section \<open>The shell\<close>

text \<open>What \<open>Readline\<close> returns: a line, \<open>ErrInterrupt\<close>, \<open>io.EOF\<close> or another error.\<close>

datatype read_line = Line string | Interrupted | EndOfInput | ReadFailed error

text \<open>What the shell prints: text, or an error with its message.\<close>

datatype shell_out = Text string | ErrorLine error | ClearScreen

text \<open>How it stands: it goes on reading, or it has returned, with an error or without.\<close>

datatype shell_end = Reading | Returned_shell "error option"

definition web4Banner :: string where
  "web4Banner =
     ''__        ________ ____  _  _'' @ nl
   @ [CHR 0x5C] @ '' '' @ [CHR 0x5C] @ ''      / / ____// __ '' @ [CHR 0x5C] @ ''| || |'' @ nl
   @ '' '' @ [CHR 0x5C] @ '' '' @ [CHR 0x5C] @ '' /'' @ [CHR 0x5C] @ '' / / __/  / /_/ /| || |_'' @ nl
   @ ''  '' @ [CHR 0x5C] @ '' V  V / /___ / _, _/ |__   _|'' @ nl
   @ ''   '' @ [CHR 0x5C] @ ''_/'' @ [CHR 0x5C] @ ''_/_____/ /_/ |_|    |_|'' @ nl"

definition shellHelpText :: string where
  "shellHelpText =
     ''Commands:'' @ nl
   @ ''  node start --id <id> --listen <addr> [--peer <addr>]'' @ nl
   @ ''  node status'' @ nl
   @ ''  tx send --input <value_id> --amount <n> --unit <unit> --to <pubkey_hex>'' @ nl
   @ ''  tx show <tx_id>'' @ nl
   @ ''  state selected'' @ nl
   @ ''  state finality'' @ nl
   @ ''  state conflicts'' @ nl
   @ ''  state values'' @ nl
   @ ''  demo basic'' @ nl
   @ ''  demo conflict'' @ nl
   @ ''  demo proof'' @ nl
   @ ''  demo tcp-basic'' @ nl
   @ ''  help'' @ nl
   @ ''  exit'' @ nl"

text \<open>One line: None when the shell is to return, else the machine, the session and what was printed.\<close>

definition shell_line ::
  "host \<Rightarrow> surroundings \<Rightarrow> string \<Rightarrow> shell_session \<Rightarrow> machine
     \<Rightarrow> (machine \<times> shell_session \<times> shell_out list) option option" where
  "shell_line H os line session m =
     (let line = TrimSpace line
      in if line = [] then Some (Some (m, session, []))
         else
           let args = Fields line
           in if args ! 0 = ''help'' then Some (Some (m, session, [Text shellHelpText]))
              else if args ! 0 = ''exit'' \<or> args ! 0 = ''quit'' then Some None
              else if args ! 0 = ''clear'' then Some (Some (m, session, [ClearScreen]))
              else
                (case executeCommand H os args (Some session) m of
                   None \<Rightarrow> None
                 | Some (m, out, e, r) \<Rightarrow>
                     let session = (if r = None then session else session\<lparr>shRuntime := r\<rparr>);
                         printed = Text out # (case e of None \<Rightarrow> [] | Some e \<Rightarrow> [ErrorLine e])
                     in Some (Some (m, session, printed))))"

text \<open>The deferred \<open>Close\<close> of the session's runtime, whose errors are dropped.\<close>

definition close_session :: "error option \<Rightarrow> shell_session \<Rightarrow> machine \<Rightarrow> machine" where
  "close_session removeErr session m =
     (case shRuntime session of
        None \<Rightarrow> m
      | Some r \<Rightarrow> (case mRuntimes m r of None \<Rightarrow> m | Some rt \<Rightarrow> fst (closeRuntime None None removeErr rt m)))"

text \<open>The loop over the lines read; with no more line the shell waits for the next one.\<close>

fun shell_loop ::
  "host \<Rightarrow> shell_session \<Rightarrow> machine \<Rightarrow> (read_line \<times> surroundings) list \<Rightarrow> shell_out list
     \<Rightarrow> (machine \<times> shell_session \<times> shell_out list \<times> shell_end) option" where
  "shell_loop H session m [] out = Some (m, session, out, Reading)"
| "shell_loop H session m ((EndOfInput, os) # rest) out =
     Some (close_session (oRemove os) session m, session, out, Returned_shell None)"
| "shell_loop H session m ((ReadFailed e, os) # rest) out =
     Some (close_session (oRemove os) session m, session, out, Returned_shell (Some e))"
| "shell_loop H session m ((Interrupted, os) # rest) out = shell_loop H session m rest out"
| "shell_loop H session m ((Line line, os) # rest) out =
     (case shell_line H os line session m of
        None \<Rightarrow> None
      | Some None \<Rightarrow> Some (close_session (oRemove os) session m, session, out, Returned_shell None)
      | Some (Some (m, session, printed)) \<Rightarrow> shell_loop H session m rest (out @ printed))"

definition runShell ::
  "host \<Rightarrow> machine \<Rightarrow> (read_line \<times> surroundings) list
     \<Rightarrow> (machine \<times> shell_session \<times> shell_out list \<times> shell_end) option" where
  "runShell H m inputs =
     shell_loop H \<lparr>shRuntime = None\<rparr> m inputs
       [Text web4Banner, Text (''type '' @ [CHR 0x22] @ ''help'' @ [CHR 0x22] @ '' for commands'' @ nl)]"

section \<open>The program (cli.go, cmd/web4/main.go)\<close>

text \<open>How the program ends: as a shell, or with what a command has printed and its error.\<close>

datatype program_end = AsShell "shell_out list" shell_end | AsCommand string "error option"

text \<open>
  \<open>runWithIO\<close>. Outside a shell \<open>node start\<close> goes on with \<open>Wait\<close>: \<open>waiting\<close> is what the machine does until
  the signal, and the deferred \<open>Close\<close> after \<open>Wait\<close> finds the runtime closed.
\<close>

definition runWithIO ::
  "host \<Rightarrow> surroundings \<Rightarrow> (machine \<Rightarrow> machine) \<Rightarrow> error option \<Rightarrow> error option \<Rightarrow> string list \<Rightarrow> machine
     \<Rightarrow> (read_line \<times> surroundings) list \<Rightarrow> (machine \<times> program_end) option" where
  "runWithIO H os waiting controlErr transportErr args m inputs =
     (if args = [] then map_option (\<lambda>(m, session, out, e). (m, AsShell out e)) (runShell H m inputs)
      else
        case executeCommand H os args None m of
          None \<Rightarrow> None
        | Some (m, out, e, None) \<Rightarrow> Some (m, AsCommand out e)
        | Some (m, out, e, Some r) \<Rightarrow>
            let m = waiting m
            in case mRuntimes m r of
                 None \<Rightarrow> Some (m, AsCommand out (Some PanicNilDeref))
               | Some rt \<Rightarrow>
                   (case Wait controlErr transportErr (oRemove os) rt m of
                      (m, printed, err) \<Rightarrow> Some (m, AsCommand (out @ printed) err)))"

text \<open>\<open>main\<close>: the exit status.\<close>

fun exit_status :: "program_end \<Rightarrow> nat option" where
  "exit_status (AsShell out Reading) = None"
| "exit_status (AsShell out (Returned_shell e)) = Some (if e = None then 0 else 1)"
| "exit_status (AsCommand out e) = Some (if e = None then 0 else 1)"

end
