(* ===== verification/Cli_Session.thy ===== *)
theory Cli_Session
  imports Cli_Shell
begin

text \<open>What the commands of a shell do to the machine, and what is left when the shell returns.\<close>

section \<open>Commands are steps of the machine\<close>

text \<open>A request leaves the runtimes and the files alone.\<close>

definition only_world :: "machine \<Rightarrow> machine \<Rightarrow> bool" where
  "only_world m m' \<longleftrightarrow> m' = m\<lparr>mWorld := mWorld m'\<rparr>"

lemma only_worldD:
  assumes "only_world m m'"
  shows "mRuntimes m' = mRuntimes m" and "mFiles m' = mFiles m" and "mNext m' = mNext m"
  using assms unfolding only_world_def by (metis machine.select_convs machine.surjective machine.update_convs(1))+

definition asks :: "host \<Rightarrow> machine \<Rightarrow> machine \<Rightarrow> bool" where
  "asks H m m' \<longleftrightarrow> (machine_step H)\<^sup>*\<^sup>* m m' \<and> only_world m m'"

lemma asks_refl: "asks H m m"
  by (simp add: asks_def only_world_def)

lemma ask_asks: "ask H k control req print m = Some (m', out, e) \<Longrightarrow> asks H m m'"
proof -
  assume a: "ask H k control req print m = Some (m', out, e)"
  show "asks H m m'"
  proof (cases "m' = m")
    case False
    then obtain r res where c: "client_call H k r req m = Some (m', res)"
      using a by (auto simp: ask_def split: sum.splits option.splits prod.splits)
    have "machine_step H m m'" by (rule ms_request[OF c])
    then show ?thesis using client_call_world[OF c] by (simp add: asks_def only_world_def r_into_rtranclp)
  qed (simp add: asks_refl)
qed

lemma plain_command_asks:
  "plain_command H k usage req print args m = Some (m', out, e) \<Longrightarrow> asks H m m'"
  using ask_asks by (auto simp: plain_command_def asks_refl split: sum.splits if_splits)

lemma tx_send_asks: "runTxSend H k args m = Some (m', out, e) \<Longrightarrow> asks H m m'"
  using ask_asks by (auto simp: runTxSend_def Let_def asks_refl split: option.splits if_splits)

lemma tx_show_asks: "runTxShow H k args m = Some (m', out, e) \<Longrightarrow> asks H m m'"
  using ask_asks by (auto simp: runTxShow_def Let_def asks_refl split: sum.splits if_splits)

lemmas plain_commands = runNodeStatus_def runStateSelected_def runStateFinality_def runStateConflicts_def
  runStateValues_def

lemma tx_command_asks: "runTxCommand H os args m = Some (m', out, e) \<Longrightarrow> asks H m m'"
  by (auto simp: runTxCommand_def asks_refl tx_send_asks tx_show_asks split: if_splits)

lemma state_command_asks: "runStateCommand H os args m = Some (m', out, e) \<Longrightarrow> asks H m m'"
  by (auto simp: runStateCommand_def asks_refl plain_commands plain_command_asks split: if_splits)

text \<open>The start of a runtime is one step; in a shell that has a runtime it is refused.\<close>

definition begins :: "host \<Rightarrow> shell_session option \<Rightarrow> machine \<Rightarrow> nat option \<Rightarrow> machine \<Rightarrow> bool" where
  "begins H shell m r m' \<longleftrightarrow> (machine_step H)\<^sup>*\<^sup>* m m' \<and>
     (case r of
        None \<Rightarrow> mRuntimes m' = mRuntimes m
      | Some a \<Rightarrow> (shell \<noteq> None \<longrightarrow> shRuntime (the shell) = None)
          \<and> (\<exists>rt. mRuntimes m' = (mRuntimes m)(a \<mapsto> rt) \<and> \<not> rtClosed rt))"

lemma asks_begins: "asks H m m' \<Longrightarrow> begins H shell m None m'"
  using only_worldD(1) by (auto simp: asks_def begins_def)

lemma runNodeStart_begins:
  assumes "runNodeStart H os args shell m = (m', out, res)"
  shows "begins H shell m (case res of Inl e \<Rightarrow> None | Inr r \<Rightarrow> Some r) m'"
proof (cases "m' = m \<and> (\<exists>e. res = Inl e)")
  case True
  then show ?thesis by (auto simp: begins_def)
next
  case False
  then obtain f rest where p: "Parse node_start_flag_set \<lparr>nsID = [], nsListen = [], nsControl = [], nsPeers = []\<rparr> args
      = Some (f, rest)" using assms by (auto simp: runNodeStart_def Let_def split: option.splits)
  let ?config = "\<lparr>cfgID = nsID f, cfgListen = nsListen f, cfgPeers = nsPeers f,
    cfgControlPath = startControlSocketPath (sockEnv H) (tmpDir H) (nsControl f) (nsID f)\<rparr>"
  let ?start = "startManagedRuntime H (siSys os) (siNow os) (siListen os) (siSend os) (siRegister os) ?config m"
  have free: "shell \<noteq> None \<longrightarrow> shRuntime (the shell) = None"
    using False assms p by (auto simp: runNodeStart_def Let_def split: if_splits)
  obtain m1 q where s: "?start = (m1, q)" by fastforce
  have step: "(machine_step H)\<^sup>*\<^sup>* m m1"
    using ms_start[of H m "siSys os" "siNow os" "siListen os" "siSend os" "siRegister os" ?config] s by auto
  have "(m', out, res) = (case q of Inl e \<Rightarrow> (m1, [], Inl e)
      | Inr r \<Rightarrow> (case mRuntimes m1 r of None \<Rightarrow> (m1, [], Inl PanicNilDeref)
          | Some rt \<Rightarrow> (m1, print_started (Status_reply rt (mWorld m1)), Inr r)))"
    using False assms p s by (auto simp: runNodeStart_def Let_def split: if_splits sum.splits)
  then show ?thesis
    using startManagedRuntime_shape[OF s] step free
    by (auto simp: begins_def started_def split: sum.splits option.splits)
qed

lemma no_runtime_Some: "no_runtime res = Some (m, out, e, r) \<longleftrightarrow> res = Some (m, out, e) \<and> r = None"
  by (auto simp: no_runtime_def)

lemma executeCommand_begins:
  assumes "executeCommand H os args shell m = Some (m', out, e, r)"
  shows "begins H shell m r m'"
proof -
  consider (demo) "args ! 0 = ''demo''" | (node) "args ! 0 = ''node''" | (tx) "args ! 0 = ''tx''"
    | (state) "args ! 0 = ''state''" | (other) "m' = m" "r = None"
    using assms by (auto simp: executeCommand_def split: if_splits)
  then show ?thesis
  proof cases
    case demo
    then have "m' = m" "r = None" using assms by (auto simp: executeCommand_def)
    then show ?thesis using asks_begins[OF asks_refl] by simp
  next
    case node
    then have n: "runNodeCommand H os (drop 1 args) shell m = Some (m', out, e, r)"
      using assms by (simp add: executeCommand_def)
    show ?thesis
    proof (cases "drop 1 args \<noteq> [] \<and> drop 1 args ! 0 = ''start''")
      case True
      obtain m1 out1 q where s: "runNodeStart H (oStart os) (drop 1 (drop 1 args)) shell m = (m1, out1, q)"
        using prod_cases3 by blast
      have "m' = m1" "r = (case q of Inl e \<Rightarrow> None | Inr r \<Rightarrow> Some r)"
        using n True s by (auto simp: runNodeCommand_def split: sum.splits)
      then show ?thesis using runNodeStart_begins[OF s] by simp
    next
      case False
      then have "asks H m m'" "r = None" using n
        by (auto simp: runNodeCommand_def no_runtime_Some asks_refl plain_commands plain_command_asks split: if_splits)
      then show ?thesis using asks_begins by simp
    qed
  next
    case tx
    then show ?thesis using assms by (auto simp: executeCommand_def no_runtime_Some intro: asks_begins tx_command_asks)
  next
    case state
    then show ?thesis using assms
      by (auto simp: executeCommand_def no_runtime_Some intro: asks_begins state_command_asks)
  qed (use asks_begins[OF asks_refl] in simp)
qed

section \<open>Sessions\<close>

text \<open>\<open>m0\<close> is the machine at the start of the shell: all other runtimes are the session's.\<close>

definition session_ok :: "host \<Rightarrow> machine \<Rightarrow> shell_session \<Rightarrow> machine \<Rightarrow> bool" where
  "session_ok H m0 session m \<longleftrightarrow> machine_ok H m
     \<and> (\<forall>r. shRuntime session \<noteq> Some r \<longrightarrow> mRuntimes m r = mRuntimes m0 r)
     \<and> (\<forall>r. shRuntime session = Some r \<longrightarrow> (\<exists>rt. mRuntimes m r = Some rt \<and> \<not> rtClosed rt))"

lemma shell_line_ok:
  assumes "shell_line H os line session m = Some (Some (m', session', printed))" and ok: "session_ok H m0 session m"
  shows "session_ok H m0 session' m'"
proof (cases "m' = m \<and> session' = session")
  case True
  then show ?thesis using ok by simp
next
  case False
  then obtain out e r where x: "executeCommand H os (Fields (TrimSpace line)) (Some session) m = Some (m', out, e, r)"
    and s: "session' = (if r = None then session else session\<lparr>shRuntime := r\<rparr>)"
    using assms(1) by (auto simp: shell_line_def Let_def split: if_splits option.splits prod.splits)
  note b = executeCommand_begins[OF x, unfolded begins_def]
  have "machine_ok H m'" using machine_steps_ok b ok by (auto simp: session_ok_def)
  then show ?thesis using b s ok by (cases r) (auto simp: session_ok_def)
qed

lemma close_session_done:
  assumes ok: "session_ok H m0 session m"
  shows "\<forall>r. mRuntimes (close_session re session m) r \<noteq> mRuntimes m0 r \<longrightarrow>
    (\<exists>rt. mRuntimes (close_session re session m) r = Some rt \<and> rtClosed rt
      \<and> (\<forall>s. map_of (mFiles (close_session re session m)) (rtControlPath rt) \<noteq> Some (LiveSocket s)))"
proof (cases "shRuntime session")
  case None
  then show ?thesis using ok by (simp add: session_ok_def close_session_def)
next
  case (Some r)
  then obtain rt where rt: "mRuntimes m r = Some rt" "\<not> rtClosed rt" using ok by (auto simp: session_ok_def)
  have n: "rtNode rt = r" using machine_okD(3)[of H m r rt] ok rt(1) by (simp add: session_ok_def rt_ok_def)
  have o: "mRuntimes m s = mRuntimes m0 s" if "s \<noteq> r" for s using ok Some that by (simp add: session_ok_def)
  show ?thesis using rt n o Some
    by (auto simp: close_session_def closeRuntime_def Let_def gm.get_del gm.get_put split: if_splits)
qed

lemma shell_loop_closes:
  assumes "shell_loop H session m inputs out = Some (m', session', out', Returned_shell e)"
    and "session_ok H m0 session m"
  shows "\<forall>r. mRuntimes m' r \<noteq> mRuntimes m0 r \<longrightarrow>
    (\<exists>rt. mRuntimes m' r = Some rt \<and> rtClosed rt 
      \<and> (\<forall>s. map_of (mFiles m') (rtControlPath rt) \<noteq> Some (LiveSocket s)))"
  using assms
proof (induction H session m inputs out rule: shell_loop.induct)
  case (5 H session m line os rest out)
  show ?case
  proof (cases "shell_line H os line session m")
    case (Some q)
    show ?thesis
    proof (cases q)
      case None
      then have "m' = close_session (oRemove os) session m" using 5(2) Some by auto
      then show ?thesis using close_session_done[OF 5(3)] by simp
    next
      case (Some t)
      obtain m1 s1 p1 where t: "t = (m1, s1, p1)" using prod_cases3 by blast
      then have l: "shell_line H os line session m = Some (Some (m1, s1, p1))"
        using Some \<open>shell_line H os line session m = Some q\<close> by simp
      then show ?thesis using 5 shell_line_ok[OF l] by auto
    qed
  qed (use 5 in simp)
qed (auto dest: close_session_done)

end
