(* ===== verification/Cli_Hex.thy ===== *)
theory Cli_Hex
  imports Cli_Text
begin

text \<open>Hexadecimal identifiers: what \<open>decodeHash\<close> accepts, and that it reads what \<open>encodeHash\<close> prints.\<close>

section \<open>Digits\<close>

definition lower_hex :: "char \<Rightarrow> char" where
  "lower_hex c = (if 65 \<le> (of_char c :: nat) \<and> (of_char c :: nat) \<le> 70 then char_of ((of_char c :: nat) + 32) else c)"

lemma hex_digit_code:
  assumes "n < 16"
  shows "of_char (hex_digit n) = (if n < 10 then 48 + n else 87 + n)"
proof -
  have "\<forall>n \<in> set [0..<16]. of_char (hex_digit n) = (if n < 10 then 48 + n else 87 + n)" by code_simp
  then show ?thesis using assms by (metis atLeastLessThan_iff less_eq_nat.simps(1) set_upt)
qed

lemma hex_value_digit [simp]: "n < 16 \<Longrightarrow> hex_value (hex_digit n) = Some n"
  by (simp add: hex_value_def hex_digit_code Let_def)

lemma hex_value_bound: "hex_value c = Some n \<Longrightarrow> n < 16"
  by (auto simp: hex_value_def Let_def split: if_splits)

lemma hex_value_lower:
  assumes "hex_value c = Some n"
  shows "lower_hex c = hex_digit n"
proof -
  have n: "n < 16" by (rule hex_value_bound[OF assms])
  have "(of_char (lower_hex c) :: nat) = of_char (hex_digit n)"
    using assms n by (auto simp: hex_value_def lower_hex_def hex_digit_code Let_def split: if_splits)
  then show ?thesis by (simp only: of_char_eq_iff)
qed

lemma lower_hex_value: "lower_hex c = hex_digit n \<Longrightarrow> n < 16 \<Longrightarrow> hex_value c = Some n"
proof -
  assume l: "lower_hex c = hex_digit n" and n: "n < 16"
  then have "of_char (lower_hex c) = (if n < 10 then 48 + n else 87 + n)" by (simp only: hex_digit_code)
  then show ?thesis using n
    by (auto simp: lower_hex_def hex_value_def Let_def of_char_mod_256 split: if_splits)
qed

lemma nibbles: "of_nat (16 * (unat b div 16) + unat b mod 16) = (b :: byte)"
  by (simp del: of_nat_add of_nat_mult)

lemma nibble_bounds [simp]: "unat (b :: byte) div 16 < 16" "unat b mod 16 < 16"
proof -
  have "unat b < 2 ^ LENGTH(8)" by (rule unsigned_less)
  then show "unat b div 16 < 16" by (simp add: less_mult_imp_div_less)
qed simp

lemma joined_nibbles:
  assumes "m < 16" and "n < 16"
  shows "unat (of_nat (16 * m + n) :: byte) = 16 * m + n"
  using assms by (simp add: unat_of_nat take_bit_eq_mod del: of_nat_add of_nat_mult)

section \<open>Hexadecimal strings\<close>

lemma length_EncodeToString [simp]: "length (EncodeToString b) = 2 * length b"
  by (induction b) simp_all

text \<open>Decoding accepts exactly what is, up to the case of the letters, an encoding.\<close>

lemma DecodeString_iff: "DecodeString s = Inr b \<longleftrightarrow> map lower_hex s = EncodeToString b"
proof (induction s arbitrary: b rule: DecodeString.induct)
  case 1
  show ?case by (cases b) auto
next
  case (2 p)
  show ?case by (cases b) (auto split: option.split)
next
  case (3 p q s)
  show ?case
  proof
    assume "DecodeString (p # q # s) = Inr b"
    then obtain m n r where d: "hex_value p = Some m" "hex_value q = Some n" "DecodeString s = Inr r"
      "b = of_nat (16 * m + n) # r" by (auto simp: bindE_Inr_iff split: option.splits)
    then have "m < 16" "n < 16" using hex_value_bound by blast+
    then have "unat (of_nat (16 * m + n) :: byte) div 16 = m" "unat (of_nat (16 * m + n) :: byte) mod 16 = n"
      by (simp_all only: joined_nibbles) simp_all
    then show "map lower_hex (p # q # s) = EncodeToString b"
      using 3[OF d(1,2), of r] d by (simp add: hex_value_lower del: of_nat_add of_nat_mult)
  next
    assume l: "map lower_hex (p # q # s) = EncodeToString b"
    then obtain x r where b: "b = x # r" by (cases b) auto
    then have l': "lower_hex p = hex_digit (unat x div 16)" "lower_hex q = hex_digit (unat x mod 16)"
      "map lower_hex s = EncodeToString r" using l by simp_all
    then have "hex_value p = Some (unat x div 16)" "hex_value q = Some (unat x mod 16)"
      by (simp_all add: lower_hex_value)
    moreover have "DecodeString s = Inr r" using 3[OF calculation, of r] l'(3) by simp
    ultimately show "DecodeString (p # q # s) = Inr b"
      using b nibbles[of x] by (simp del: of_nat_add of_nat_mult)
  qed
qed

lemma lower_hex_digit [simp]: "n < 16 \<Longrightarrow> lower_hex (hex_digit n) = hex_digit n"
  using hex_value_lower by simp

lemma lower_EncodeToString [simp]: "map lower_hex (EncodeToString b) = EncodeToString b"
  by (induction b) simp_all

lemma DecodeString_EncodeToString [simp]: "DecodeString (EncodeToString b) = Inr b"
  by (simp add: DecodeString_iff)

lemma EncodeToString_inj: "EncodeToString a = EncodeToString b \<Longrightarrow> a = b"
  by (metis DecodeString_EncodeToString sum.inject(2))

section \<open>White space\<close>

text \<open>Text whose first and last bytes start or end no white rune is left alone.\<close>

lemma trim_left_none: "white_at ws s = None \<Longrightarrow> trim_left ws s = s"
  by (subst trim_left.simps) simp

lemma white_hd: "white_at ws (c # s) = Some p \<Longrightarrow> c \<in> hd ` set ws"
  by (auto simp: white_at_def find_Some_iff image_iff) (metis list.sel(1) nth_mem take_Suc_Cons take_eq_Nil
      length_0_conv neq_Nil_conv length_Cons)

lemma white_nil: "white_at ws [] = None"
  by (auto simp: white_at_def find_None_iff)

lemma hex_not_white:
  assumes "n < 16"
  shows "hex_digit n \<notin> hd ` set white_runes" and "hex_digit n \<notin> hd ` set (map rev white_runes)"
proof -
  have "\<forall>n \<in> set [0..<16]. hex_digit n \<notin> hd ` set white_runes \<and> hex_digit n \<notin> hd ` set (map rev white_runes)"
    by code_simp
  then show "hex_digit n \<notin> hd ` set white_runes" "hex_digit n \<notin> hd ` set (map rev white_runes)"
    using assms by (metis atLeastLessThan_iff less_eq_nat.simps(1) set_upt)+
qed

lemma EncodeToString_last: "b \<noteq> [] \<Longrightarrow> rev (EncodeToString b) = hex_digit (unat (last b) mod 16) # tl (rev (EncodeToString b))"
proof (induction b)
  case (Cons x b)
  then show ?case by (cases "b = []") (simp, metis EncodeToString.simps(2) append_Cons last_ConsR list.sel(3)
      rev.simps(2))
qed simp

lemma TrimSpace_hex [simp]: "TrimSpace (EncodeToString b) = EncodeToString b"
proof (cases b)
  case (Cons x bs)
  have "white_at white_runes (EncodeToString b) = None"
    using hex_not_white(1)[of "unat x div 16"] white_hd[of white_runes] Cons
    by (cases "white_at white_runes (EncodeToString b)") auto
  moreover have "white_at (map rev white_runes) (rev (EncodeToString b)) = None"
    using hex_not_white(2)[of "unat (last b) mod 16"] white_hd[of "map rev white_runes"]
      EncodeToString_last[of b] Cons
    by (cases "white_at (map rev white_runes) (rev (EncodeToString b))") (metis list.distinct(1) nibble_bounds(2) option.distinct(1))+
  ultimately show ?thesis by (simp add: TrimSpace_def trim_left_none)
qed (simp add: TrimSpace_def trim_left_none white_nil)

section \<open>Identifiers\<close>

lemma decodeHash_encodeHash [simp]: "length h = 32 \<Longrightarrow> decodeHash (encodeHash h) = Inr h"
  by (simp add: decodeHash_def encodeHash_def)

lemma encodeHash_inj: "encodeHash a = encodeHash b \<longleftrightarrow> a = b"
  using EncodeToString_inj by (auto simp: encodeHash_def)

lemma decodeHash_Inr:
  "decodeHash s = Inr h \<longleftrightarrow> length h = 32 \<and> map lower_hex (TrimSpace s) = encodeHash h"
  by (auto simp: decodeHash_def bindE_Inr_iff DecodeString_iff encodeHash_def)

lemma decodeRecipient_Inr:
  "decodeRecipient s = Inr k \<longleftrightarrow> length k = 32 \<and> map lower_hex (TrimSpace s) = EncodeToString k"
  by (auto simp: decodeRecipient_def bindE_Inr_iff DecodeString_iff)

end
