(* ===== verification/Cli_Paths.thy ===== *)
theory Cli_Paths
  imports Cli_Text
begin

text \<open>The control socket of a node lies directly in the directory for temporary files.\<close>

section \<open>Cleaning a path\<close>

definition proper :: "string \<Rightarrow> bool" where
  "proper p \<longleftrightarrow> p \<noteq> [] \<and> p \<noteq> ''.'' \<and> p \<noteq> ''..'' \<and> CHR ''/'' \<notin> set p"

lemma split_path_snoc:
  "CHR ''/'' \<notin> set name \<Longrightarrow> split_path cur (s @ CHR ''/'' # name) = split_path cur s @ [name]"
proof (induction s arbitrary: cur)
  case Nil
  have "CHR ''/'' \<notin> set n \<Longrightarrow> split_path c n = [rev c @ n]" for c n
    by (induction n arbitrary: c) auto
  then show ?case using Nil by simp
qed simp

lemma split_path_single: "CHR ''/'' \<notin> set name \<Longrightarrow> split_path [] name = [name]"
proof -
  have "CHR ''/'' \<notin> set n \<Longrightarrow> split_path c n = [rev c @ n]" for c n
    by (induction n arbitrary: c) auto
  then show "CHR ''/'' \<notin> set name \<Longrightarrow> split_path [] name = [name]" by simp
qed

lemma split_path_parts:
  "CHR ''/'' \<notin> set cur \<Longrightarrow> p \<in> set (split_path cur s) \<Longrightarrow> CHR ''/'' \<notin> set p"
proof (induction s arbitrary: cur)
  case (Cons a s)
  then show ?case using Cons.IH[of "[]"] Cons.IH[of "a # cur"] by (cases "a = CHR ''/''") auto
qed simp

lemma clean_parts_snoc:
  "proper name \<Longrightarrow> clean_parts rooted acc (ps @ [name]) = clean_parts rooted acc ps @ [name]"
  by (induction rooted acc ps rule: clean_parts.induct) (auto simp: proper_def split: list.split)

lemma clean_parts_from:
  "p \<in> set (clean_parts rooted acc ps) \<Longrightarrow> p \<in> set acc \<or> p \<in> set ps \<and> p \<noteq> []"
  by (induction rooted acc ps rule: clean_parts.induct) (auto split: list.splits if_splits)

lemma join_path_snoc: "join_path (ps @ [p]) = (if ps = [] then p else join_path ps @ ''/'' @ p)"
  by (induction ps rule: join_path.induct) auto

lemma join_path_hd: "ps \<noteq> [] \<Longrightarrow> hd ps \<noteq> [] \<Longrightarrow> join_path ps \<noteq> [] \<and> hd (join_path ps) = hd (hd ps)"
  by (cases ps rule: join_path.cases) auto

text \<open>Joining a file name to a directory puts it into the cleaned directory.\<close>

lemma Join_proper:
  assumes "proper name"
  shows "Join dir name =
    (if dir = [] \<or> Clean dir = ''.'' then name else if Clean dir = ''/'' then ''/'' @ name
     else Clean dir @ ''/'' @ name)"
proof (cases "dir = []")
  case True
  have "split_path [] name = [name]" using assms by (simp add: proper_def split_path_single)
  then show ?thesis using True assms by (cases name) (auto simp: Join_def Clean_def proper_def)
next
  case False
  define rooted where "rooted = (take 1 dir = ''/'')"
  define parts where "parts = clean_parts rooted [] (split_path [] dir)"
  have r: "(take 1 (dir @ ''/'' @ name) = ''/'') = rooted" unfolding rooted_def using False by (cases dir) auto
  have p: "clean_parts rooted [] (split_path [] (dir @ ''/'' @ name)) = parts @ [name]"
    unfolding parts_def using assms split_path_snoc[of name "[]" dir] by (simp add: clean_parts_snoc proper_def)
  have j: "Join dir name = (if rooted then ''/'' @ join_path (parts @ [name]) else join_path (parts @ [name]))"
    unfolding Join_def Clean_def r p Let_def using False by simp
  have c: "Clean dir = (if rooted then ''/'' @ join_path parts
      else if parts = [] then ''.'' else join_path parts)" unfolding Clean_def Let_def rooted_def parts_def by simp
  have ne: "q \<noteq> []" "CHR ''/'' \<notin> set q" if "q \<in> set parts" for q
    using clean_parts_from[OF that[unfolded parts_def]] split_path_parts[of "[]" q dir] by auto
  show ?thesis
  proof (cases "parts = []")
    case True
    then show ?thesis using j c False by (simp add: join_path_snoc)
  next
    case ps: False
    then have h: "hd parts \<in> set parts" by simp
    have jh: "join_path parts \<noteq> []" "hd (join_path parts) = hd (hd parts)"
      using join_path_hd[OF ps ne(1)[OF h]] by blast+
    have nd: "join_path parts \<noteq> ''.''"
    proof
      assume d: "join_path parts = ''.''"
      have "''.'' \<notin> set (clean_parts b acc ps)" if "''.'' \<notin> set acc" for b acc ps
        using that by (induction b acc ps rule: clean_parts.induct) (auto split: list.split)
      then have dot: "''.'' \<notin> set parts" unfolding parts_def by simp
      show False
      proof (cases parts rule: join_path.cases)
        case (2 p)
        then show False using d dot by simp
      next
        case (3 p q qs)
        then have "p @ ''/'' @ join_path (q # qs) = ''.''" using d by simp
        then show False by (cases p) (auto simp: append_eq_Cons_conv)
      qed (use ps in simp)
    qed
    have "hd (hd parts) \<noteq> CHR ''/''" using ne[OF h] by (metis list.set_sel(1))
    then have ns: "join_path parts \<noteq> ''/''" using jh by auto
    have "rooted \<Longrightarrow> ''/'' @ join_path parts \<noteq> ''.''" by simp
    then show ?thesis using j c False ps jh(1) nd ns by (simp add: join_path_snoc)
  qed
qed

section \<open>Socket names\<close>

lemma sanitize_plain: "c \<in> set (sanitizeControlSocketID i) \<Longrightarrow> plain_char c"
proof -
  have "c \<in> set (sanitize_runes s) \<Longrightarrow> plain_char c" for s
    by (induction s rule: sanitize_runes.induct) (auto simp: plain_char_def)
  moreover have "c \<in> set ''cli'' \<Longrightarrow> plain_char c" by (auto simp: plain_char_def)
  ultimately show "c \<in> set (sanitizeControlSocketID i) \<Longrightarrow> plain_char c"
    by (auto simp: sanitizeControlSocketID_def split: if_splits)
qed

definition socket_name :: "string \<Rightarrow> string" where
  "socket_name i = ''web4-'' @ sanitizeControlSocketID i @ ''.sock''"

lemma socket_name_proper: "proper (socket_name i)"
proof -
  have "\<not> plain_char (CHR ''/'')" by (simp add: plain_char_def)
  then have "CHR ''/'' \<notin> set (sanitizeControlSocketID i)" using sanitize_plain by blast
  then show ?thesis by (simp add: proper_def socket_name_def)
qed

lemma derived_eq: "derivedControlSocketPath tmp i =
    (if tmp = [] \<or> Clean tmp = ''.'' then socket_name i
     else if Clean tmp = ''/'' then ''/'' @ socket_name i else Clean tmp @ ''/'' @ socket_name i)"
  unfolding derivedControlSocketPath_def Join_proper[OF socket_name_proper, symmetric] by (simp add: socket_name_def)

end
