(* ===== verification/Cli_Demo_Facts.thy ===== *)
theory Cli_Demo_Facts
  imports Cli_Shell Node_Exchange
begin

text \<open>What \<open>demo basic\<close> does and prints, by the exchange of messages of \<open>Node_Exchange\<close>.\<close>

section \<open>The input and the transfer\<close>

definition known_input :: "host \<Rightarrow> byte \<Rightarrow> uint64 \<Rightarrow> web4_value" where
  "known_input H seed amount =
     (let v = \<lparr>vID = zero_hash, Amount = amount, Unit = ''WEB4'', Owner = fst (ownerKeys H seed),
               Expiry = 1800000000, Depth = 0\<rparr>
      in v\<lparr>vID := ComputeValueID (hP H) v\<rparr>)"

lemma known_input_fields [simp]:
  "Unit (known_input H seed amount) = ''WEB4''" "Owner (known_input H seed amount) = fst (ownerKeys H seed)"
  "Expiry (known_input H seed amount) = 1800000000"
  by (simp_all add: known_input_def Let_def)

lemma known_input_id [simp]: "ComputeValueID (hP H) (known_input H seed amount) = vID (known_input H seed amount)"
proof -
  obtain v where "known_input H seed amount = v\<lparr>vID := ComputeValueID (hP H) v\<rparr>"
    unfolding known_input_def Let_def by blast
  then show ?thesis by simp
qed

lemma length_owner_key [simp]: "length (fst (ownerKeys H seed)) = 32"
  by (simp add: ownerKeys_def copy_public_def Let_def)

lemma seedKnownInput_eq:
  "seedKnownInput H as seed amount w
     = (seed_all (hP H) as (known_input H seed amount) w, known_input H seed amount, snd (ownerKeys H seed))"
  by (simp add: seedKnownInput_def known_input_def Let_def split: prod.split)

text \<open>\<open>signedTransfer\<close> and the transfer of \<open>sendTx\<close> are built in the same way.\<close>

lemma signedTransfer_eq:
  "Expiry input = 1800000000 \<Longrightarrow> signedTransfer P input priv amount r = dev_transfer P 1700000000 priv input
     \<lparr>InputID = [], reqAmount = amount, reqUnit = Unit input, reqTo = []\<rparr> (replicate 32 r)"
  by (simp add: signedTransfer_def dev_transfer_def Let_def)

lemma SeedValue_eq: "ComputeValueID P v = vID v \<Longrightarrow> SeedValue P n v = n\<lparr>valueStore := mput (vID v) v (valueStore n)\<rparr>"
  by (simp add: SeedValue_def Let_def)

lemma signed_valid:
  assumes "map_of (valueStore n) (vID v) = Some v" and "Owner v = pub" and "length pub = 32" and "Expiry v = 1800000000"
    and "sint (clock n) < 1800000000" and "\<And>msg. ed25519_Verify P pub msg (ed25519_Sign P priv msg)"
  shows "validateTransfer P n (normalizeTransfer P (signedTransfer P v priv amount r)) = Inr ()"
proof -
  note eq = signedTransfer_eq[OF assms(4), of P priv amount r]
  let ?x = "signedTransfer P v priv amount r"
  have "sint (1800000000 :: int64) = 1800000000" "(1800000000 :: int64) \<noteq> 0" by simp_all
  then have e: "checkExpiry (clock n) 0 (Outputs (normalizeTransfer P ?x)) = Inr ()"
    using assms(4,5) by (simp add: eq dev_transfer_outputs)
  have "pub \<noteq> []" using assms(3) by auto
  then have r: "resolveSigner n (Inputs (normalizeTransfer P ?x)) = Inr pub"
    using assms(1,2) by (simp add: resolveSigner_def eq)
  have "VerifyCanonicalTransfer P pub (normalizeTransfer P ?x) (Sig (normalizeTransfer P ?x))"
    using assms(6) dev_transfer_sig[of P 1700000000 priv v]
    by (simp add: VerifyCanonicalTransfer_def SignCanonicalTransfer_def eq)
  then show ?thesis unfolding validateTransfer_iff
    using e r assms(3) by (simp add: eq dev_transfer_outputs)
qed

lemma signed_wire:
  assumes "length (vID v) = 32" and "Unit v = ''WEB4''" and "Expiry v = 1800000000"
    and "\<And>msg. length (ed25519_Sign P priv msg) \<le> 64"
  shows "wire_ok P (signedTransfer P v priv amount r)"
proof -
  note eq = signedTransfer_eq[OF assms(3), of P priv amount r]
  have "length (Sig (signedTransfer P v priv amount r)) \<le> 64"
    using assms(4) dev_transfer_sig[of P 1700000000 priv v] by (simp add: eq SignCanonicalTransfer_def)
  moreover have "content_ok P (signedTransfer P v priv amount r)"
    using assms(1,2)
    by (simp add: content_ok_def value_ok_def eq dev_transfer_outputs ComputeValueID_def EncodeValue_eq)
  moreover have "length (EncodeTransfer (signedTransfer P v priv amount r)) < 2 ^ 32"
    using assms(1,2) by (simp add: eq EncodeTransfer_eq EncodeValue_eq dev_transfer_outputs length_put)
  ultimately show ?thesis by (simp add: wire_ok_def)
qed

section \<open>The network\<close>

definition basic_node :: "host \<Rightarrow> int64 \<Rightarrow> peer_id \<Rightarrow> (peer_id, nat option) go_map \<Rightarrow> web4_value \<Rightarrow> node" where
  "basic_node H wall i ps v = (NewNode i wall)\<lparr>clock := 100, peers := ps, valueStore := [(vID v, v)]\<rparr>"

definition basic_start :: "host \<Rightarrow> byte \<Rightarrow> uint64 \<Rightarrow> int64 \<Rightarrow> world \<Rightarrow> world" where
  "basic_start H seed amount wall w = seed_all (hP H) [0, 1, 2] (known_input H seed amount) (basicNetwork wall 100 w)"

lemma basic_nodes:
  "nodes (basic_start H seed amount wall w) 0
     = basic_node H wall ''A'' [(''B'', Some 1), (''C'', Some 2)] (known_input H seed amount)"
  "nodes (basic_start H seed amount wall w) 1 = basic_node H wall ''B'' [(''A'', Some 0)] (known_input H seed amount)"
  "nodes (basic_start H seed amount wall w) 2 = basic_node H wall ''C'' [(''A'', Some 0)] (known_input H seed amount)"
  "a \<notin> {0, 1, 2} \<Longrightarrow> nodes (basic_start H seed amount wall w) a = nodes w a"
  "rng (basic_start H seed amount wall w) = rng w"
  by (simp_all add: basic_start_def basicNetwork_def Let_def SeedValue_eq basic_node_def)
    (simp_all add: AddPeer_def SetNowFunc_def NewNode_def)

lemma basic_node_fields [simp]:
  "nodeID (basic_node H wall i ps v) = i" "peers (basic_node H wall i ps v) = ps" "clock (basic_node H wall i ps v) = 100"
  "sender (basic_node H wall i ps v) = None" "valueStore (basic_node H wall i ps v) = [(vID v, v)]"
  "txs (basic_node H wall i ps v) = (\<lambda>_. None)" "inputTracker (basic_node H wall i ps v) = NewInputTracker"
  "IsSeen (replayCache (basic_node H wall i ps v)) m \<longleftrightarrow> False"
  by (simp_all add: basic_node_def NewNode_def txs_def fun_eq_iff IsSeen_def newReplayCacheWithClock_def)

lemma basic_node_inv:
  assumes "ComputeValueID P v = vID v"
  shows "node_inv P (basic_node H wall i ps v)"
proof -
  have "node_inv P ((NewNode i wall)\<lparr>clock := 100, peers := ps\<rparr>)"
    by (rule node_inv_cong[OF NewNode_inv]) (use node_invD(4)[OF NewNode_inv] in simp_all)
  then have "node_inv P (SeedValue P ((NewNode i wall)\<lparr>clock := 100, peers := ps\<rparr>) v)" by (rule SeedValue_inv)
  then show ?thesis using assms by (simp add: SeedValue_eq basic_node_def NewNode_def)
qed

lemma basic_start_inv: "world_inv E w \<Longrightarrow> crypt E = hP H \<Longrightarrow> world_inv E (basic_start H seed amount wall w)"
  unfolding world_inv_def
proof (intro allI)
  fix a
  assume "\<forall>a. node_inv (crypt E) (nodes w a)" and e: "crypt E = hP H"
  then show "node_inv (crypt E) (nodes (basic_start H seed amount wall w) a)"
    using basic_node_inv[of "hP H" "known_input H seed amount"]
    by (cases "a \<in> {0, 1, 2}") (auto simp: basic_nodes basic_nodes(2)[unfolded One_nat_def])
qed

section \<open>The run\<close>

lemma find_sent_told: "find_sent ms to ty \<noteq> None \<longleftrightarrow> told ms to ty"
  by (induction ms) (auto simp: told_def)

lemma find_sent_None: "find_sent ms to ty = None \<longleftrightarrow> \<not> told ms to ty"
  by (metis find_sent_told)

lemma findSentMessage_told: "findSentMessage n to ty = None \<longleftrightarrow> \<not> told (sent n) to ty"
  by (simp add: findSentMessage_def SentMessages_def find_sent_None)

definition print_selected_node :: "string \<Rightarrow> hash \<Rightarrow> status \<Rightarrow> string" where
  "print_selected_node label t s = ''  Node '' @ label @ '' -> '' @ shortHash t @ '' ('' @ s @ '')'' @ nl"

text \<open>The line of a node whose only transfer is \<open>t\<close>.\<close>

lemma report_only:
  assumes "node_inv P (nodes w a)" and "txs (nodes w a) = [t \<mapsto> x]" and "i \<in> set (Inputs x)"
  obtains s where "s = StatusSelected \<or> s = StatusFinal"
    and "\<And>as out. report_selected True w i ((label, a) # as) out
       = report_selected True w i as (out @ print_selected_node label t s)"
proof -
  from only_candidate_selected[OF assms(1,2)] obtain z where z: "FinalityForTransfer (nodes w a) t = Some z"
    "Status z = StatusSelected \<or> Status z = StatusFinal" by blast
  have "SelectedForInput (nodes w a) i = Some t"
    using only_candidate_lineage[OF assms] by (simp add: SelectedForInput_def selected_on_def)
  then show thesis using that[OF z(2)] z(1) by (simp add: print_selected_node_def)
qed

lemma basic_leaves:
  assumes "b \<in> set [1, 2]"
  shows "leaf (basic_start H seed amount wall w) 0 b"
    and "\<exists>i ps. nodes (basic_start H seed amount wall w) b = basic_node H wall i ps (known_input H seed amount)"
  using assms by (auto simp: leaf_def link_def basic_nodes basic_nodes(2)[unfolded One_nat_def]) blast+

lemma basic_run:
  fixes H wall w seed amount and out :: uint64 and r :: byte
  defines "v \<equiv> known_input H seed amount" and "w0 \<equiv> basic_start H seed amount wall w"
  defines "x \<equiv> signedTransfer (hP H) v (snd (ownerKeys H seed)) out r"
  assumes inv: "world_inv (hEnv H) w" and sha: "\<And>b. length (Sum256 (hP H) b) = 32"
    and sig: "\<And>msg. ed25519_Verify (hP H) (fst (ownerKeys H seed)) msg (ed25519_Sign (hP H) (snd (ownerKeys H seed)) msg)"
    and len: "\<And>msg. length (ed25519_Sign (hP H) (snd (ownerKeys H seed)) msg) \<le> 64"
    and ids: "inj_on (randID (hEnv H)) {..<rng w + 6}"
  obtains w' where "\<And>k. AcceptLocalTransfer (hEnv H) (Suc (Suc (Suc k))) w0 0 x = Some (w', Inr ())"
    and "world_inv (hEnv H) w'" and "check_exchange w' 0 [(''B'', 1), (''C'', 2)] = None"
    and "named_nodes w' [0, 1, 2] = [(''A'', 0), (''B'', 1), (''C'', 2)]"
    and "\<And>a. a \<in> {0, 1, 2} \<Longrightarrow> \<exists>y. txs (nodes w' a) = [ComputeTransferID (hP H) x \<mapsto> y] \<and> Inputs y = [vID v]"
proof -
  let ?E = "hEnv H"
  have i0: "world_inv ?E w0" unfolding w0_def by (rule basic_start_inv[OF inv refl])
  have vid: "length (vID v) = 32" unfolding v_def using sha by (metis ComputeValueID_def known_input_id)
  have wire: "wire_ok (hP H) x" unfolding x_def by (rule signed_wire[OF vid _ _ len]) (simp_all add: v_def)
  have wants: "wants (hP H) (basic_node H wall i ps v) x" for i ps
  proof -
    have "map_of (valueStore (basic_node H wall i ps v)) (vID v) = Some v" by simp
    from signed_valid[OF this _ length_owner_key, of H seed] sig show ?thesis by (simp add: wants_def x_def v_def)
  qed
  have un: "unseen ?E (rng w0) (rng w + 6) (basic_node H wall i ps v)" for i ps by (simp add: unseen_def)
  have "sort [''B'', ''C''] = [''B'', ''C'']" by code_simp
  then have names: "peerIDsExcept (nodes w0 0) [] = map (\<lambda>b. nodeID (nodes w0 b)) [1, 2]"
    by (simp add: w0_def basic_nodes basic_nodes(2)[unfolded One_nat_def] peerIDsExcept_def)
  have n0: "nodes w0 0 = basic_node H wall ''A'' [(''B'', Some 1), (''C'', Some 2)] v" by (simp add: w0_def v_def basic_nodes)
  have "\<exists>tk. ConsumeInputs (inputTracker (nodes w0 0)) (Inputs x) = Inr tk"
    by (simp add: n0 ConsumeInputs_cases x_def signedTransfer_def Let_def NewInputTracker_def IsConsumed_def consumed_set_def)
  then obtain tk where tk: "ConsumeInputs (inputTracker (nodes w0 0)) (Inputs x) = Inr tk" by blast
  have bs: "leaf w0 0 b \<and> unseen ?E (rng w0) (rng w + 6) (nodes w0 b) \<and> wants (hP H) (nodes w0 b) x" if "b \<in> set [1, 2]" for b
    using basic_leaves[OF that, of H seed amount wall w] un wants unfolding w0_def v_def by metis
  obtain w' where w': "\<And>k. AcceptLocalTransfer ?E (Suc (Suc (Suc k))) w0 0 x = Some (w', Inr ())" "world_inv ?E w'"
    and a: "nodeID (nodes w' 0) = nodeID (nodes w0 0)"
      "txs (nodes w' 0) = (txs (nodes w0 0))(ComputeTransferID (hP H) x \<mapsto> normalizeTransfer (hP H) x)"
    and b: "\<And>b. b \<in> set [1, 2] \<Longrightarrow> told (sent (nodes w' 0)) (nodeID (nodes w0 b)) INV \<and> told (sent (nodes w' 0)) (nodeID (nodes w0 b)) TX
       \<and> told (sent (nodes w' b)) (nodeID (nodes w0 0)) GET \<and> nodeID (nodes w' b) = nodeID (nodes w0 b)
       \<and> txs (nodes w' b) = (txs (nodes w0 b))(ComputeTransferID (hP H) x \<mapsto> (normalizeTransfer (hP H) x)\<lparr>Timestamp := 0\<rparr>)"
    by (rule submit_to_leaves[OF i0 ids _ _ _ names wire _ _ tk bs])
      (use un wants sha n0 in \<open>simp_all add: w0_def basic_nodes ComputeTransferID_def\<close>)
  note n12 = basic_nodes(2)[of H seed amount wall w, folded w0_def v_def] basic_nodes(3)[of H seed amount wall w, folded w0_def v_def]
  have ix: "Inputs x = [vID v]" by (simp add: x_def signedTransfer_def Let_def)
  show thesis
  proof (rule that[of w'])
    show "check_exchange w' 0 [(''B'', 1), (''C'', 2)] = None"
      using b[of 1] b[of 2] n12 n0 by (simp add: findSentMessage_told)
    show "named_nodes w' [0, 1, 2] = [(''A'', 0), (''B'', 1), (''C'', 2)]"
      using a(1) b[of 1] b[of 2] n12 n0 by (simp add: named_nodes_def)
    show "\<exists>y. txs (nodes w' a) = [ComputeTransferID (hP H) x \<mapsto> y] \<and> Inputs y = [vID v]" if "a \<in> {0, 1, 2}" for a
      using that a(2) b[of 1] b[of 2] n12 n0 ix by auto
  qed (use w' in simp_all)
qed

lemma RunDemoBasic_prints:
  assumes inv: "world_inv (hEnv H) w" and sha: "\<And>b. length (Sum256 (hP H) b) = 32"
    and sig: "\<And>msg. ed25519_Verify (hP H) (fst (ownerKeys H 1)) msg (ed25519_Sign (hP H) (snd (ownerKeys H 1)) msg)"
    and len: "\<And>msg. length (ed25519_Sign (hP H) (snd (ownerKeys H 1)) msg) \<le> 64"
    and ids: "inj_on (randID (hEnv H)) {..<rng w + 6}" and fuel: "3 \<le> fuel"
  obtains w' t sA sB sC where "{sA, sB, sC} \<subseteq> {StatusSelected, StatusFinal}"
    and "RunDemoBasic H fuel wall w = Some (w', ''[A] created tx: '' @ shortHash t @ nl
       @ print_exchange t ''B'' @ print_exchange t ''C'' @ ''Final selected state:'' @ nl
       @ print_selected_node ''A'' t sA @ print_selected_node ''B'' t sB @ print_selected_node ''C'' t sC, None)"
proof -
  let ?v = "known_input H 1 25"
  let ?x = "signedTransfer (hP H) ?v (snd (ownerKeys H 1)) 25 11"
  let ?t = "ComputeTransferID (hP H) ?x"
  define k where "k = fuel - 3"
  have k: "fuel = Suc (Suc (Suc k))" using fuel by (simp add: k_def)
  obtain w' where w': "AcceptLocalTransfer (hEnv H) fuel (basic_start H 1 25 wall w) 0 ?x = Some (w', Inr ())"
      "world_inv (hEnv H) w'" "check_exchange w' 0 [(''B'', 1), (''C'', 2)] = None"
      "named_nodes w' [0, 1, 2] = [(''A'', 0), (''B'', 1), (''C'', 2)]"
    and tx: "\<And>a. a \<in> {0, 1, 2} \<Longrightarrow> \<exists>y. txs (nodes w' a) = [?t \<mapsto> y] \<and> Inputs y = [vID ?v]"
    unfolding k by (rule basic_run[where H = H and w = w and wall = wall and seed = 1 and amount = 25 and out = 25 and r = 11, OF inv sha sig len ids]) (rule that, simp only: k)
  have line: "\<exists>s. (s = StatusSelected \<or> s = StatusFinal) \<and> (\<forall>as out. report_selected True w' (vID ?v) ((label, a) # as) out
      = report_selected True w' (vID ?v) as (out @ print_selected_node label ?t s))" if "a \<in> {0, 1, 2}" for a label
  proof -
    note t = tx[OF that]
    obtain y where y: "txs (nodes w' a) = [?t \<mapsto> y]" "vID ?v \<in> set (Inputs y)" using t by auto
    have "node_inv (hP H) (nodes w' a)" using w'(2) by (simp add: world_inv_def)
    from report_only[OF this y] show ?thesis by metis
  qed
  obtain sA sB sC where sc: "sA = StatusSelected \<or> sA = StatusFinal" "sB = StatusSelected \<or> sB = StatusFinal"
      "sC = StatusSelected \<or> sC = StatusFinal"
    and l: "\<And>as out. report_selected True w' (vID ?v) ((''A'', 0) # as) out
        = report_selected True w' (vID ?v) as (out @ print_selected_node ''A'' ?t sA)"
      "\<And>as out. report_selected True w' (vID ?v) ((''B'', 1) # as) out
        = report_selected True w' (vID ?v) as (out @ print_selected_node ''B'' ?t sB)"
      "\<And>as out. report_selected True w' (vID ?v) ((''C'', 2) # as) out
        = report_selected True w' (vID ?v) as (out @ print_selected_node ''C'' ?t sC)"
    using line[of 0 "''A''"] line[of 1 "''B''"] line[of 2 "''C''"] by blast
  show thesis
  proof (rule that[of sA sB sC w' ?t])
    show "{sA, sB, sC} \<subseteq> {StatusSelected, StatusFinal}" using sc by simp
    show "RunDemoBasic H fuel wall w = Some (w', ''[A] created tx: '' @ shortHash ?t @ nl
       @ print_exchange ?t ''B'' @ print_exchange ?t ''C'' @ ''Final selected state:'' @ nl
       @ print_selected_node ''A'' ?t sA @ print_selected_node ''B'' ?t sB @ print_selected_node ''C'' ?t sC, None)"
      unfolding RunDemoBasic_def seedKnownInput_eq Let_def prod.case basic_start_def[symmetric] w' option.case sum.case l
      by (simp only: report_selected.simps append_assoc)
  qed
qed

lemma demo_world_inv: "world_inv E (demo_world wall)"
  using NewNode_inv by (simp add: world_inv_def demo_world_def)

end
