(* ===== verification/Cli_Demo_Conflict.thy ===== *)
theory Cli_Demo_Conflict
  imports Cli_Demo_Facts Node_Flood Node_Choice
begin

text \<open>
  What \<open>demo conflict\<close> does and prints: two transfers of one input, submitted at different nodes of a
  triangle, are both stored by all three, by two runs of \<open>Node_Flood\<close>.
\<close>

section \<open>Submissions in a triangle\<close>

lemma AcceptLocal_net_ok:
  assumes ok: "net_ok E A w" and x: "wire_ok (crypt E) x"
    and v: "validateTransfer (crypt E) (nodes w a) (normalizeTransfer (crypt E) x) = Inr ()"
    and tk: "ConsumeInputs (inputTracker (nodes w a)) (Inputs x) = Inr tracker"
    and o: "AcceptLocalTransfer E k w a x = Some (w', r)"
  shows "net_ok E A w'"
proof -
  let ?t = "ComputeTransferID (crypt E) x"
  have inv: "world_inv E w" using ok by (simp add: net_ok_def)
  obtain m where m: "node_inv (crypt E) m" "same_links ((nodes w a)\<lparr>inputTracker := tracker\<rparr>) m"
    "txs m = (if txs (nodes w a) ?t = None then (txs (nodes w a))(?t \<mapsto> normalizeTransfer (crypt E) x) else txs (nodes w a))"
    "AcceptLocalTransfer E k w a x = broadcastINV E (send (OnMessage E k)) (put w a m) a 30 ?t (peerIDsExcept m [])"
    by (rule AcceptLocal_accepted[OF inv v tk]) (rule that)
  have "txs m u = Some y \<Longrightarrow> wire_ok (crypt E) y" for u y
    using ok wire_ok_normalize[OF x] unfolding m(3) net_ok_def stored_wire_def by (auto split: if_splits)
  then have "net_ok E A (put w a m)"
    using ok m(1,2) by (auto simp: net_ok_def closed_net_def world_inv_def stored_wire_def same_links_def)
  moreover have "(wstep E)\<^sup>*\<^sup>* (put w a m) w'" using o m(4) net.broadcastINV_steps by simp
  ultimately show ?thesis using wsteps_net_ok by blast
qed

abbreviation corners :: "nat set" where
  "corners \<equiv> {0, 1, 2}"

text \<open>The nodes A, B and C, all connected, which know the value \<open>v\<close> and have not seen the identifiers up to \<open>s\<close>.\<close>

definition triangle :: "env \<Rightarrow> web4_value \<Rightarrow> nat \<Rightarrow> world \<Rightarrow> bool" where
  "triangle E v s w \<longleftrightarrow> net_ok E corners w \<and> meshed corners w \<and> (\<forall>a \<in> corners. \<forall>b \<in> corners. a \<noteq> b \<longrightarrow> link w a b)
     \<and> nodeID (nodes w 0) = ''A'' \<and> nodeID (nodes w 1) = ''B'' \<and> nodeID (nodes w 2) = ''C''
     \<and> (\<forall>a \<in> corners. map_of (valueStore (nodes w a)) (vID v) = Some v \<and> clock (nodes w a) = 100
          \<and> length (peers (nodes w a)) = 2 \<and> unseen E (rng w) s (nodes w a))"

lemma triangleD:
  assumes "triangle E v s w"
  shows "net_ok E corners w" and "meshed corners w" and "a \<in> corners \<Longrightarrow> b \<in> corners \<Longrightarrow> a \<noteq> b \<Longrightarrow> link w a b"
    and "nodeID (nodes w 0) = ''A''" and "nodeID (nodes w 1) = ''B''" and "nodeID (nodes w 2) = ''C''"
    and "a \<in> corners \<Longrightarrow> map_of (valueStore (nodes w a)) (vID v) = Some v" and "a \<in> corners \<Longrightarrow> clock (nodes w a) = 100"
    and "a \<in> corners \<Longrightarrow> length (peers (nodes w a)) = 2" and "a \<in> corners \<Longrightarrow> unseen E (rng w) s (nodes w a)"
  using assms unfolding triangle_def by blast+

lemma triangle_submit:
  fixes E :: env and priv :: bytes and v :: web4_value and amount :: uint64 and r :: byte
  defines "x \<equiv> signedTransfer (crypt E) v priv amount r"
  assumes tri: "triangle E v s w" and a: "a \<in> corners" and sha: "\<And>b. length (Sum256 (crypt E) b) = 32"
    and v: "length (vID v) = 32" "Unit v = ''WEB4''" "Expiry v = 1800000000" "Owner v = pub" "length pub = 32"
    and sig: "\<And>msg. ed25519_Verify (crypt E) pub msg (ed25519_Sign (crypt E) priv msg)"
    and len: "\<And>msg. length (ed25519_Sign (crypt E) priv msg) \<le> 64"
    and old: "vID v \<notin> ComputeValueID (crypt E) ` set (Outputs x)"
    and new: "\<And>b. b \<in> corners \<Longrightarrow> txs (nodes w b) (ComputeTransferID (crypt E) x) = None"
    and free: "vID v \<notin> consumed_set (inputTracker (nodes w a))"
    and ids: "inj_on (randID E) {..<s}" "rng w + 18 \<le> s" and fuel: "12 \<le> fuel"
  obtains w' where "AcceptLocalTransfer E fuel w a x = Some (w', Inr ())" and "triangle E v s w'"
    and "rng w' \<le> rng w + 18"
    and "\<And>b. b \<in> corners \<Longrightarrow> \<exists>y. txs (nodes w' b) (ComputeTransferID (crypt E) x) = Some y \<and> Inputs y = [vID v]"
    and "\<And>b u. u \<noteq> ComputeTransferID (crypt E) x \<Longrightarrow> txs (nodes w' b) u = txs (nodes w b) u"
    and "\<And>b. b \<noteq> a \<Longrightarrow> inputTracker (nodes w' b) = inputTracker (nodes w b)"
proof -
  let ?t = "ComputeTransferID (crypt E) x"
  note T = triangleD[OF tri]
  have ix: "Inputs x = [vID v]" by (simp add: x_def signedTransfer_def Let_def)
  have wire: "wire_ok (crypt E) x" unfolding x_def by (rule signed_wire[OF v(1,2,3) len])
  have valid: "validateTransfer (crypt E) (nodes w b) (normalizeTransfer (crypt E) x) = Inr ()" if b: "b \<in> corners" for b
    unfolding x_def by (rule signed_valid[OF T(7)[OF b] v(4,5,3)]) (use T(8)[OF b] sig in simp_all)
  have tk: "ConsumeInputs (inputTracker (nodes w a)) (Inputs x) = Inr (mark_inputs (inputTracker (nodes w a)) [vID v])"
    using free by (simp add: ConsumeInputs_cases ix)
  have fl: "floodable E corners x s"
    using wire sha old ids(1) by (simp add: floodable_def ComputeTransferID_def old_inputs_def ix)
  have rd: "ready E corners x s (rng w) w"
    using T(1,2) valid T(10) new by (auto simp: ready_def primed_def net_ok_def)
  have none: "\<not> has E x w b" if "b \<in> corners" for b using new[OF that] by (simp add: has_def)
  have ow: "owed E corners x w = 18" using none T(9) by (simp add: owed_def)
  obtain w' res where o: "AcceptLocalTransfer E fuel w a x = Some (w', res)"
    using AcceptLocal_enough[OF T(1) a wire, of fuel] fuel by fastforce
  have s: "rng w + owed E corners x w \<le> s" using ids(2) ow by simp
  note go = flood[OF fl a rd none s tk o]
  have st: "steady E x (if b = a then (nodes w b)\<lparr>inputTracker := mark_inputs (inputTracker (nodes w a)) [vID v]\<rparr> else nodes w b) (nodes w' b)" for b
    using go(2) unfolding flooded_def by blast
  have e: "same_ends (nodes w b) (nodes w' b)" for b
    using steadyD(1)[OF st[of b]] by (cases "b = a") (simp_all add: same_ends_def)
  have l: "link w' b c \<longleftrightarrow> link w b c" for b c by (rule link_cong[OF e])
  have rd': "ready E corners x s (rng w') w'" and rn: "rng w' \<le> rng w + 18" using go(2) ow unfolding flooded_def by simp_all
  have val: "map_of (valueStore (nodes w' b)) (vID v) = map_of (valueStore (nodes w b)) (vID v)" for b
    using steadyD(4)[OF st[of b] old] by (cases "b = a") simp_all
  show thesis
  proof (rule that[of w'])
    show "AcceptLocalTransfer E fuel w a x = Some (w', Inr ())" using o go(1) by simp
    show "rng w' \<le> rng w + 18" by (rule rn)
    show "triangle E v s w'"
    proof -
      have "net_ok E corners w'" by (rule AcceptLocal_net_ok[OF T(1) wire valid[OF a] tk o])
      moreover have "unseen E (rng w') s (nodes w' b)" if "b \<in> corners" for b
        using readyD(3)[OF rd' that] by (simp add: primed_def)
      ultimately show ?thesis
        using tri rd' e l val unfolding triangle_def ready_def same_ends_def by auto
    qed
    show "\<exists>y. txs (nodes w' b) ?t = Some y \<and> Inputs y = [vID v]" if b: "b \<in> corners" for b
    proof -
      have "(link w)\<^sup>*\<^sup>* a b" using T(3)[OF a b] by (cases "a = b") auto
      from flooded_txs(2)[OF go(2) this] show ?thesis by (auto simp: ix)
    qed
    show "txs (nodes w' b) u = txs (nodes w b) u" if "u \<noteq> ?t" for b u by (rule flooded_txs(1)[OF go(2) that])
    show "inputTracker (nodes w' b) = inputTracker (nodes w b)" if "b \<noteq> a" for b
      using steadyD(2)[OF st[of b]] that by simp
  qed
qed

section \<open>What is printed\<close>

definition print_scores :: "string \<Rightarrow> hash list \<Rightarrow> (hash \<Rightarrow> f64) \<Rightarrow> string" where
  "print_scores label ts score = ''  Node '' @ label @ '':'' @ nl
     @ concat (map (\<lambda>t. ''    '' @ shortHash t @ '' = '' @ dec_float 6 (score t) @ nl) ts)"

definition print_choice :: "string \<Rightarrow> hash \<Rightarrow> string" where
  "print_choice label t = ''  Node '' @ label @ '' -> '' @ shortHash t @ nl"

lemma find_rank_known: "t \<in> set ts \<Longrightarrow> find_rank ts t i \<noteq> None"
  by (induction ts arbitrary: i) auto

lemma snapshot_known:
  assumes "conf_inv n" and t: "t \<in> set (cset n i)"
  obtains s where "SelectionForInputTx E n i t = Inr (Some s)"
proof -
  obtain rs where rs: "rankByArrival n (cset n i) = Inr rs" "mset rs = mset (cset n i)"
    by (rule ranked_stored[OF assms(1)])
  have "t \<in> set rs" using t mset_eq_setD[OF rs(2)] by simp
  then obtain k where "find_rank rs t 0 = Some k" using find_rank_known by blast
  moreover have "cset n i \<noteq> []" using t by auto
  ultimately have "SelectionForInputTx E n i t = Inr (Some (snapshot_of (scoreTx E n i rs k)))"
    using rs(1) t by (simp add: SelectionForInputTx_def Let_def)
  then show thesis by (rule that)
qed

definition score_at :: "env \<Rightarrow> node \<Rightarrow> hash \<Rightarrow> hash \<Rightarrow> f64" where
  "score_at E n i t = (case SelectionForInputTx E n i t of Inr (Some s) \<Rightarrow> snScore s | _ \<Rightarrow> Fin 0)"

lemma report_tx_scores_all:
  assumes "conf_inv (nodes w a)"
  shows "set ts \<subseteq> set (cset (nodes w a) i) \<Longrightarrow> report_tx_scores E w a i ts out
     = (out @ concat (map (\<lambda>t. ''    '' @ shortHash t @ '' = '' @ dec_float 6 (score_at E (nodes w a) i t) @ nl) ts), None)"
proof (induction ts arbitrary: out)
  case (Cons t ts)
  then have "t \<in> set (cset (nodes w a) i)" by simp
  then obtain s where "SelectionForInputTx E (nodes w a) i t = Inr (Some s)" by (rule snapshot_known[OF assms])
  then show ?case using Cons by (simp add: score_at_def)
qed simp

lemma report_scores_all:
  "(\<And>a. a \<in> set as \<Longrightarrow> conf_inv (nodes w a) \<and> set ts \<subseteq> set (cset (nodes w a) i)) \<Longrightarrow>
   report_scores E w i ts as out
     = (out @ concat (map (\<lambda>a. print_scores (nodeID (nodes w a)) ts (score_at E (nodes w a) i)) as), None)"
  by (induction as arbitrary: out) (simp_all add: report_tx_scores_all print_scores_def)

lemma report_choices:
  "(\<And>l a. (l, a) \<in> set as \<Longrightarrow> SelectedForInput (nodes w a) i = Some (u a)) \<Longrightarrow>
   report_selected False w i as out = (out @ concat (map (\<lambda>(l, a). print_choice l (u a)) as), None)"
proof (induction as arbitrary: out)
  case (Cons p as)
  obtain l a where p: "p = (l, a)" by fastforce
  have "SelectedForInput (nodes w a) i = Some (u a)" using Cons.prems[of l a] p by simp
  moreover have "report_selected False w i as q = (q @ concat (map (\<lambda>(l, a). print_choice l (u a)) as), None)" for q
    by (rule Cons.IH) (use Cons.prems in auto)
  ultimately show ?case by (simp add: p print_choice_def)
qed simp

text \<open>A node that stores exactly two transfers, both of the input \<open>i\<close>.\<close>

lemma two_candidates:
  assumes inv: "node_inv P n" and ne: "t1 \<noteq> t2"
    and t: "txs n t1 = Some x1" "txs n t2 = Some x2" "\<And>u. u \<noteq> t1 \<Longrightarrow> u \<noteq> t2 \<Longrightarrow> txs n u = None"
    and i: "i \<in> set (Inputs x1)" "i \<in> set (Inputs x2)"
  shows "set (cset n i) = {t1, t2}" and "sort (ConflictSet n i) = sort [t1, t2]"
    and "\<exists>u \<in> {t1, t2}. SelectedForInput n i = Some u"
proof -
  have c: "conf_inv n" by (rule core_invD(2)[OF node_invD(1)[OF inv]])
  show set: "set (cset n i) = {t1, t2}"
  proof (rule set_eqI)
    fix u
    have "u \<in> set (cset n i) \<longleftrightarrow> (\<exists>y. txs n u = Some y \<and> i \<in> set (Inputs y))" by (rule conf_invD(1)[OF c])
    then show "u \<in> set (cset n i) \<longleftrightarrow> u \<in> {t1, t2}" using t i by (cases "u = t1"; cases "u = t2") auto
  qed
  have "distinct (cset n i)" by (rule conf_invD(2)[OF c])
  then have "mset (cset n i) = mset [t1, t2]" using set ne set_eq_iff_mset_eq_distinct[of "cset n i" "[t1, t2]"] by simp
  then have "mset (sort [t1, t2]) = mset (cset n i)" by (simp only: mset_sort)
  then show "sort (ConflictSet n i) = sort [t1, t2]"
    unfolding ConflictSet_def by (rule properties_for_sort) (rule sorted_sort)
  have "cset n i \<noteq> []" using set by auto
  then obtain u where "selected_on n i = Some u" using node_invD(2)[OF inv] unfolding sel_inv_def by blast
  moreover from this have "u \<in> set (cset n i)" using node_invD(2)[OF inv] unfolding sel_inv_def by blast
  ultimately show "\<exists>u \<in> {t1, t2}. SelectedForInput n i = Some u"
    using set by (auto simp: SelectedForInput_def selected_on_def)
qed

section \<open>The run\<close>

definition conflict_start :: "host \<Rightarrow> byte \<Rightarrow> uint64 \<Rightarrow> int64 \<Rightarrow> world \<Rightarrow> world" where
  "conflict_start H seed amount wall w =
     (let w = basicNetwork wall 100 w;
          w = put w 1 (AddPeer (nodes w 1) (nodeID (nodes w 2)) 2);
          w = put w 2 (AddPeer (nodes w 2) (nodeID (nodes w 1)) 1)
      in seed_all (hP H) [0, 1, 2] (known_input H seed amount) w)"

lemma conflict_nodes:
  "nodes (conflict_start H seed amount wall w) 0
     = basic_node H wall ''A'' [(''B'', Some 1), (''C'', Some 2)] (known_input H seed amount)"
  "nodes (conflict_start H seed amount wall w) 1
     = basic_node H wall ''B'' [(''A'', Some 0), (''C'', Some 2)] (known_input H seed amount)"
  "nodes (conflict_start H seed amount wall w) 2
     = basic_node H wall ''C'' [(''A'', Some 0), (''B'', Some 1)] (known_input H seed amount)"
  "a \<notin> corners \<Longrightarrow> nodes (conflict_start H seed amount wall w) a = nodes w a"
  "rng (conflict_start H seed amount wall w) = rng w"
  by (simp_all add: conflict_start_def basicNetwork_def Let_def SeedValue_eq basic_node_def)
    (simp_all add: AddPeer_def SetNowFunc_def NewNode_def)

lemma conflict_triangle:
  fixes H seed amount wall
  defines "w \<equiv> conflict_start H seed amount wall (demo_world wall)"
  shows "triangle (hEnv H) (known_input H seed amount) s w" and "rng w = 0"
    and "txs (nodes w a) t = None" and "a \<in> corners \<Longrightarrow> inputTracker (nodes w a) = NewInputTracker"
proof -
  note n = conflict_nodes[where H = H and seed = seed and amount = amount and wall = wall and w = "demo_world wall", folded w_def]
  note n = n n(2)[unfolded One_nat_def]
  show tx: "txs (nodes w a) t = None" for a t
  proof (cases "a \<in> corners")
    case False
    then show ?thesis by (simp add: n demo_world_def NewNode_def txs_def)
  qed (auto simp: n)
  show "rng w = 0" by (simp add: n demo_world_def)
  show "a \<in> corners \<Longrightarrow> inputTracker (nodes w a) = NewInputTracker" by (auto simp: n)
  have "node_inv (hP H) (nodes w a)" for a
  proof (cases "a \<in> corners")
    case True
    then show ?thesis using basic_node_inv[of "hP H" "known_input H seed amount"] by (auto simp: n)
  next
    case False
    then show ?thesis using demo_world_inv[of "hEnv H" wall] by (simp add: n world_inv_def)
  qed
  then have inv: "world_inv (hEnv H) w" by (simp add: world_inv_def)
  have l: "link w a b" if "a \<in> corners" "b \<in> corners" "a \<noteq> b" for a b
    using that by (auto simp: link_def n)
  have "net_ok (hEnv H) corners w"
    using inv tx by (auto simp: net_ok_def stored_wire_def closed_net_def n split: if_splits)
  moreover have "meshed corners w" using l by (auto simp: meshed_def n split: if_splits)
  ultimately show "triangle (hEnv H) (known_input H seed amount) s w"
    using l by (auto simp: triangle_def n unseen_def)
qed

lemma RunDemoConflict_prints:
  fixes H :: host and wall :: int64
  defines "v \<equiv> known_input H 2 50"
  defines "x1 \<equiv> signedTransfer (hP H) v (snd (ownerKeys H 2)) 25 21"
    and "x2 \<equiv> signedTransfer (hP H) v (snd (ownerKeys H 2)) 40 22"
  defines "t1 \<equiv> ComputeTransferID (hP H) x1" and "t2 \<equiv> ComputeTransferID (hP H) x2"
  assumes sha: "\<And>b. length (Sum256 (hP H) b) = 32"
    and sig: "\<And>msg. ed25519_Verify (hP H) (fst (ownerKeys H 2)) msg (ed25519_Sign (hP H) (snd (ownerKeys H 2)) msg)"
    and len: "\<And>msg. length (ed25519_Sign (hP H) (snd (ownerKeys H 2)) msg) \<le> 64"
    and ids: "inj_on (randID (hEnv H)) {..<36}" and fuel: "12 \<le> fuel"
    and ne: "t1 \<noteq> t2" and old: "vID v \<notin> ComputeValueID (hP H) ` set (Outputs x1 @ Outputs x2)"
  obtains w' score u where "\<And>a. u a \<in> {t1, t2}"
    and "RunDemoConflict H fuel wall (demo_world wall) = Some (w',
       ''Conflict detected on input '' @ shortHash (vID v) @ '':'' @ nl
       @ concat (map (\<lambda>t. ''  tx: '' @ shortHash t @ nl) (sort [t1, t2])) @ nl @ ''Scores:'' @ nl
       @ print_scores ''A'' [t1, t2] (score (0 :: nat)) @ print_scores ''B'' [t1, t2] (score 1) @ print_scores ''C'' [t1, t2] (score 2)
       @ nl @ ''Selected:'' @ nl
       @ print_choice ''A'' (u 0) @ print_choice ''B'' (u 1) @ print_choice ''C'' (u (2 :: nat)), None)"
proof -
  let ?E = "hEnv H" and ?w = "conflict_start H 2 50 wall (demo_world wall)"
  let ?c = "[0, 1, 2 :: nat]"
  note start = conflict_triangle[where H = H and seed = 2 and amount = 50 and wall = wall]
  have vid: "length (vID v) = 32" unfolding v_def using sha by (metis ComputeValueID_def known_input_id)
  have vf: "Unit v = ''WEB4''" "Expiry v = 1800000000" "Owner v = fst (ownerKeys H 2)" by (simp_all add: v_def)
  have o: "vID v \<notin> ComputeValueID (hP H) ` set (Outputs x1)" "vID v \<notin> ComputeValueID (hP H) ` set (Outputs x2)"
    using old by auto
  have free: "vID v \<notin> consumed_set NewInputTracker" by (simp add: consumed_set_def NewInputTracker_def IsConsumed_def)
  note submit = triangle_submit[OF _ _ sha vid vf length_owner_key sig len]
  obtain w1 where w1: "AcceptLocalTransfer ?E fuel ?w 0 x1 = Some (w1, Inr ())" "triangle ?E v 36 w1" "rng w1 \<le> 18"
    and t1: "\<And>b. b \<in> corners \<Longrightarrow> \<exists>y. txs (nodes w1 b) t1 = Some y \<and> Inputs y = [vID v]"
    and o1: "\<And>b u. u \<noteq> t1 \<Longrightarrow> txs (nodes w1 b) u = None"
    and tr: "\<And>b. b \<noteq> 0 \<Longrightarrow> inputTracker (nodes w1 b) = inputTracker (nodes ?w b)"
    by (rule submit[where s = 36 and w = ?w and a = 0 and amount = 25 and r = 21, folded x1_def, OF start(1)[folded v_def] _ o(1) _ _ ids _ fuel])
      (use start free in \<open>simp_all add: t1_def\<close>)
  obtain w2 where w2: "AcceptLocalTransfer ?E fuel w1 1 x2 = Some (w2, Inr ())" "triangle ?E v 36 w2"
    and t2: "\<And>b. b \<in> corners \<Longrightarrow> \<exists>y. txs (nodes w2 b) t2 = Some y \<and> Inputs y = [vID v]"
    and o2: "\<And>b u. u \<noteq> t2 \<Longrightarrow> txs (nodes w2 b) u = txs (nodes w1 b) u"
    by (rule submit[where s = 36 and w = w1 and a = 1 and amount = 40 and r = 22, folded x2_def, OF w1(2) _ o(2) _ _ ids _ fuel])
      (use w1(3) start(4) free tr[of 1] o1[of t2] ne in \<open>simp_all add: t2_def\<close>)
  have inv: "node_inv (hP H) (nodes w2 a)" for a using triangleD(1)[OF w2(2)] by (simp add: net_ok_def world_inv_def)
  have two: "set (cset (nodes w2 a) (vID v)) = {t1, t2}" "sort (ConflictSet (nodes w2 a) (vID v)) = sort [t1, t2]"
    "\<exists>u \<in> {t1, t2}. SelectedForInput (nodes w2 a) (vID v) = Some u" if a: "a \<in> corners" for a
  proof -
    obtain y1 y2 where y: "txs (nodes w2 a) t1 = Some y1" "Inputs y1 = [vID v]" "txs (nodes w2 a) t2 = Some y2" "Inputs y2 = [vID v]"
      using t1[OF a] t2[OF a] o2[OF ne, of a] by auto
    have "txs (nodes w2 a) u = None" if "u \<noteq> t1" "u \<noteq> t2" for u using o2[OF that(2)] o1[OF that(1)] by simp
    note c = two_candidates[OF inv ne y(1,3) this, of "vID v"]
    show "set (cset (nodes w2 a) (vID v)) = {t1, t2}" "sort (ConflictSet (nodes w2 a) (vID v)) = sort [t1, t2]"
      "\<exists>u \<in> {t1, t2}. SelectedForInput (nodes w2 a) (vID v) = Some u" using c y(2,4) by simp_all
  qed
  define u where "u a = (if a \<in> corners then the (SelectedForInput (nodes w2 a) (vID v)) else t1)" for a
  have u: "u a \<in> {t1, t2}" for a using two(3)[of a] by (auto simp: u_def)
  have us: "SelectedForInput (nodes w2 a) (vID v) = Some (u a)" if "a \<in> corners" for a
    using two(3)[OF that] that by (auto simp: u_def)
  note names = triangleD(4-6)[OF w2(2)]
  have scores: "report_scores ?E w2 (vID v) [t1, t2] ?c out = (out @ concat (map (\<lambda>a. print_scores (nodeID (nodes w2 a)) [t1, t2]
      (score_at ?E (nodes w2 a) (vID v))) ?c), None)" for out
    by (rule report_scores_all) (use core_invD(2)[OF node_invD(1)[OF inv]] two(1) in auto)
  have choices: "report_selected False w2 (vID v) (named_nodes w2 ?c) out
      = (out @ concat (map (\<lambda>(l, a). print_choice l (u a)) (named_nodes w2 ?c)), None)" for out
    by (rule report_choices) (use us in \<open>auto simp: named_nodes_def\<close>)
  have sorted0: "sort (ConflictSet (nodes w2 0) (vID v)) = sort [t1, t2]" by (rule two(2)) simp
  have run: "RunDemoConflict H fuel wall (demo_world wall) =
     (let out = ''Conflict detected on input '' @ shortHash (vID v) @ '':'' @ nl
          @ concat (map (\<lambda>t. ''  tx: '' @ shortHash t @ nl) (sort [t1, t2])) @ nl @ ''Scores:'' @ nl
      in case report_scores ?E w2 (vID v) [t1, t2] ?c out of
           (out, Some e) \<Rightarrow> Some (w2, out, Some e)
         | (out, None) \<Rightarrow> Some (w2, report_selected False w2 (vID v) (named_nodes w2 ?c) (out @ nl @ ''Selected:'' @ nl)))"
    unfolding RunDemoConflict_def seedKnownInput_eq Let_def prod.case
    unfolding conflict_start_def[unfolded Let_def, symmetric]
    unfolding v_def[symmetric] x1_def[symmetric] x2_def[symmetric]
      t1_def[symmetric] t2_def[symmetric] w1(1) w2(1) option.case sum.case prod.case sortHashes_def sorted0
    by (rule refl)
  show thesis
  proof (rule that[of u w2 "\<lambda>a. score_at ?E (nodes w2 a) (vID v)"])
    show "u a \<in> {t1, t2}" for a by (rule u)
    show "RunDemoConflict H fuel wall (demo_world wall) = Some (w2,
       ''Conflict detected on input '' @ shortHash (vID v) @ '':'' @ nl
       @ concat (map (\<lambda>t. ''  tx: '' @ shortHash t @ nl) (sort [t1, t2])) @ nl @ ''Scores:'' @ nl
       @ print_scores ''A'' [t1, t2] (score_at ?E (nodes w2 0) (vID v)) @ print_scores ''B'' [t1, t2] (score_at ?E (nodes w2 1) (vID v))
       @ print_scores ''C'' [t1, t2] (score_at ?E (nodes w2 2) (vID v))
       @ nl @ ''Selected:'' @ nl @ print_choice ''A'' (u 0) @ print_choice ''B'' (u 1) @ print_choice ''C'' (u 2), None)"
      unfolding run Let_def scores prod.case option.case choices
      using names by (simp only: named_nodes_def list.map concat.simps prod.case append_assoc append_Nil2)
  qed
qed

end
