(* ===== verification/Cli_Properties.thy ===== *)
theory Cli_Properties
  imports Cli_Session Cli_Hex Cli_Paths Cli_Demo_Facts Cli_Demo_Conflict
begin

text \<open>
  The properties of the runtime behind the command line and of its commands, with a concrete machine
  for their witnesses.
\<close>

section \<open>A concrete machine\<close>

text \<open>A digest of 32 bytes, and a signature that is the public key of the signer.\<close>

definition cli_prims :: prims where
  "cli_prims = \<lparr>Sum256 = (\<lambda>b. replicate 32 (of_nat (length b) + (if b = [] then 0 else last b))),
     ed25519_Sign = (\<lambda>priv msg. drop 32 priv), ed25519_Verify = (\<lambda>pub msg sig. pub = sig)\<rparr>"

definition cli_host :: host where
  "cli_host = \<lparr>hEnv = \<lparr>crypt = cli_prims, mathLog = (\<lambda>x. Fin 1), proofOrder = (\<lambda>t m. m),
       randID = (\<lambda>n. of_nat n # replicate 15 7)\<rparr>,
     sha256Sum = (\<lambda>b. replicate 32 (of_nat (length b))), keyFromSeed = (\<lambda>s. s @ s),
     tmpDir = ''/tmp'', sockEnv = []\<rparr>"

definition cli_config :: runtime_config where
  "cli_config = \<lparr>cfgID = ''A'', cfgListen = ''127.0.0.1:9101'', cfgPeers = [''B''], cfgControlPath = ''/tmp/a.sock''\<rparr>"

definition cli_sys :: sys_calls where
  "cli_sys = \<lparr>ioMkdir = None, ioLstat = None, ioRemove = None, ioListen = None\<rparr>"

definition cli_machine :: machine where
  "cli_machine = \<lparr>mWorld = \<lparr>nodes = (\<lambda>_. NewNode [] 100), rng = 0\<rparr>, mFiles = [], mRuntimes = (\<lambda>_. None), mNext = 0\<rparr>"

lemma cli_machine_reachable: "machine_reachable cli_host cli_machine"
proof -
  have "fresh_machine cli_machine" unfolding fresh_machine_def initial_def by (auto simp: cli_machine_def)
  then show ?thesis unfolding machine_reachable_def by blast
qed

lemma cli_started: "\<exists>m1 rt. startManagedRuntime cli_host cli_sys 100 (Inr ''127.0.0.1:9101'') (\<lambda>_ _. None) None
    cli_config cli_machine = (m1, Inr 0) \<and> mRuntimes m1 0 = Some rt \<and> rtControlPath rt = ''/tmp/a.sock''
    \<and> cfgID (rtConfig rt) = ''A''"
proof -
  have "with_control cli_host cli_config = cli_config" by (simp add: with_control_def cli_config_def)
  then show ?thesis
    by (simp add: startManagedRuntime_def seedDeveloperValue_eq new_runtime_def listenControlSocket_def
        Start_def NewTCPTransport_def cli_sys_def cli_machine_def Let_def) (simp add: cli_config_def)
qed

section \<open>Identifiers and sockets\<close>

text \<open>C39: \<open>decodeHash\<close> accepts exactly the hexadecimal texts of 32 bytes, in either case of the letters and with white space around them, and reads what \<open>encodeHash\<close> prints.\<close>

theorem decode_hash_exact:
  "(decodeHash s = Inr h) = (length h = 32 \<and> map lower_hex (TrimSpace s) = encodeHash h)
   \<and> (length h = 32 \<longrightarrow> decodeHash (encodeHash h) = Inr h)"
  by (simp add: decodeHash_Inr)

theorem decode_hash_exact_witness:
  "decodeHash ('' '' @ encodeHash (replicate 32 171) @ [CHR 0x0A]) = Inr (replicate 32 171)
     \<and> decodeHash (encodeHash (replicate 32 171)) = Inr (replicate 32 171)"
proof -
  have "map lower_hex (TrimSpace ('' '' @ encodeHash (replicate 32 171) @ [CHR 0x0A])) = encodeHash (replicate 32 171)"
    by code_simp
  then show ?thesis
    using decode_hash_exact[of "'' '' @ encodeHash (replicate 32 171) @ [CHR 0x0A]" "replicate 32 171"]
      decode_hash_exact[of "encodeHash (replicate 32 171)" "replicate 32 171"] by simp
qed

text \<open>C40: Whatever the identifier of a node, its default control socket lies directly in the cleaned directory for temporary files, and two nodes share a socket exactly when their identifiers agree after sanitizing.\<close>

theorem socket_in_temp_dir:
  "\<exists>dir name. CHR ''/'' \<notin> set name \<and> derivedControlSocketPath tmp i = dir @ name
     \<and> dir = (if tmp = [] \<or> Clean tmp = ''.'' then [] else if Clean tmp = ''/'' then ''/'' else Clean tmp @ ''/'')
     \<and> (derivedControlSocketPath tmp i = derivedControlSocketPath tmp j)
         = (sanitizeControlSocketID i = sanitizeControlSocketID j)"
  using socket_name_proper[of i]
  by (intro exI[of _ "if tmp = [] \<or> Clean tmp = ''.'' then [] else if Clean tmp = ''/'' then ''/'' else Clean tmp @ ''/''"]
      exI[of _ "socket_name i"]) (simp add: derived_eq proper_def socket_name_def)

text \<open>Two different nodes on one machine that share a control socket.\<close>

theorem sockets_collide: "derivedControlSocketPath ''/tmp'' ''a/b'' = derivedControlSocketPath ''/tmp'' ''a:b''"
  by code_simp

section \<open>Requests\<close>

text \<open>Every request to a runtime is answered, in every reachable state of the machine; only a request to send a transfer changes anything, and the views never fail.\<close>

theorem requests_answered:
  assumes "machine_reachable H m" and "mRuntimes m r = Some rt"
  shows "\<exists>m' res. client_call H k r req m = Some (m', res)
     \<and> ((\<exists>s. req = RpcSendTx s) \<or> m' = m \<and> ((\<exists>i. req = RpcShowTx i) \<or> (\<exists>rep. res = Inr rep)))"
proof -
  note ok = machine_reachable_ok[OF assms(1)] and o = machine_okD(3)[OF machine_reachable_ok[OF assms(1)] assms(2)]
  have "sender (nodes (mWorld m) (rtNode rt)) \<noteq> None" using o by (simp add: rt_ok_def)
  from ControlService_returns[OF machine_okD(1)[OF ok] this machine_okD(2)[OF ok], of k req]
  show ?thesis using assms(2) by (auto simp: client_call_def)
qed

theorem requests_answered_witness:
  "\<exists>m1 m2 res. client_call cli_host 0 0 RpcFinality m1 = Some (m2, Inr res) \<and> mRuntimes m1 0 \<noteq> None"
proof -
  obtain m1 rt where s: "startManagedRuntime cli_host cli_sys 100 (Inr ''127.0.0.1:9101'') (\<lambda>_ _. None) None
    cli_config cli_machine = (m1, Inr 0)" and rt: "mRuntimes m1 0 = Some rt" using cli_started by blast
  have "machine_step cli_host cli_machine m1" using ms_start s by (metis fst_conv)
  then have "machine_reachable cli_host m1" by (meson cli_machine_reachable machine_reachable_steps r_into_rtranclp)
  from requests_answered[OF this rt, of 0 RpcFinality] show ?thesis using rt by auto
qed

text \<open>The first request of a runtime that has just started.\<close>

lemma send_after_start:
  assumes inv: "world_inv (hEnv H) (mWorld m1)" and st: "started H now config (\<lambda>_ _. None) m rt m1"
    and "sint now < 1800000000" and "amount \<le> 1000000" and "length owner = 32"
    and "\<And>b. length (Sum256 (hP H) b) = 32"
    and "\<And>msg. ed25519_Verify (hP H) (fst (developerKeys H (cfgID config))) msg
           (ed25519_Sign (hP H) (snd (developerKeys H (cfgID config))) msg)"
  shows "\<exists>m2 rep. client_call H k (mNext m) (RpcSendTx \<lparr>InputID = sSeededValueID (Status_reply rt (mWorld m1)),
      reqAmount = amount, reqUnit = ''WEB4'', reqTo = EncodeToString owner\<rparr>) m1 = Some (m2, Inr (SendTxReply rep))
    \<and> (stStatus rep = StatusSelected \<or> stStatus rep = StatusFinal)
    \<and> (\<forall>t. Transfer (nodes (mWorld m1) (mNext m)) t = None)"
proof -
  let ?v = "dev_value H (cfgID config)" and ?w = "mWorld m1" and ?priv = "snd (developerKeys H (cfgID config))"
  let ?r = "mNext m"
  let ?n = "SetSender (start_node H now config) (Some (\<lambda>_ _. None))"
  have n: "nodes ?w ?r = ?n" "rtNode rt = ?r" "seededValue rt = ?v" "devKeys rt = [(vID ?v, ?priv)]"
    "mRuntimes m1 ?r = Some rt"
    using st by (simp_all add: started_def)
  have "txs ?n = txs (start_node H now config)" by (simp add: txs_def SetSender_def fun_eq_iff)
  then have f: "valueStore ?n = [(vID ?v, ?v)]" "txs ?n = (\<lambda>_. None)" "clock ?n = now"
    "consumed_set (inputTracker ?n) = {}"
    by (simp_all add: start_node_simps) (simp_all add: SetSender_def start_node_simps)
  let ?req = "\<lparr>InputID = encodeHash (vID ?v), reqAmount = amount, reqUnit = ''WEB4'', reqTo = EncodeToString owner\<rparr>"
  let ?x = "dev_transfer (hP H) now ?priv ?v ?req owner" and ?t = "ComputeTransferID (hP H)
      (dev_transfer (hP H) now ?priv ?v ?req owner)"
  have v: "validateTransfer (hP H) (nodes ?w ?r) (normalizeTransfer (hP H) ?x) = Inr ()"
    unfolding n(1) by (rule first_transfer_valid[OF assms(3,7)])
  have "\<exists>tk. ConsumeInputs (inputTracker ?n) (Inputs ?x) = Inr tk" using f(4) by (simp add: ConsumeInputs_cases)
  then obtain tk where c: "ConsumeInputs (inputTracker (nodes ?w ?r)) (Inputs ?x) = Inr tk" unfolding n(1) by blast
  have s: "sender (nodes ?w ?r) = Some (\<lambda>_ _. None)" by (simp add: n(1) SetSender_def)
  obtain w' q where a: "AcceptLocalTransfer (hEnv H) k ?w ?r ?x = Some (w', q)" "q = Inr ()"
    "txs (nodes w' ?r) = [?t \<mapsto> normalizeTransfer (hP H) ?x]"
    using accept_stores_tx[OF inv s v c, of k] n(1) f(2) by auto
  have "node_inv (hP H) (nodes w' ?r)" using AcceptLocal_keeps[OF a(1) inv] by (simp add: world_inv_def)
  from only_candidate_selected[OF this a(3)] obtain z where z: "FinalityForTransfer (nodes w' ?r) ?t = Some z"
    "Status z = StatusSelected \<or> Status z = StatusFinal" by blast
  have l: "length (vID ?v) = 32" using assms(6) by (metis ComputeValueID_def vID_dev_value)
  have e: "decodeRecipient (EncodeToString owner) = Inr owner" using assms(5) by (simp add: decodeRecipient_Inr)
  have "sendTx H k rt ?w ?req = Some (w', Inr \<lparr>stTxID = encodeHash ?t, stStatus = Status z, stConfidence = Confidence z\<rparr>)"
    using l e n f a z assms(4)
    by (simp add: sendTx_def ValueAt_def defaultDevAmount_def Let_def finality_or_zero_def not_less[symmetric])
  then have "client_call H k ?r (RpcSendTx ?req) m1 = Some (m1\<lparr>mWorld := w'\<rparr>, Inr (SendTxReply
      \<lparr>stTxID = encodeHash ?t, stStatus = Status z, stConfidence = Confidence z\<rparr>))"
    using n(5) by (simp add: client_call_def ControlService_def)
  moreover have "sSeededValueID (Status_reply rt ?w) = encodeHash (vID ?v)" using n(3) by (simp add: Status_reply_def Let_def)
  moreover have "Transfer (nodes ?w ?r) t = None" for t
    using f(2) unfolding n(1) Transfer_def txs_def by (metis (no_types))
  ultimately show ?thesis using z(2) by auto
qed

lemma start_step:
  assumes "machine_reachable H m"
    and s: "startManagedRuntime H io now listen sendTo register config m = (m1, Inr r)"
  shows "machine_reachable H m1" and "r = mNext m" and "\<exists>rt. started H now config sendTo m rt m1"
proof -
  have "machine_step H m m1" using ms_start s by (metis fst_conv)
  then show "machine_reachable H m1" by (meson assms(1) machine_reachable_steps r_into_rtranclp)
  show "r = mNext m" and "\<exists>rt. started H now config sendTo m rt m1"
    using startManagedRuntime_shape[OF s] by auto
qed

text \<open>A machine on which the runtime \<open>A\<close> has started, and then has sent 400000 of its value.\<close>

definition cli_request :: "managed_runtime \<Rightarrow> machine \<Rightarrow> send_tx_request" where
  "cli_request rt m = \<lparr>InputID = sSeededValueID (Status_reply rt (mWorld m)), reqAmount = 400000,
     reqUnit = ''WEB4'', reqTo = EncodeToString (replicate 32 7)\<rparr>"

lemma cli_keys:
  "length (Sum256 (hP cli_host) b) = 32"
  "ed25519_Verify (hP cli_host) (fst (developerKeys cli_host i)) msg (ed25519_Sign (hP cli_host) (snd (developerKeys cli_host i)) msg)"
  by (simp_all add: cli_host_def cli_prims_def developerKeys_def copy_public_def Let_def)

lemma cli_run:
  obtains m1 rt m2 rep where "startManagedRuntime cli_host cli_sys 100 (Inr ''127.0.0.1:9101'') (\<lambda>_ _. None) None
      cli_config cli_machine = (m1, Inr 0)"
    and "mRuntimes m1 0 = Some rt" and "rtControlPath rt = ''/tmp/a.sock''" and "machine_reachable cli_host m1"
    and "client_call cli_host 0 0 (RpcSendTx (cli_request rt m1)) m1 = Some (m2, Inr (SendTxReply rep))"
    and "\<forall>t. Transfer (nodes (mWorld m1) 0) t = None"
proof -
  obtain m1 rt where s: "startManagedRuntime cli_host cli_sys 100 (Inr ''127.0.0.1:9101'') (\<lambda>_ _. None) None
      cli_config cli_machine = (m1, Inr 0)" and rt: "mRuntimes m1 0 = Some rt" "rtControlPath rt = ''/tmp/a.sock''"
    using cli_started by blast
  note st = start_step[OF cli_machine_reachable s]
  obtain rt' where started: "started cli_host 100 cli_config (\<lambda>_ _. None) cli_machine rt' m1" using st(3) by blast
  then have "rt' = rt" using rt(1) by (simp add: started_def cli_machine_def)
  then have sd: "started cli_host 100 cli_config (\<lambda>_ _. None) cli_machine rt m1" using started by simp
  have "mNext cli_machine = 0" by (simp add: cli_machine_def)
  then show thesis
    using send_after_start[OF machine_okD(1)[OF machine_reachable_ok[OF st(1)]] sd _ _ _ cli_keys(1) cli_keys(2),
        of 400000 "replicate 32 7" 0] that[OF s rt st(1)] by (auto simp: cli_request_def)
qed



text \<open>C15: A runtime sends one transfer in its life: once a request to send has succeeded, every later one is answered with an error and changes nothing, whatever the machine has done in between, because the only input the runtime has a key for is spent.\<close>

theorem one_transfer_per_runtime:
  assumes "machine_reachable H m" and "client_call H k r (RpcSendTx req) m = Some (m1, Inr rep)"
    and "(machine_step H)\<^sup>*\<^sup>* m1 m2"
  shows "\<exists>e. client_call H l r (RpcSendTx req') m2 = Some (m2, Inl e)"
proof -
  note ok = machine_reachable_ok[OF assms(1)]
  obtain rt where rt: "mRuntimes m r = Some rt" using assms(2) by (cases "mRuntimes m r") (auto simp: client_call_def)
  obtain w rep' where s: "sendTx H k rt (mWorld m) req = Some (w, Inr rep')" "m1 = m\<lparr>mWorld := w\<rparr>"
    using assms(2) rt by (auto simp: client_call_def ControlService_def bindE_Inr_iff)
  have "machine_step H m m1" by (rule ms_request[OF assms(2)])
  then have ok1: "machine_ok H m1" using machine_step_ok ok by blast
  have ok2: "machine_ok H m2" and st: "stays r m1 m2" using machine_steps_ok[OF assms(3) ok1] by blast+
  obtain rt' where rt': "mRuntimes m2 r = Some rt'" "seededValue rt' = seededValue rt"
    and keep: "keeps (nodes (mWorld m1) r) (nodes (mWorld m2) r)"
    using st rt s(2) by (auto simp: stays_def)
  have "vID (seededValue rt') \<in> consumed_set (inputTracker (nodes (mWorld m2) r))"
    using sendTx_spends(2)[OF ok rt s(1)] keep s(2) rt'(2) by (auto simp: keeps_def)
  from sendTx_refused[OF ok2 rt'(1) this, of l req'] show ?thesis
    using rt'(1) by (auto simp: client_call_def ControlService_def)
qed

theorem one_transfer_per_runtime_witness:
  "\<exists>m1 m2 rt rep e. client_call cli_host 0 0 (RpcSendTx (cli_request rt m1)) m1 = Some (m2, Inr rep)
     \<and> client_call cli_host 0 0 (RpcSendTx (cli_request rt m1)) m2 = Some (m2, Inl e)"
proof -
  obtain m1 rt m2 rep where m: "machine_reachable cli_host m1"
    "client_call cli_host 0 0 (RpcSendTx (cli_request rt m1)) m1 = Some (m2, Inr (SendTxReply rep))"
    using cli_run by metis
  from one_transfer_per_runtime[OF m rtranclp.rtrancl_refl] m(2) show ?thesis by blast
qed

text \<open>C16: A node behind a command line only ever stores transfers of its own line: every input of every transfer it stores descends, through transfers it stores, from the developer value it has seeded itself. A transfer of another runtime's developer value is therefore never accepted.\<close>

theorem only_own_line:
  assumes "machine_reachable H m" and "mRuntimes m r = Some rt"
    and "Transfer (nodes (mWorld m) r) t = Some x" and "i \<in> set (Inputs x)"
  shows "descends (nodes (mWorld m) r) (vID (seededValue rt)) i"
proof -
  have "own_line (vID (seededValue rt)) (nodes (mWorld m) r)"
    using machine_okD(3)[OF machine_reachable_ok[OF assms(1)] assms(2)] by (simp add: rt_ok_def)
  moreover have "txs (nodes (mWorld m) r) t = Some x" using assms(3) by (simp add: txs_def Transfer_def)
  ultimately show ?thesis using assms(4) by (simp add: own_line_def)
qed

lemma sent_stored:
  assumes ok: "machine_ok H m" and r: "mRuntimes m r = Some rt"
    and s: "sendTx H k rt (mWorld m) req = Some (w', Inr rep)"
    and new: "\<And>t. stTxID rep = encodeHash t \<Longrightarrow> Transfer (nodes (mWorld m) r) t = None"
  obtains i owner input x where "decodeHash (InputID req) = Inr i" and "decodeRecipient (reqTo req) = Inr owner"
    and "ValueAt (nodes (mWorld m) r) i = Some input" and "vID input = i"
    and "Transfer (nodes w' r) (ComputeTransferID (hP H) x) = Some x" and "Inputs x = [i]"
    and "\<exists>h. Outputs x = [\<lparr>vID = h, Amount = reqAmount req, Unit = reqUnit req, Owner = owner,
           Expiry = Expiry input, Depth = Depth input + 1\<rparr>]"
    and "stTxID rep = encodeHash (ComputeTransferID (hP H) x)"
    and "stStatus rep = Status (finality_or_zero (nodes w' r) (ComputeTransferID (hP H) x))"
    and "stConfidence rep = Confidence (finality_or_zero (nodes w' r) (ComputeTransferID (hP H) x))"
proof -
  note inv = machine_okD[OF ok] and o = machine_okD(3)[OF ok r]
  have n: "rtNode rt = r" using o by (simp add: rt_ok_def)
  obtain i owner input priv where d: "decodeHash (InputID req) = Inr i" "decodeRecipient (reqTo req) = Inr owner"
      "ValueAt (nodes (mWorld m) r) i = Some input"
    and a: "AcceptLocalTransfer (hEnv H) k (mWorld m) r
           (dev_transfer (hP H) (clock (nodes (mWorld m) r)) priv input req owner) = Some (w', Inr ())"
    and rep: "stTxID rep = encodeHash (ComputeTransferID (hP H)
           (dev_transfer (hP H) (clock (nodes (mWorld m) r)) priv input req owner))"
      "stStatus rep = Status (finality_or_zero (nodes w' r) (ComputeTransferID (hP H)
           (dev_transfer (hP H) (clock (nodes (mWorld m) r)) priv input req owner)))"
      "stConfidence rep = Confidence (finality_or_zero (nodes w' r) (ComputeTransferID (hP H)
           (dev_transfer (hP H) (clock (nodes (mWorld m) r)) priv input req owner)))"
    by (rule sendTx_success[OF s, unfolded n])
  let ?x = "dev_transfer (hP H) (clock (nodes (mWorld m) r)) priv input req owner"
  have v: "vID input = i"
    using core_invD(3)[OF node_invD(1)[OF inv(4)[of r]]] d(3) by (simp add: val_inv_def ValueAt_def)
  obtain f where f: "sender (nodes (mWorld m) r) = Some f" using o by (auto simp: rt_ok_def)
  obtain tk where tk: "ConsumeInputs (inputTracker (nodes (mWorld m) r)) (Inputs ?x) = Inr tk"
    using AcceptLocal_ok(2)[OF a] by blast
  have "txs (nodes (mWorld m) r) (ComputeTransferID (hP H) ?x) = None"
    using new[OF rep(1)] by (simp add: txs_def Transfer_def)
  then obtain w'' q where "AcceptLocalTransfer (hEnv H) k (mWorld m) r ?x = Some (w'', q)"
    "txs (nodes w'' r) = (txs (nodes (mWorld m) r))(ComputeTransferID (hP H) ?x \<mapsto> normalizeTransfer (hP H) ?x)"
    using accept_stores_tx[OF inv(1) f AcceptLocal_ok(1)[OF a] tk, of k] by blast
  then have t: "Transfer (nodes w' r) (ComputeTransferID (hP H) ?x) = Some (normalizeTransfer (hP H) ?x)"
    using a by (simp add: txs_def Transfer_def fun_upd_def fun_eq_iff)
  have c: "ComputeTransferID (hP H) (normalizeTransfer (hP H) ?x) = ComputeTransferID (hP H) ?x" by simp
  show thesis
    by (rule that[of i owner input "normalizeTransfer (hP H) ?x", OF d v])
      (use t rep v in \<open>simp_all only: c, simp_all add: dev_transfer_outputs\<close>)
qed

text \<open>C17: What \<open>tx send\<close> reports is what \<open>tx show\<close> then shows: under the printed identifier it finds the one input of the request, one output with the requested amount, unit and recipient and with the input's expiry and the next depth, and the reported status and confidence.\<close>

theorem sent_transfer_shown:
  assumes "machine_reachable H m" and "client_call H k r (RpcSendTx req) m = Some (m1, Inr (SendTxReply rep))"
    and "\<And>t. stTxID rep = encodeHash t \<Longrightarrow> Transfer (nodes (mWorld m) r) t = None"
    and "\<And>b. length (Sum256 (hP H) b) = 32"
  shows "\<exists>i owner input sh. decodeHash (InputID req) = Inr i \<and> decodeRecipient (reqTo req) = Inr owner
     \<and> ValueAt (nodes (mWorld m) r) i = Some input
     \<and> client_call H l r (RpcShowTx (stTxID rep)) m1 = Some (m1, Inr (ShowTxReply sh))
     \<and> shTxID sh = stTxID rep \<and> shInputs sh = [encodeHash i]
     \<and> (\<exists>h. shOutputs sh = [\<lparr>viID = encodeHash h, viAmount = reqAmount req, viUnit = reqUnit req,
           viOwner = EncodeToString owner, viExpiry = Expiry input, viDepth = Depth input + 1\<rparr>])
     \<and> shStatus sh = stStatus rep \<and> shConfidence sh = stConfidence rep"
proof -
  note ok = machine_reachable_ok[OF assms(1)]
  obtain rt where rt: "mRuntimes m r = Some rt" using assms(2) by (cases "mRuntimes m r") (auto simp: client_call_def)
  have n: "rtNode rt = r" using machine_okD(3)[OF ok rt] by (simp add: rt_ok_def)
  obtain w where s: "sendTx H k rt (mWorld m) req = Some (w, Inr rep)" "m1 = m\<lparr>mWorld := w\<rparr>"
    using assms(2) rt by (auto simp: client_call_def ControlService_def bindE_Inr_iff)
  obtain i owner input x where x: "decodeHash (InputID req) = Inr i" "decodeRecipient (reqTo req) = Inr owner"
    "ValueAt (nodes (mWorld m) r) i = Some input"
    "Transfer (nodes w r) (ComputeTransferID (hP H) x) = Some x" "Inputs x = [i]"
    "\<exists>h. Outputs x = [\<lparr>vID = h, Amount = reqAmount req, Unit = reqUnit req, Owner = owner,
       Expiry = Expiry input, Depth = Depth input + 1\<rparr>]"
    "stTxID rep = encodeHash (ComputeTransferID (hP H) x)"
    "stStatus rep = Status (finality_or_zero (nodes w r) (ComputeTransferID (hP H) x))"
    "stConfidence rep = Confidence (finality_or_zero (nodes w r) (ComputeTransferID (hP H) x))"
    by (rule sent_stored[OF ok rt s(1) assms(3)])
  have "decodeHash (stTxID rep) = Inr (ComputeTransferID (hP H) x)"
    using assms(4) by (simp add: x(7) ComputeTransferID_def)
  then have "showTx rt w (stTxID rep) = Inr \<lparr>shTxID = stTxID rep, shInputs = [encodeHash i],
      shOutputs = map value_info_of (Outputs x), shStatus = stStatus rep, shConfidence = stConfidence rep\<rparr>"
    using x n by (simp add: showTx_def Let_def)
  then show ?thesis using x(1-3,6) rt s(2)
    by (auto simp: client_call_def ControlService_def value_info_of_def)
qed

theorem sent_transfer_shown_witness:
  "\<exists>m1 m2 rt rep sh. client_call cli_host 0 0 (RpcSendTx (cli_request rt m1)) m1 = Some (m2, Inr (SendTxReply rep))
     \<and> client_call cli_host 0 0 (RpcShowTx (stTxID rep)) m2 = Some (m2, Inr (ShowTxReply sh))
     \<and> shStatus sh = stStatus rep"
proof -
  obtain m1 rt m2 rep where m: "machine_reachable cli_host m1"
    "client_call cli_host 0 0 (RpcSendTx (cli_request rt m1)) m1 = Some (m2, Inr (SendTxReply rep))"
    "\<forall>t. Transfer (nodes (mWorld m1) 0) t = None"
    using cli_run by metis
  from sent_transfer_shown[OF m(1,2) _ cli_keys(1), of 0] m(2,3) show ?thesis by blast
qed

theorem only_own_line_witness:
  "\<exists>m (rt :: managed_runtime) t x i. machine_reachable cli_host m \<and> Transfer (nodes (mWorld m) 0) t = Some x \<and> i \<in> set (Inputs x)
     \<and> descends (nodes (mWorld m) 0) (vID (seededValue rt)) i"
proof -
  obtain m1 rt m2 rep where m: "mRuntimes m1 0 = Some rt" "machine_reachable cli_host m1"
    "client_call cli_host 0 0 (RpcSendTx (cli_request rt m1)) m1 = Some (m2, Inr (SendTxReply rep))"
    "\<forall>t. Transfer (nodes (mWorld m1) 0) t = None"
    using cli_run by metis
  obtain w where s: "sendTx cli_host 0 rt (mWorld m1) (cli_request rt m1) = Some (w, Inr rep)" "m2 = m1\<lparr>mWorld := w\<rparr>"
    using m(1,3) by (auto simp: client_call_def ControlService_def bindE_Inr_iff)
  obtain x i where x: "Transfer (nodes w 0) (ComputeTransferID (hP cli_host) x) = Some x" "Inputs x = [i]"
    by (rule sent_stored[OF machine_reachable_ok[OF m(2)] m(1) s(1)]) (use m(4) in auto)
  have "machine_step cli_host m1 m2" by (rule ms_request[OF m(3)])
  then have r2: "machine_reachable cli_host m2" by (meson m(2) machine_reachable_steps r_into_rtranclp)
  have "mRuntimes m2 0 = Some rt" "Transfer (nodes (mWorld m2) 0) (ComputeTransferID (hP cli_host) x) = Some x"
    using s(2) m(1) x(1) by simp_all
  from only_own_line[OF r2 this, of i] have d: "descends (nodes (mWorld m2) 0) (vID (seededValue rt)) i" using x(2) by simp
  show ?thesis
    by (rule exI[of _ m2], rule exI[of _ rt], rule exI[of _ "ComputeTransferID (hP cli_host) x"], rule exI[of _ x], rule exI[of _ i])
      (use r2 x s(2) d in simp)
qed

section \<open>Commands\<close>

lemma tx_send_named: "f \<in> {''control'', ''input'', ''amount'', ''unit'', ''to''} \<Longrightarrow> named tx_send_flag_set (f, v)"
  by (auto simp: named_def tx_send_flag_set_def)

text \<open>A flag that is refused leaves the record alone, in the total form of \<open>set_flag\<close>.\<close>

definition put_flag :: "string \<times> string \<Rightarrow> tx_send_flags \<Rightarrow> tx_send_flags" where
  "put_flag p f = (case set_flag tx_send_flag_set p f of None \<Rightarrow> f | Some f \<Rightarrow> f)"

lemma set_flags_fold:
  "(\<And>p f. p \<in> set ps \<Longrightarrow> set_flag tx_send_flag_set p f \<noteq> None) \<Longrightarrow>
     set_flags tx_send_flag_set ps f = Some (fold put_flag ps f)"
proof (induction ps arbitrary: f)
  case (Cons p ps)
  obtain g where "set_flag tx_send_flag_set p f = Some g" using Cons.prems[of p f] by auto
  then show ?case using Cons.IH[of g] Cons.prems by (simp add: put_flag_def)
qed simp

lemma put_flag_simps:
  "put_flag (''input'', v) f = f\<lparr>fRequest := (fRequest f)\<lparr>InputID := v\<rparr>\<rparr>"
  "put_flag (''unit'', v) f = f\<lparr>fRequest := (fRequest f)\<lparr>reqUnit := v\<rparr>\<rparr>"
  "put_flag (''to'', v) f = f\<lparr>fRequest := (fRequest f)\<lparr>reqTo := v\<rparr>\<rparr>"
  "put_flag (''control'', v) f = f\<lparr>fControl := v\<rparr>"
  "n < 2 ^ 64 \<Longrightarrow> put_flag (''amount'', dec n) f = f\<lparr>fRequest := (fRequest f)\<lparr>reqAmount := of_nat n\<rparr>\<rparr>"
  by (simp_all add: put_flag_def set_flag_def tx_send_flag_set_def ParseUint_dec)

lemma put_flag_commute:
  assumes "n < 2 ^ 64"
    and "p \<in> set [(''control'', c), (''input'', i), (''amount'', dec n), (''unit'', u), (''to'', t)]"
    and "q \<in> set [(''control'', c), (''input'', i), (''amount'', dec n), (''unit'', u), (''to'', t)]"
  shows "put_flag p (put_flag q f) = put_flag q (put_flag p f)"
proof -
  obtain cc a b d e where "f = \<lparr>fControl = cc, fRequest = \<lparr>InputID = a, reqAmount = b, reqUnit = d, reqTo = e\<rparr>\<rparr>"
    by (metis send_tx_request.surjective tx_send_flags.surjective old.unit.exhaust)
  then show ?thesis using assms(2,3) unfolding list.set insert_iff empty_iff
    by (elim disjE) (simp_all add: put_flag_simps(1-4) put_flag_simps(5)[OF assms(1)])
qed

text \<open>C13: \<open>tx send\<close> reads its flags in any order: given a control socket, an input, a positive amount in decimal, a unit and a recipient, none of them empty, it makes exactly the call for this request at this socket, and prints the reply.\<close>

theorem tx_send_flags_any_order:
  assumes "mset flags = {#(''control'', c), (''input'', i), (''amount'', dec n), (''unit'', u), (''to'', t)#}"
    and "i \<noteq> []" and "u \<noteq> []" and "t \<noteq> []" and "0 < n" and "n < 2 ^ 64"
  shows "runTxSend H k (flag_args flags) m =
    ask H k c (RpcSendTx \<lparr>InputID = i, reqAmount = of_nat n, reqUnit = u, reqTo = t\<rparr>)
      (\<lambda>reply. case reply of SendTxReply r \<Rightarrow> print_sent r | _ \<Rightarrow> []) m"
proof -
  let ?ps = "[(''control'', c), (''input'', i), (''amount'', dec n), (''unit'', u), (''to'', t)]"
  have ms: "mset flags = mset ?ps" using assms(1) by simp
  then have st: "set flags = set ?ps" by (metis set_mset_mset)
  have "\<forall>p \<in> set flags. named tx_send_flag_set p" using st tx_send_named by auto
  then have p: "Parse tx_send_flag_set no_flags (flag_args flags)
      = map_option (\<lambda>r. (r, [])) (set_flags tx_send_flag_set flags no_flags)" by (rule Parse_flag_args)
  have "set_flag tx_send_flag_set p f \<noteq> None" if "p \<in> set flags" for p f
    using that assms(6) unfolding st by (auto simp: set_flag_def tx_send_flag_set_def ParseUint_dec)
  then have "set_flags tx_send_flag_set flags no_flags = Some (fold put_flag flags no_flags)"
    by (rule set_flags_fold)
  moreover have "fold put_flag flags = fold put_flag ?ps"
    by (rule fold_multiset_equiv[OF _ ms]) (rule ext, unfold comp_def st, rule put_flag_commute[OF assms(6)])
  moreover have "fold put_flag ?ps no_flags = \<lparr>fControl = c,
      fRequest = \<lparr>InputID = i, reqAmount = of_nat n, reqUnit = u, reqTo = t\<rparr>\<rparr>"
    by (simp add: put_flag_simps(1-4) put_flag_simps(5)[OF assms(6)] no_flags_def)
  ultimately have "Parse tx_send_flag_set no_flags (flag_args flags) = Some (\<lparr>fControl = c,
      fRequest = \<lparr>InputID = i, reqAmount = of_nat n, reqUnit = u, reqTo = t\<rparr>\<rparr>, [])" using p by simp
  moreover have "unat (of_nat n :: uint64) = n" using assms(6) by (simp add: unat_of_nat take_bit_eq_mod)
  then have "(of_nat n :: uint64) \<noteq> 0" using assms(5) by (metis unat_0 less_irrefl)
  ultimately show ?thesis using assms(2-4) by (simp add: runTxSend_def Let_def)
qed

theorem tx_send_flags_any_order_witness:
  "runTxSend cli_host 0 (flag_args [(''to'', ''ab''), (''unit'', ''WEB4''), (''amount'', dec 5), (''control'', ''/tmp/a.sock''), (''input'', ''cd'')]) cli_machine
   = ask cli_host 0 ''/tmp/a.sock'' (RpcSendTx \<lparr>InputID = ''cd'', reqAmount = of_nat 5, reqUnit = ''WEB4'', reqTo = ''ab''\<rparr>)
      (\<lambda>reply. case reply of SendTxReply r \<Rightarrow> print_sent r | _ \<Rightarrow> []) cli_machine"
  by (rule tx_send_flags_any_order) simp_all

section \<open>The shell\<close>

text \<open>C18: A shell that returns leaves no runtime behind: every runtime that was started from one of its lines is closed, and nobody listens at its control socket, whether or not its file could be removed. A second \<open>node start\<close> in the same shell starts nothing.\<close>

theorem shell_leaves_nothing:
  assumes "machine_reachable H m" and "runShell H m inputs = Some (m', session, out, Returned_shell e)"
    and "mRuntimes m' r \<noteq> mRuntimes m r"
  shows "\<exists>rt. mRuntimes m' r = Some rt \<and> rtClosed rt
    \<and> (\<forall>s. map_of (mFiles m') (rtControlPath rt) \<noteq> Some (LiveSocket s))"
proof -
  have "session_ok H m \<lparr>shRuntime = None\<rparr> m" using machine_reachable_ok[OF assms(1)] by (simp add: session_ok_def)
  then show ?thesis using shell_loop_closes[OF assms(2)[unfolded runShell_def]] assms(3) by blast
qed

definition cli_start_line :: string where
  "cli_start_line = ''node start --id A --listen 127.0.0.1:9101 --control /tmp/a.sock''"

definition cli_start_inputs :: start_inputs where
  "cli_start_inputs = \<lparr>siSys = cli_sys, siNow = 100, siListen = Inr ''127.0.0.1:9101'', siSend = (\<lambda>_ _. None), siRegister = None\<rparr>"

lemma cli_line_fields:
  "Fields (TrimSpace cli_start_line)
     = [''node'', ''start'', ''--id'', ''A'', ''--listen'', ''127.0.0.1:9101'', ''--control'', ''/tmp/a.sock'']"
  by code_simp

lemma cli_line_flags:
  "Parse node_start_flag_set \<lparr>nsID = [], nsListen = [], nsControl = [], nsPeers = []\<rparr>
     (drop 2 (Fields (TrimSpace cli_start_line)))
   = Some (\<lparr>nsID = ''A'', nsListen = ''127.0.0.1:9101'', nsControl = ''/tmp/a.sock'', nsPeers = []\<rparr>, [])"
  by code_simp

definition cli_no_demo :: tcp_demo_io where
  "cli_no_demo = \<lparr>dioListen = (\<lambda>a. Inl NetClosed), dioSend = (\<lambda>a p msg. None), dioSleeps = (\<lambda>a. []), dioClose = (\<lambda>a. None)\<rparr>"

definition cli_surroundings :: surroundings where
  "cli_surroundings = \<lparr>oStart = cli_start_inputs, oFuel = 0, oRemove = Some NetClosed, oTcpDemo = cli_no_demo\<rparr>"

text \<open>The first line starts a runtime, the second is refused, and then there is no more input.\<close>

theorem shell_leaves_nothing_witness:
  "\<exists>m session out rt. runShell cli_host cli_machine
       [(Line cli_start_line, cli_surroundings), (Line cli_start_line, cli_surroundings), (EndOfInput, cli_surroundings)]
     = Some (m, session, out, Returned_shell None)
     \<and> mRuntimes m 0 = Some rt \<and> rtClosed rt \<and> (\<forall>s. map_of (mFiles m) (rtControlPath rt) \<noteq> Some (LiveSocket s))"
proof -
  let ?config = "\<lparr>cfgID = ''A'', cfgListen = ''127.0.0.1:9101'', cfgPeers = [], cfgControlPath = ''/tmp/a.sock''\<rparr>"
  have "with_control cli_host ?config = ?config" by (simp add: with_control_def)
  then obtain m1 rt where s: "startManagedRuntime cli_host cli_sys 100 (Inr ''127.0.0.1:9101'') (\<lambda>_ _. None) None
      ?config cli_machine = (m1, Inr 0)" "mRuntimes m1 0 = Some rt" "rtNode rt = 0"
    by (simp add: startManagedRuntime_def seedDeveloperValue_eq new_runtime_def listenControlSocket_def
        Start_def NewTCPTransport_def cli_sys_def cli_machine_def Let_def)
  have start: "runNodeStart cli_host cli_start_inputs (drop 2 (Fields (TrimSpace cli_start_line))) shell m
      = (if shell \<noteq> None \<and> shRuntime (the shell) \<noteq> None then (m, [], Inl NodeAlreadyStarted) else
         case startManagedRuntime cli_host cli_sys 100 (Inr ''127.0.0.1:9101'') (\<lambda>_ _. None) None ?config m of
             (m, Inl e) \<Rightarrow> (m, [], Inl e)
           | (m, Inr r) \<Rightarrow> (case mRuntimes m r of None \<Rightarrow> (m, [], Inl PanicNilDeref)
               | Some rt \<Rightarrow> (m, print_started (Status_reply rt (mWorld m)), Inr r)))" for shell m
    unfolding runNodeStart_def cli_line_flags Let_def by (simp add: cli_start_inputs_def startControlSocketPath_def)
  have nonempty: "TrimSpace cli_start_line \<noteq> []" by code_simp
  have line: "shell_line cli_host cli_surroundings cli_start_line session m
      = (case runNodeStart cli_host cli_start_inputs (drop 2 (Fields (TrimSpace cli_start_line))) (Some session) m of
           (m, out, Inl e) \<Rightarrow> Some (Some (m, session, [Text out, ErrorLine e]))
         | (m, out, Inr r) \<Rightarrow> Some (Some (m, session\<lparr>shRuntime := Some r\<rparr>, [Text out])))" for session m
    using nonempty
    by (simp add: shell_line_def Let_def executeCommand_def runNodeCommand_def cli_line_fields cli_surroundings_def
        split: prod.splits sum.splits)
  have remove: "oRemove cli_surroundings = Some NetClosed" by (simp add: cli_surroundings_def)
  define m2 where "m2 = fst (closeRuntime None None (Some NetClosed) rt m1)"
  have run: "\<exists>session out. runShell cli_host cli_machine
       [(Line cli_start_line, cli_surroundings), (Line cli_start_line, cli_surroundings), (EndOfInput, cli_surroundings)]
     = Some (m2, session, out, Returned_shell None)"
    by (simp add: runShell_def line start s close_session_def remove m2_def)
  have "mRuntimes m2 0 \<noteq> mRuntimes cli_machine 0"
    using s(2,3) by (simp add: m2_def cli_machine_def closeRuntime_def Let_def)
  then show ?thesis using shell_leaves_nothing[OF cli_machine_reachable] run by blast
qed

section \<open>The demonstration\<close>

text \<open>C19: \<open>demo basic\<close> succeeds: the two other nodes get the transfer through INV, GET and TX, all three select it, and the command prints exactly this, if the signature of the demonstration's key verifies, digests have 32 bytes and the random message identifiers differ.\<close>

theorem demo_basic_succeeds:
  assumes "\<And>b. length (Sum256 (hP H) b) = 32"
    and "\<And>msg. ed25519_Verify (hP H) (fst (ownerKeys H 1)) msg (ed25519_Sign (hP H) (snd (ownerKeys H 1)) msg)"
    and "\<And>msg. length (ed25519_Sign (hP H) (snd (ownerKeys H 1)) msg) \<le> 64"
    and "inj_on (randID (hEnv H)) {..<6}" and "3 \<le> oFuel os"
  shows "\<exists>t sA sB sC. {sA, sB, sC} \<subseteq> {StatusSelected, StatusFinal}
     \<and> executeCommand H os [''demo'', ''basic''] shell m = Some (m, ''[A] created tx: '' @ shortHash t @ nl
       @ print_exchange t ''B'' @ print_exchange t ''C'' @ ''Final selected state:'' @ nl
       @ print_selected_node ''A'' t sA @ print_selected_node ''B'' t sB @ print_selected_node ''C'' t sC, None, None)"
proof -
  let ?wall = "siNow (oStart os)"
  have "inj_on (randID (hEnv H)) {..<rng (demo_world ?wall) + 6}" using assms(4) by (simp add: demo_world_def)
  from RunDemoBasic_prints[OF demo_world_inv assms(1-3) this assms(5)] obtain w' t sA sB sC
    where s: "{sA, sB, sC} \<subseteq> {StatusSelected, StatusFinal}"
      and r: "RunDemoBasic H (oFuel os) ?wall (demo_world ?wall) = Some (w', ''[A] created tx: '' @ shortHash t @ nl
        @ print_exchange t ''B'' @ print_exchange t ''C'' @ ''Final selected state:'' @ nl
        @ print_selected_node ''A'' t sA @ print_selected_node ''B'' t sB @ print_selected_node ''C'' t sC, None)"
    by metis
  have "runDemoCommand H (oFuel os) ?wall (oTcpDemo os) [''basic''] (demo_world ?wall)
      = RunDemoBasic H (oFuel os) ?wall (demo_world ?wall)"
    by (simp add: runDemoCommand_def)
  then show ?thesis using s r by (intro exI conjI) (assumption, simp add: executeCommand_def)
qed

text \<open>The key of the demonstration, and six identifiers.\<close>

lemma cli_host_ids: "inj_on (randID (hEnv cli_host)) {..<6}"
proof -
  have "{..<6 :: nat} = {0, 1, 2, 3, 4, 5}" by auto
  then show ?thesis by (simp add: cli_host_def)
qed

theorem demo_basic_succeeds_witness:
  "\<exists>out. executeCommand cli_host (cli_surroundings\<lparr>oFuel := 3\<rparr>) [''demo'', ''basic''] None cli_machine
     = Some (cli_machine, ''[A] created tx: '' @ out, None, None)"
proof -
  let ?os = "cli_surroundings\<lparr>oFuel := 3\<rparr>"
  have k: "ed25519_Verify (hP cli_host) (fst (ownerKeys cli_host 1)) msg (ed25519_Sign (hP cli_host) (snd (ownerKeys cli_host 1)) msg)"
    "length (ed25519_Sign (hP cli_host) (snd (ownerKeys cli_host 1)) msg) \<le> 64" for msg
    by (simp_all add: cli_host_def cli_prims_def ownerKeys_def copy_public_def Let_def)
  have f: "3 \<le> oFuel ?os" by simp
  from demo_basic_succeeds[OF cli_keys(1) k cli_host_ids f, of None cli_machine] show ?thesis by blast
qed

text \<open>C20: \<open>demo conflict\<close> succeeds: two transfers of one input, submitted at different nodes, both get to all three nodes, no error path is taken, every node has a score for both and selects one of them, and the command prints exactly this. The digests of the two transfers differ, and no output has the identifier of the input.\<close>

theorem demo_conflict_succeeds:
  assumes "\<And>b. length (Sum256 (hP H) b) = 32"
    and "\<And>msg. ed25519_Verify (hP H) (fst (ownerKeys H 2)) msg (ed25519_Sign (hP H) (snd (ownerKeys H 2)) msg)"
    and "\<And>msg. length (ed25519_Sign (hP H) (snd (ownerKeys H 2)) msg) \<le> 64"
    and "inj_on (randID (hEnv H)) {..<36}" and "12 \<le> oFuel os"
    and "v = known_input H 2 50" and "x1 = signedTransfer (hP H) v (snd (ownerKeys H 2)) 25 21"
    and "x2 = signedTransfer (hP H) v (snd (ownerKeys H 2)) 40 22"
    and "t1 = ComputeTransferID (hP H) x1" and "t2 = ComputeTransferID (hP H) x2"
    and "t1 \<noteq> t2" and "vID v \<notin> ComputeValueID (hP H) ` set (Outputs x1 @ Outputs x2)"
  shows "\<exists>scoreA scoreB scoreC uA uB uC. {uA, uB, uC} \<subseteq> {t1, t2}
     \<and> executeCommand H os [''demo'', ''conflict''] shell m = Some (m,
       ''Conflict detected on input '' @ shortHash (vID v) @ '':'' @ nl
       @ concat (map (\<lambda>t. ''  tx: '' @ shortHash t @ nl) (sort [t1, t2])) @ nl @ ''Scores:'' @ nl
       @ print_scores ''A'' [t1, t2] scoreA @ print_scores ''B'' [t1, t2] scoreB @ print_scores ''C'' [t1, t2] scoreC
       @ nl @ ''Selected:'' @ nl @ print_choice ''A'' uA @ print_choice ''B'' uB @ print_choice ''C'' uC, None, None)"
proof -
  let ?wall = "siNow (oStart os)"
  note eqs = assms(6-10)
  obtain w' score u where u: "\<And>a. u a \<in> {t1, t2}"
    and r: "RunDemoConflict H (oFuel os) ?wall (demo_world ?wall) = Some (w',
       ''Conflict detected on input '' @ shortHash (vID v) @ '':'' @ nl
       @ concat (map (\<lambda>t. ''  tx: '' @ shortHash t @ nl) (sort [t1, t2])) @ nl @ ''Scores:'' @ nl
       @ print_scores ''A'' [t1, t2] (score (0 :: nat)) @ print_scores ''B'' [t1, t2] (score 1) @ print_scores ''C'' [t1, t2] (score 2)
       @ nl @ ''Selected:'' @ nl @ print_choice ''A'' (u 0) @ print_choice ''B'' (u 1) @ print_choice ''C'' (u (2 :: nat)), None)"
    by (rule RunDemoConflict_prints[where wall = ?wall, OF assms(1-5) assms(11,12)[unfolded eqs], folded eqs(1), folded eqs(2,3), folded eqs(4,5)]) (rule that)
  have "runDemoCommand H (oFuel os) ?wall (oTcpDemo os) [''conflict''] (demo_world ?wall)
      = RunDemoConflict H (oFuel os) ?wall (demo_world ?wall)"
    by (simp add: runDemoCommand_def)
  then have "executeCommand H os [''demo'', ''conflict''] shell m
      = map_option (\<lambda>(w, out, e). (m, out, e, None)) (RunDemoConflict H (oFuel os) ?wall (demo_world ?wall))"
    by (simp add: executeCommand_def)
  note run = this[unfolded r option.map prod.case]
  have "{u 0, u 1, u 2} \<subseteq> {t1, t2}" using u by simp
  then show ?thesis using run by (intro exI conjI) (assumption, assumption)
qed

text \<open>A digest that tells the two transfers apart: it repeats the lowest byte of the last amount.\<close>

definition byte_host :: host where
  "byte_host = cli_host\<lparr>hEnv := (hEnv cli_host)\<lparr>crypt := cli_prims\<lparr>Sum256 := (\<lambda>b. replicate 32 (b ! (length b - 61)))\<rparr>\<rparr>\<rparr>"

theorem demo_conflict_succeeds_witness:
  "\<exists>out. executeCommand byte_host (cli_surroundings\<lparr>oFuel := 12\<rparr>) [''demo'', ''conflict''] None cli_machine
     = Some (cli_machine, ''Conflict detected on input '' @ out, None, None)"
proof -
  let ?os = "cli_surroundings\<lparr>oFuel := 12\<rparr>" and ?v = "known_input byte_host 2 50"
  let ?x1 = "signedTransfer (hP byte_host) ?v (snd (ownerKeys byte_host 2)) 25 21"
  let ?x2 = "signedTransfer (hP byte_host) ?v (snd (ownerKeys byte_host 2)) 40 22"
  have k: "length (Sum256 (hP byte_host) b) = 32"
    "ed25519_Verify (hP byte_host) (fst (ownerKeys byte_host 2)) msg (ed25519_Sign (hP byte_host) (snd (ownerKeys byte_host 2)) msg)"
    "length (ed25519_Sign (hP byte_host) (snd (ownerKeys byte_host 2)) msg) \<le> 64" for b msg
    by (simp_all add: byte_host_def cli_host_def cli_prims_def ownerKeys_def copy_public_def Let_def)
  have i: "inj_on (randID (hEnv byte_host)) {..<36}"
  proof (rule inj_onI)
    fix a b :: nat assume ab: "a \<in> {..<36}" "b \<in> {..<36}" and "randID (hEnv byte_host) a = randID (hEnv byte_host) b"
    then have "unat (of_nat a :: byte) = unat (of_nat b :: byte)" by (simp add: byte_host_def cli_host_def)
    then show "a = b" using ab by (simp add: unat_of_nat)
  qed
  have f: "12 \<le> oFuel ?os" by simp
  have ne: "ComputeTransferID (hP byte_host) ?x1 \<noteq> ComputeTransferID (hP byte_host) ?x2" by code_simp
  have old: "vID ?v \<notin> ComputeValueID (hP byte_host) ` set (Outputs ?x1 @ Outputs ?x2)" by code_simp
  from demo_conflict_succeeds[OF k i f refl refl refl refl refl ne old, of None cli_machine]
  show ?thesis by blast
qed

end
