(* ===== verification/Crypto_Aead.thy ===== *)
theory Crypto_Aead
  imports Web4_Base
begin

text \<open>
  Encryption (\<open>crypto/aead.go\<close>), which no other part of the program uses yet. XChaCha20-Poly1305 is
  a third-party package: \<open>newX\<close> stands for its constructor, \<open>Seal\<close> and \<open>Open\<close> for its two operations.
  \<open>Seal\<close> panics for a nonce of a wrong length, which is an error value here.
\<close>

record aead =
  Seal :: "bytes \<Rightarrow> bytes \<Rightarrow> error + bytes"
  Open :: "bytes \<Rightarrow> bytes \<Rightarrow> error + bytes"

definition Encrypt :: "(bytes \<Rightarrow> error + aead) \<Rightarrow> bytes \<Rightarrow> bytes \<Rightarrow> bytes \<Rightarrow> error + bytes" where
  "Encrypt newX key nonce plaintext =
     (case newX key of Inl err \<Rightarrow> Inl err | Inr a \<Rightarrow> Seal a nonce plaintext)"

definition Decrypt :: "(bytes \<Rightarrow> error + aead) \<Rightarrow> bytes \<Rightarrow> bytes \<Rightarrow> bytes \<Rightarrow> error + bytes" where
  "Decrypt newX key nonce ciphertext =
     (case newX key of Inl err \<Rightarrow> Inl err | Inr a \<Rightarrow> Open a nonce ciphertext)"

lemma Decrypt_Encrypt:
  assumes "\<And>a c. newX key = Inr a \<Longrightarrow> Seal a nonce p = Inr c \<Longrightarrow> Open a nonce c = Inr p"
    and "Encrypt newX key nonce p = Inr c"
  shows "Decrypt newX key nonce c = Inr p"
  using assms by (auto simp: Encrypt_def Decrypt_def split: sum.splits)

end
