(* ===== verification/Spec2Isabelle.thy ===== *)
theory Spec2Isabelle
  imports Node_Properties Selection_Properties Codec_Properties Transport_Properties Tcp_Properties Cli_Properties Crypto_Aead
begin

text \<open>
  A model of the Web4 node: a peer that stores signed transfers of values, keeps conflicting
  transfers side by side, selects one of them for each input by a score over floating-point
  numbers, derives a finality state, and spreads transfers to its peers by gossip.

  The parts, bottom up, with the source files they model under \<open>src/\<close>:

  \<^item> \<open>Web4_Base\<close>: shared types and automation. Machine integers are words; an \<open>error\<close> is a value, and
    a fallible function returns \<open>error + 'a\<close> with \<open>bindE\<close> for Go's early return; two of the errors
    stand for the runtime panics (slice bounds, nil dereference). A Go map is an association list
    with distinct keys, used only through the laws of the locale \<open>map_interface\<close>.
  \<^item> \<open>Float64\<close>: IEEE 754 binary64 on rationals, rounding half to even, with infinities and NaN. The
    two zeros are one value: the code never divides by a zero whose sign it could observe.
  \<^item> \<open>Codec\<close>: the byte order functions and the locales for encoders and decoders (\<open>codec\<close>,
    \<open>indexed_codec\<close>, \<open>whole_codec\<close>, \<open>payload_codec\<close>), interpreted on every encoding of the program.
  \<^item> \<open>Crypto\<close> (\<open>crypto/\<close>): values and transfers, their canonical encoding, identifiers, signatures.
    The digest of identifiers (BLAKE3, \<open>id.go\<close>) and Ed25519 are the fields of the parameter \<open>prims\<close>. \<open>Crypto_Aead\<close> (\<open>crypto/aead.go\<close>).
  \<^item> \<open>Protocol_Message\<close> (\<open>protocol/message.go\<close>, \<open>payload_*.go\<close>), \<open>Replay\<close> (\<open>protocol/replay.go\<close>).
  \<^item> \<open>Node_State\<close> (\<open>node/types.go\<close>, \<open>store.go\<close>, \<open>node.go\<close>, the validation of \<open>handlers.go\<close>),
    \<open>Node_Selection\<close> (\<open>selection.go\<close>, \<open>finality.go\<close>), \<open>Node_Inspect\<close> (\<open>inspect.go\<close>).
  \<^item> \<open>Node_Network\<close> (\<open>handlers.go\<close>, \<open>OnMessage\<close> and \<open>AcceptLocalTransfer\<close> of \<open>node.go\<close>): a \<open>world\<close> is
    a store of nodes at addresses, because in-process peers are pointers to each other and a handler
    calls the peer's \<open>OnMessage\<close> directly; a call of a call has one less unit of fuel.
  \<^item> \<open>Transport_Frame\<close> (\<open>transport/transport.go\<close>, handshake and receive loop of \<open>tcp.go\<close>),
    \<open>Transport_Tcp\<close> (\<open>tcp.go\<close>): the transport of one process as a state machine. A goroutine (an accept
    loop, a receive loop, a call of \<open>Send\<close>, a call of \<open>Close\<close>) is a program counter; one step is one
    critical section or one network call of the code, and every interleaving of the steps is a run.
    What the network answers is an argument of the step. A stream is a list of bytes that is read in
    pieces of any size. A write is one step, because \<open>writeMu\<close> is held around it: how calls compete
    for \<open>writeMu\<close> is not modelled, only the order in which they get it. The handshake of a dialled
    connection and the start of its goroutine are one step as well.
  \<^item> \<open>Cli_Text\<close> (hexadecimal, white space, paths, decimal numbers, control sockets), \<open>Cli_Runtime\<close>
    (\<open>internal/cli/runtime.go\<close>): a \<open>machine\<close> holds the nodes of the runtimes that were started on it,
    the runtimes, and the files at control sockets. A request of the service is one step, because a
    runtime holds its mutex around it; the calls of the operating system are arguments. The key of the
    developer value is made from SHA-256, another digest than that of identifiers: \<open>sha256Sum\<close> of \<open>host\<close>.
  \<^item> \<open>Cli_Flags\<close> (the rules of package \<open>flag\<close>, \<open>strconv.ParseUint\<close>), \<open>Cli_Commands\<close> (\<open>cli.go\<close>), \<open>Cli_Demo\<close>
    and \<open>Cli_Demo_Tcp\<close> (\<open>demo.go\<close>; in the latter the world between two looks at a node is an argument),
    \<open>Cli_Shell\<close> (\<open>repl.go\<close>, \<open>runWithIO\<close> and \<open>main\<close>): a command returns the machine, what it has printed and its
    error; \<open>None\<close> means that the fuel for nested calls of nodes was too small. A shell is given the
    lines it reads, each with what the operating system answers while it is executed.

  The lemmas. \<open>Node_Inv\<close> states the invariant of a node (\<open>node_inv\<close>: records, conflict sets, values,
  lineages, finality, cache), \<open>Node_Recompute\<close> shows that recomputation restores its derived part.
  The locale \<open>delivery\<close> of \<open>Node_Network\<close> says what a handler needs of the function it sends with;
  it is interpreted on \<open>send (OnMessage E k)\<close>, by induction on the fuel, and gives that the handlers
  are sequences of the abstract steps \<open>nstep\<close> and \<open>lstep\<close>. \<open>Node_Safety\<close> proves the invariant for these
  steps, \<open>Node_Runs\<close> lifts it to the runs of a network (\<open>event\<close>, \<open>run\<close>, \<open>reachable\<close>),
  \<open>Node_Panics\<close> excludes the panics, \<open>Node_Liveness\<close> bounds the nesting of calls,
  \<open>Node_Gossip\<close> follows one transfer to a peer and one identifier through the replay cache,
  \<open>Node_Exchange\<close> says what an exchange of INV, GET and TX leaves at both of its ends, exactly,
  \<open>Node_Flood\<close> follows a transfer through a whole network: every node that gets it has passed it to its
  peers when its call returns, and the identifiers used up are counted against the nodes that lack it.
  The locales \<open>kept_by_steps\<close> and \<open>kept_by_runs\<close> of \<open>Node_Kept\<close> carry a property of a node from the
  abstract steps through every call and every run; their interpretations are the uniqueness of keys
  (\<open>Node_Inspect\<close>), what kinds of things the stores hold (\<open>Node_Types\<close>) and the descent of inputs
  (\<open>Cli_Machine\<close>).
  \<open>Node_Scores\<close> and \<open>Node_Choice\<close> bound the scores and show that the choice is a maximum.
  \<open>Scenario\<close> holds the concrete networks of the witnesses.

  \<open>Tcp_Inv\<close> and \<open>Tcp_Facts\<close> state the invariant of the transport (\<open>Tcp_Properties.table_sound\<close>: every
  entry of the table is live) and what each step keeps, \<open>Tcp_Safety\<close> follows \<open>Close\<close> and the goroutines
  it waits for, \<open>Tcp_Streams\<close> and \<open>Tcp_Delivery\<close> follow the bytes of a connection from the sender to the
  receiver's handler, \<open>Tcp_Calls\<close> shows that a waiting \<open>Send\<close> can always go on.

  \<open>Cli_Machine\<close> defines the steps of a machine (\<open>machine_step\<close>, \<open>machine_reachable\<close>).
  \<open>Cli_Safety\<close> proves the invariant \<open>machine_ok\<close>, \<open>Cli_Requests\<close> what \<open>sendTx\<close> does on every branch,
  \<open>Cli_Session\<close> that a command is a sequence of these steps and that a shell closes what it has started,
  \<open>Cli_Demo_Facts\<close> and \<open>Cli_Demo_Conflict\<close> what \<open>demo basic\<close> and \<open>demo conflict\<close> print, \<open>Cli_Hex\<close> and
  \<open>Cli_Paths\<close> the lemmas on texts and paths. The properties are in \<open>Node_Properties\<close>, \<open>Selection_Properties\<close>, \<open>Codec_Properties\<close>, \<open>Transport_Properties\<close>, \<open>Tcp_Properties\<close> and \<open>Cli_Properties\<close>.

  Bounds. A call in a network of the finite set \<open>A\<close> of nodes needs at most \<open>3 * card A + 3\<close> nested
  calls: each INV, GET and TX exchange that goes deeper stores the transfer at one node more. Scores
  are bounded for counts below \<open>2 ^ 52\<close> (\<open>few\<close>) and for a logarithm below \<open>1024\<close> (\<open>log_ok\<close>), which
  any \<open>math.Log\<close> of a finite float satisfies.

  Assumptions. An \<open>int\<close> of Go has 64 bits. The clock of a node is constant during one activation of a
  handler. \<open>math.Log\<close> and the order in which \<open>range\<close> visits the proofs are fields of the
  parameter \<open>env\<close>; the properties hold for all of them, or name what they need. The order is a function
  of the map, the same whenever a run visits the same map, while Go may choose another each time; two
  properties of \<open>Selection_Properties\<close> say when that matters. Products and sums are rounded one by
  one: no fused multiply-add, which Go allows on some architectures other than amd64. A \<open>sender\<close>
  given to a node is a function to errors; what it does elsewhere comes back to the network as
  messages, that is, as events of a run.

  Not modelled: the primitives behind \<open>prims\<close>, \<open>sha256Sum\<close>, \<open>keyFromSeed\<close> and the AEAD; the encoding of
  requests by \<open>net/rpc\<close>, which is taken to hand a request and its answer on unchanged; the line editor
  behind the shell and its configuration; accessors that only read a field under a mutex.
\<close>

end
